(* ===== verification/Prelude_C.thy ===== *)
theory Prelude_C
  imports Main "HOL-Library.Word" "HOL-Library.Multiset"
begin

text \<open>
  Shared ground of the development: C faults as values, bounds-checked arrays, searches over the
  first \<open>n\<close> cells of a fixed-size array, the swap-with-last deletion the servers use, and runs of
  a fallible step function over a list of events. Everything here is generic; the theories of the
  components import it and add their own state and operations.
\<close>

named_theorems res_simps \<open>equations for the fallible result type\<close>
named_theorems live_simps \<open>equations for the live prefix of a counted array\<close>

section \<open>Faults and results\<close>

text \<open>
  What the C standard leaves undefined is a value of \<open>c_error\<close>: an access outside an array, the
  use of a null or dangling pointer, a signed overflow. A function of the model that can reach such a point
  returns \<open>Inl\<close> of it, and every later step is skipped.
\<close>

datatype c_error = Out_of_bounds | Bad_pointer | Int_overflow

type_synonym 'a res = "c_error + 'a"

definition bindR :: "'a res \<Rightarrow> ('a \<Rightarrow> 'b res) \<Rightarrow> 'b res" where
  "bindR m f = (case m of Inl e \<Rightarrow> Inl e | Inr x \<Rightarrow> f x)"

lemma bindR_Inr [simp, res_simps]: "bindR (Inr x) f = f x"
  by (simp add: bindR_def)

lemma bindR_Inl [simp, res_simps]: "bindR (Inl e) f = Inl e"
  by (simp add: bindR_def)

lemma bindR_eq_Inr [res_simps]: "bindR m f = Inr y \<longleftrightarrow> (\<exists>x. m = Inr x \<and> f x = Inr y)"
  by (cases m) auto

lemma bindR_eq_Inl [res_simps]:
  "bindR m f = Inl e \<longleftrightarrow> m = Inl e \<or> (\<exists>x. m = Inr x \<and> f x = Inl e)"
  by (cases m) auto

lemma bindR_assoc: "bindR (bindR m f) g = bindR m (\<lambda>x. bindR (f x) g)"
  by (cases m) auto

lemma bindR_cong [fundef_cong]:
  "m = m' \<Longrightarrow> (\<And>x. m' = Inr x \<Longrightarrow> f x = g x) \<Longrightarrow> bindR m f = bindR m' g"
  by (cases m') auto

definition is_fault :: "'a res \<Rightarrow> bool" where
  "is_fault m = (case m of Inl _ \<Rightarrow> True | Inr _ \<Rightarrow> False)"

lemma is_fault_simps [simp]: "is_fault (Inl e)" "\<not> is_fault (Inr x)"
  by (simp_all add: is_fault_def)

lemma not_fault_iff: "\<not> is_fault m \<longleftrightarrow> (\<exists>x. m = Inr x)"
  by (cases m) auto

section \<open>Arrays\<close>

text \<open>A C array is a list of its declared length; a store is checked against that length.\<close>

definition arr_set :: "'a list \<Rightarrow> nat \<Rightarrow> 'a \<Rightarrow> 'a list res" where
  "arr_set xs i v = (if i < length xs then Inr (xs[i := v]) else Inl Out_of_bounds)"

definition arr_get :: "'a list \<Rightarrow> nat \<Rightarrow> 'a res" where
  "arr_get xs i = (if i < length xs then Inr (xs ! i) else Inl Out_of_bounds)"

text \<open>The same with a signed index, as in \<open>buffer[n]\<close> with the \<open>int\<close> a system call returned.\<close>

definition arr_set_int :: "'a list \<Rightarrow> int \<Rightarrow> 'a \<Rightarrow> 'a list res" where
  "arr_set_int xs i v = (if 0 \<le> i then arr_set xs (nat i) v else Inl Out_of_bounds)"

definition arr_get_int :: "'a list \<Rightarrow> int \<Rightarrow> 'a res" where
  "arr_get_int xs i = (if 0 \<le> i then arr_get xs (nat i) else Inl Out_of_bounds)"

lemma arr_set_eq_Inr [res_simps]:
  "arr_set xs i v = Inr ys \<longleftrightarrow> i < length xs \<and> ys = xs[i := v]"
  by (auto simp: arr_set_def)

lemma arr_set_eq_Inl [res_simps]:
  "arr_set xs i v = Inl e \<longleftrightarrow> length xs \<le> i \<and> e = Out_of_bounds"
  by (auto simp: arr_set_def)

lemma arr_get_eq_Inr [res_simps]: "arr_get xs i = Inr v \<longleftrightarrow> i < length xs \<and> v = xs ! i"
  by (auto simp: arr_get_def)

lemma arr_set_int_eq_Inr [res_simps]:
  "arr_set_int xs i v = Inr ys \<longleftrightarrow> 0 \<le> i \<and> nat i < length xs \<and> ys = xs[nat i := v]"
  by (auto simp: arr_set_int_def arr_set_def)

lemma arr_get_int_eq_Inr [res_simps]:
  "arr_get_int xs i = Inr v \<longleftrightarrow> 0 \<le> i \<and> nat i < length xs \<and> v = xs ! nat i"
  by (auto simp: arr_get_int_def arr_get_def)

section \<open>Scanning up to a separator\<close>

lemma takeWhile_stop: "\<forall>x \<in> set s. P x \<Longrightarrow> \<not> P d \<Longrightarrow> takeWhile P (s @ d # r) = s"
  by (induction s) auto

lemma dropWhile_stop: "\<forall>x \<in> set s. P x \<Longrightarrow> \<not> P d \<Longrightarrow> dropWhile P (s @ d # r) = d # r"
  by (induction s) auto

section \<open>Filters and updates\<close>

lemma filter_update_other:
  "i < length xs \<Longrightarrow> \<not> P (xs ! i) \<Longrightarrow> \<not> P v \<Longrightarrow> filter P (xs[i := v]) = filter P xs"
  by (induction xs arbitrary: i) (auto split: nat.split)

section \<open>Index lists\<close>

lemma upt_0_Suc: "[0..<Suc n] = 0 # map Suc [0..<n]"
  unfolding map_Suc_upt by (rule upt_conv_Cons) simp

text \<open>A loop over all indices whose body only acts at one of them, or at none.\<close>

lemma fold_upt_none: "(\<And>i x. i < n \<Longrightarrow> f i x = x) \<Longrightarrow> fold f [0..<n] x0 = x0"
  by (induction n) auto

lemma fold_upt_single:
  "j < n \<Longrightarrow> (\<And>x. f j x = v) \<Longrightarrow> (\<And>i x. i < n \<Longrightarrow> i \<noteq> j \<Longrightarrow> f i x = x) \<Longrightarrow> fold f [0..<n] x0 = v"
proof (induction n)
  case 0
  then show ?case by simp
next
  case (Suc n)
  show ?case
  proof (cases "j = n")
    case True
    with Suc.prems show ?thesis by simp
  next
    case False
    with Suc show ?thesis by (auto simp: less_Suc_eq)
  qed
qed

section \<open>Sums over a list\<close>

lemma sum_list_ge: "\<forall>x \<in> set xs. a \<le> f x \<Longrightarrow> length xs * (a::nat) \<le> (\<Sum>x\<leftarrow>xs. f x)"
  by (induction xs) auto

lemma sum_list_le: "\<forall>x \<in> set xs. f x \<le> b \<Longrightarrow> (\<Sum>x\<leftarrow>xs. f x) \<le> length xs * (b::nat)"
  by (induction xs) auto

section \<open>Searching the live prefix\<close>

text \<open>
  \<open>for (i = 0; i < n; i++) if (p(xs[i])) ...break;\<close> stops at the first hit. The reads stay inside
  the array as long as \<open>n\<close> is at most its length, which every component proves of its counter.
\<close>

function find_from :: "('a \<Rightarrow> bool) \<Rightarrow> 'a list \<Rightarrow> nat \<Rightarrow> nat \<Rightarrow> nat option" where
  "find_from p xs n i =
     (if i < n then (if p (xs ! i) then Some i else find_from p xs n (Suc i)) else None)"
  by pat_completeness auto
termination
  by (relation "measure (\<lambda>(p, xs, n, i). n - i)") auto

declare find_from.simps [simp del]

definition find_first :: "('a \<Rightarrow> bool) \<Rightarrow> 'a list \<Rightarrow> nat \<Rightarrow> nat option" where
  "find_first p xs n = find_from p xs n 0"

text \<open>The loop without a \<open>break\<close> overwrites its result, so the last hit wins.\<close>

definition find_last :: "('a \<Rightarrow> bool) \<Rightarrow> 'a list \<Rightarrow> nat \<Rightarrow> nat option" where
  "find_last p xs n = fold (\<lambda>i r. if p (xs ! i) then Some i else r) [0..<n] None"

lemma find_from_Some:
  "find_from p xs n i = Some k \<Longrightarrow> i \<le> k \<and> k < n \<and> p (xs ! k) \<and> (\<forall>j. i \<le> j \<longrightarrow> j < k \<longrightarrow> \<not> p (xs ! j))"
proof (induction p xs n i rule: find_from.induct)
  case (1 p xs n i)
  show ?case
  proof (cases "i < n \<and> \<not> p (xs ! i)")
    case True
    with 1 have "Suc i \<le> k \<and> k < n \<and> p (xs ! k) \<and> (\<forall>j. Suc i \<le> j \<longrightarrow> j < k \<longrightarrow> \<not> p (xs ! j))"
      by (simp add: find_from.simps [of p xs n i])
    with True show ?thesis
      by (metis Suc_leD not_less_eq_eq order_antisym_conv)
  next
    case False
    with "1.prems" show ?thesis
      by (auto simp: find_from.simps [of p xs n i] split: if_splits)
  qed
qed

lemma find_from_None: "find_from p xs n i = None \<longleftrightarrow> (\<forall>j. i \<le> j \<longrightarrow> j < n \<longrightarrow> \<not> p (xs ! j))"
proof (induction p xs n i rule: find_from.induct)
  case (1 p xs n i)
  show ?case
  proof (cases "i < n \<and> \<not> p (xs ! i)")
    case True
    with 1 have "find_from p xs n i = None \<longleftrightarrow> (\<forall>j. Suc i \<le> j \<longrightarrow> j < n \<longrightarrow> \<not> p (xs ! j))"
      by (simp add: find_from.simps [of p xs n i])
    with True show ?thesis
      by (metis Suc_leD not_less_eq_eq order_antisym_conv)
  next
    case False
    then show ?thesis
      by (auto simp: find_from.simps [of p xs n i])
  qed
qed

lemma find_first_Some:
  "find_first p xs n = Some k \<Longrightarrow> k < n \<and> p (xs ! k) \<and> (\<forall>j < k. \<not> p (xs ! j))"
  using find_from_Some [of p xs n 0 k] by (simp add: find_first_def)

lemma find_first_None: "find_first p xs n = None \<longleftrightarrow> (\<forall>j < n. \<not> p (xs ! j))"
  using find_from_None [of p xs n 0] by (simp add: find_first_def)

lemma find_first_eqI:
  assumes "k < n" and "p (xs ! k)" and "\<And>j. j < k \<Longrightarrow> \<not> p (xs ! j)"
  shows "find_first p xs n = Some k"
proof (cases "find_first p xs n")
  case None
  with assms show ?thesis by (simp add: find_first_None)
next
  case (Some m)
  from find_first_Some [OF this] assms have "m = k"
    by (metis linorder_neqE_nat)
  with Some show ?thesis by simp
qed

lemma find_last_Suc:
  "find_last p xs (Suc n) = (if p (xs ! n) then Some n else find_last p xs n)"
  by (simp add: find_last_def)

lemma find_last_0 [simp]: "find_last p xs 0 = None"
  by (simp add: find_last_def)

lemma find_last_Some:
  "find_last p xs n = Some k \<Longrightarrow> k < n \<and> p (xs ! k) \<and> (\<forall>j < n. k < j \<longrightarrow> \<not> p (xs ! j))"
  by (induction n) (auto simp: find_last_Suc less_Suc_eq split: if_splits)

lemma find_last_None: "find_last p xs n = None \<longleftrightarrow> (\<forall>j < n. \<not> p (xs ! j))"
  by (induction n) (auto simp: find_last_Suc less_Suc_eq)

section \<open>Counted arrays\<close>

text \<open>
  The tables of the servers and shells are an array and a counter; the entries in use are the
  first \<open>n\<close>. \<open>live n xs\<close> is that prefix, the abstraction of such a table to a list.
\<close>

definition live :: "nat \<Rightarrow> 'a list \<Rightarrow> 'a list" where
  "live n xs = take n xs"

lemma length_live [simp, live_simps]: "n \<le> length xs \<Longrightarrow> length (live n xs) = n"
  by (simp add: live_def)

lemma nth_live [simp, live_simps]: "i < n \<Longrightarrow> live n xs ! i = xs ! i"
  by (simp add: live_def)

lemma live_0 [simp, live_simps]: "live 0 xs = []"
  by (simp add: live_def)

lemma live_push [simp, live_simps]: "n < length xs \<Longrightarrow> live (Suc n) (xs[n := v]) = live n xs @ [v]"
  by (simp add: live_def take_Suc_conv_app_nth)

lemma live_update [live_simps]: "i < n \<Longrightarrow> live n (xs[i := v]) = (live n xs)[i := v]"
  by (simp add: live_def take_update_swap)

lemma live_update_beyond [live_simps]: "n \<le> i \<Longrightarrow> live n (xs[i := v]) = live n xs"
  by (simp add: live_def)

lemma set_live: "n \<le> length xs \<Longrightarrow> set (live n xs) = (\<lambda>i. xs ! i) ` {0..<n}"
  by (simp add: live_def nth_image)

lemma in_set_live: "n \<le> length xs \<Longrightarrow> x \<in> set (live n xs) \<longleftrightarrow> (\<exists>i < n. xs ! i = x)"
  by (auto simp: in_set_conv_nth)

lemma find_first_None_live:
  "n \<le> length xs \<Longrightarrow> find_first p xs n = None \<longleftrightarrow> (\<forall>x \<in> set (live n xs). \<not> p x)"
  unfolding find_first_None by (metis in_set_live)

text \<open>
  With a key that occurs at most once among the live entries, the first and the last hit agree.
\<close>

lemma find_first_key:
  assumes "n \<le> length xs" and "distinct (map key (live n xs))" and "i < n" and "key (xs ! i) = k"
  shows "find_first (\<lambda>x. key x = k) xs n = Some i"
proof (rule find_first_eqI)
  show "i < n" and "key (xs ! i) = k" by (fact assms(3), fact assms(4))
  fix j assume "j < i"
  with assms show "\<not> key (xs ! j) = k"
    by (auto simp: distinct_conv_nth)
qed

lemma find_last_key:
  assumes "n \<le> length xs" and "distinct (map key (live n xs))"
  shows "find_last (\<lambda>x. key x = k) xs n = find_first (\<lambda>x. key x = k) xs n"
proof (cases "find_last (\<lambda>x. key x = k) xs n")
  case None
  then show ?thesis by (metis find_last_None find_first_None)
next
  case (Some i)
  from find_last_Some [OF this] have "i < n" and "key (xs ! i) = k" by auto
  with assms have "find_first (\<lambda>x. key x = k) xs n = Some i"
    by (rule find_first_key)
  with Some show ?thesis by simp
qed

text \<open>Deletion by overwriting a cell with the last live one and shrinking the counter.\<close>

lemma mset_swap_last:
  assumes "i < n" and "n \<le> length xs"
  shows "mset (live (n - 1) (xs[i := xs ! (n - 1)])) = mset (live n xs) - {#xs ! i#}"
proof -
  obtain m where n: "n = Suc m" using assms(1) by (cases n) auto
  have full: "live n xs = live m xs @ [xs ! m]"
    using assms n by (simp add: live_def take_Suc_conv_app_nth)
  show ?thesis
  proof (cases "i = m")
    case True
    then show ?thesis using full n by (simp add: live_update_beyond)
  next
    case False
    with assms(1) n have "i < m" by simp
    then have "mset ((live m xs)[i := xs ! m])
        = add_mset (xs ! m) (mset (live m xs) - {#xs ! i#})"
      using assms n by (simp add: mset_update)
    moreover have "xs ! i \<in># mset (live m xs)"
      using \<open>i < m\<close> assms n by (auto simp: in_set_live)
    ultimately show ?thesis
      using full n \<open>i < m\<close> by (simp add: live_update add.commute)
  qed
qed

lemma distinct_map_mset: "mset xs = mset ys \<Longrightarrow> distinct (map f xs) \<longleftrightarrow> distinct (map f ys)"
  by (metis mset_eq_imp_distinct_iff mset_map)

lemma mset_minus_key:
  assumes "distinct (map key xs)" and "x \<in> set xs"
  shows "mset xs - {#x#} = mset (filter (\<lambda>y. key y \<noteq> key x) xs)"
  using assms
proof (induction xs)
  case Nil
  then show ?case by simp
next
  case (Cons y ys)
  show ?case
  proof (cases "y = x")
    case True
    with Cons.prems have "filter (\<lambda>z. key z \<noteq> key x) ys = ys"
      by (auto simp: filter_id_conv image_iff)
    with True show ?thesis by simp
  next
    case False
    with Cons.prems have "x \<in> set ys" and "key y \<noteq> key x" by (auto simp: image_iff)
    with Cons False show ?thesis
      by (auto simp: add_mset_commute diff_union_swap2 [symmetric] simp flip: diff_union_swap)
  qed
qed

text \<open>Swap-with-last deletion removes exactly the entry with that key, up to order.\<close>

lemma swap_last_key:
  assumes "n \<le> length xs" and "distinct (map key (live n xs))" and "i < n"
  shows "mset (live (n - 1) (xs[i := xs ! (n - 1)]))
           = mset (filter (\<lambda>y. key y \<noteq> key (xs ! i)) (live n xs))"
proof -
  have "xs ! i \<in> set (live n xs)" using assms by (auto simp: in_set_live)
  then show ?thesis
    using mset_swap_last [OF assms(3,1)] mset_minus_key [OF assms(2)] by simp
qed

section \<open>Runs\<close>

text \<open>
  A component is a step function from a state and an event (the results of the system calls the
  step makes) to a new state and the list of calls it made. \<open>run\<close> feeds it a list of events.
\<close>

fun run :: "('s \<Rightarrow> 'e \<Rightarrow> ('s \<times> 'o list) res) \<Rightarrow> 's \<Rightarrow> 'e list \<Rightarrow> ('s \<times> 'o list) res" where
  "run step s [] = Inr (s, [])"
| "run step s (e # es) =
     bindR (step s e) (\<lambda>(s1, o1). bindR (run step s1 es) (\<lambda>(s2, o2). Inr (s2, o1 @ o2)))"

lemma run_Cons_Inr:
  "run step s (e # es) = Inr (s2, os) \<longleftrightarrow>
     (\<exists>s1 o1 o2. step s e = Inr (s1, o1) \<and> run step s1 es = Inr (s2, o2) \<and> os = o1 @ o2)"
  by (auto simp: bindR_eq_Inr)

lemma run_append_Inr:
  "run step s (es @ fs) = Inr (s2, os) \<longleftrightarrow>
     (\<exists>s1 o1 o2. run step s es = Inr (s1, o1) \<and> run step s1 fs = Inr (s2, o2) \<and> os = o1 @ o2)"
proof (induction es arbitrary: s os)
  case Nil
  then show ?case by simp
next
  case (Cons e es)
  then show ?case
    by (auto simp: run_Cons_Inr simp del: run.simps(2))
qed

end
