(* ===== verification/C_Strings.thy ===== *)
theory C_Strings
  imports Prelude_C
begin

text \<open>
  The part of the C library the programs use on text: strings in buffers, \<^verbatim>\<open>strncmp\<close>,
  \<^verbatim>\<open>strcspn\<close>, \<^verbatim>\<open>strncpy\<close>, \<^verbatim>\<open>snprintf\<close>, \<^verbatim>\<open>atoi\<close>, \<^verbatim>\<open>fgets\<close> and \<^verbatim>\<open>strtok\<close>, and the decimal
  rendering of \<^verbatim>\<open>%d\<close>. A C string is a list of characters without the terminating NUL; the bytes
  of a buffer are a list that may hold NULs, and \<open>cstr\<close> reads the string at its start.
\<close>

section \<open>Characters, buffers\<close>

abbreviation NUL :: char where "NUL \<equiv> CHR 0x00"
abbreviation NL :: char where "NL \<equiv> CHR 0x0A"
abbreviation TAB :: char where "TAB \<equiv> CHR 0x09"

definition nl :: string where "nl = [NL]"

text \<open>The UTF-8 arrow in the messages of some servers.\<close>

definition arrow :: string where "arrow = [CHR 0xE2, CHR 0x86, CHR 0x92]"

text \<open>The delimiter set \<^verbatim>\<open>" \t\n"\<close> of the shells.\<close>

definition blanks :: string where "blanks = [CHR '' '', TAB, NL]"

definition cstr :: "string \<Rightarrow> string" where
  "cstr bs = takeWhile (\<lambda>c. c \<noteq> NUL) bs"

lemma cstr_no_NUL [simp]: "NUL \<notin> set (cstr bs)"
  by (auto simp: cstr_def dest: set_takeWhileD)

lemma cstr_id [simp]: "NUL \<notin> set s \<Longrightarrow> cstr s = s"
  by (auto simp: cstr_def takeWhile_eq_all_conv)

lemma length_cstr: "length (cstr bs) \<le> length bs"
  by (simp add: cstr_def length_takeWhile_le)

lemma cstr_terminated: "NUL \<notin> set s \<Longrightarrow> cstr (s @ NUL # rest) = s"
  unfolding cstr_def by (rule takeWhile_stop) auto

text \<open>\<^verbatim>\<open>strncmp(s, t, n) == 0\<close> on C strings: the first \<open>n\<close> characters agree, up to the end.\<close>

definition strncmp_eq :: "string \<Rightarrow> string \<Rightarrow> nat \<Rightarrow> bool" where
  "strncmp_eq s t n \<longleftrightarrow> take n s = take n t"

text \<open>\<^verbatim>\<open>s[strcspn(s, cs)] = '\0'\<close> cuts the string before its first character of \<open>cs\<close>.\<close>

definition strcspn :: "string \<Rightarrow> string \<Rightarrow> nat" where
  "strcspn s cs = length (takeWhile (\<lambda>c. c \<notin> set cs) s)"

definition chop :: "string \<Rightarrow> string \<Rightarrow> string" where
  "chop cs s = take (strcspn s cs) s"

lemma chop_takeWhile: "chop cs s = takeWhile (\<lambda>c. c \<notin> set cs) s"
  by (metis chop_def strcspn_def takeWhile_eq_take)

lemma set_chop: "set (chop cs s) \<inter> set cs = {}"
  by (auto simp: chop_takeWhile dest: set_takeWhileD)

text \<open>
  \<^verbatim>\<open>snprintf(buf, size, ...)\<close> stores at most \<open>size - 1\<close> characters of the text and a NUL.
\<close>

definition snprintf :: "nat \<Rightarrow> string \<Rightarrow> string" where
  "snprintf n s = take (n - 1) s"

lemma length_snprintf: "0 < n \<Longrightarrow> length (snprintf n s) < n"
  by (simp add: snprintf_def)

lemma snprintf_id [simp]: "length s < n \<Longrightarrow> snprintf n s = s"
  by (simp add: snprintf_def)

lemma snprintf_no_NUL: "NUL \<notin> set s \<Longrightarrow> NUL \<notin> set (snprintf n s)"
  by (auto simp: snprintf_def dest: in_set_takeD)

text \<open>
  \<^verbatim>\<open>strncpy(dst, src, n)\<close> writes exactly \<open>n\<close> bytes: a prefix of the source, padded with NULs. It
  writes no terminator when the source has \<open>n\<close> characters or more. The destination is the byte
  list of the field.
\<close>

definition strncpy :: "string \<Rightarrow> string \<Rightarrow> nat \<Rightarrow> string" where
  "strncpy dst src n = take n (src @ replicate n NUL) @ drop n dst"

lemma length_strncpy: "n \<le> length dst \<Longrightarrow> length (strncpy dst src n) = length dst"
  by (simp add: strncpy_def)

lemma cstr_strncpy:
  assumes "NUL \<notin> set src" and "n < length dst" and "dst ! n = NUL"
  shows "cstr (strncpy dst src n) = take n src"
proof -
  have "drop n dst = NUL # drop (Suc n) dst"
    using assms by (simp add: Cons_nth_drop_Suc [symmetric])
  moreover have "NUL \<notin> set (take n src)" using assms by (auto dest: in_set_takeD)
  ultimately have "cstr (take n src @ replicate (n - length src) NUL @ NUL # drop (Suc n) dst) = take n src"
    unfolding cstr_def using assms(1)
    by (cases "n - length src") (auto intro!: takeWhile_stop)
  with \<open>drop n dst = _\<close> show ?thesis by (simp add: strncpy_def)
qed

section \<open>Decimal numbers\<close>

definition digit :: "nat \<Rightarrow> char" where
  "digit d = char_of (48 + d)"

fun show_nat :: "nat \<Rightarrow> string" where
  "show_nat n = (if n < 10 then [digit n] else show_nat (n div 10) @ [digit (n mod 10)])"

declare show_nat.simps [simp del]

lemma digit_numerals:
  "digit 0 = CHR ''0''" "digit 1 = CHR ''1''" "digit (Suc 0) = CHR ''1''" "digit 2 = CHR ''2''" "digit 3 = CHR ''3''"
  "digit 4 = CHR ''4''" "digit 5 = CHR ''5''" "digit 6 = CHR ''6''" "digit 7 = CHR ''7''" "digit 8 = CHR ''8''"
  "digit 9 = CHR ''9''"
  by code_simp+

lemma show_nat_numeral: "show_nat (numeral k) =
    (if numeral k < (10::nat) then [digit (numeral k)] else show_nat (numeral k div 10) @ [digit (numeral k mod 10)])"
  by (rule show_nat.simps)

definition show_int :: "int \<Rightarrow> string" where
  "show_int i = (if i < 0 then CHR ''-'' # show_nat (nat (- i)) else show_nat (nat i))"

definition is_digit :: "char \<Rightarrow> bool" where
  "is_digit c \<longleftrightarrow> 48 \<le> (of_char c :: nat) \<and> (of_char c :: nat) \<le> 57"

definition digit_val :: "char \<Rightarrow> nat" where
  "digit_val c = of_char c - 48"

definition digits_val :: "string \<Rightarrow> nat" where
  "digits_val s = foldl (\<lambda>v c. 10 * v + digit_val c) 0 s"

text \<open>\<^verbatim>\<open>isspace\<close> of the C locale.\<close>

definition is_space :: "char \<Rightarrow> bool" where
  "is_space c \<longleftrightarrow> c = CHR '' '' \<or> (9 \<le> (of_char c :: nat) \<and> (of_char c :: nat) \<le> 13)"

text \<open>
  \<^verbatim>\<open>atoi\<close>: white space, an optional sign, digits. A value that does not fit an \<^verbatim>\<open>int\<close> is undefined.
\<close>

definition int_min :: int where "int_min = - (2 ^ 31)"
definition int_max :: int where "int_max = 2 ^ 31 - 1"

definition atoi_val :: "string \<Rightarrow> int" where
  "atoi_val s =
     (let s1 = dropWhile is_space s
      in case s1 of
           [] \<Rightarrow> 0
         | c # cs \<Rightarrow>
             if c = CHR ''-'' then - int (digits_val (takeWhile is_digit cs))
             else if c = CHR ''+'' then int (digits_val (takeWhile is_digit cs))
             else int (digits_val (takeWhile is_digit s1)))"

definition atoi :: "string \<Rightarrow> int res" where
  "atoi s = (if int_min \<le> atoi_val s \<and> atoi_val s \<le> int_max then Inr (atoi_val s) else Inl Int_overflow)"

lemma of_char_digit [simp]: "d < 10 \<Longrightarrow> (of_char (digit d) :: nat) = 48 + d"
  by (simp add: digit_def)

lemma is_digit_digit [simp]: "d < 10 \<Longrightarrow> is_digit (digit d)"
  by (simp add: is_digit_def)

lemma digit_val_digit [simp]: "d < 10 \<Longrightarrow> digit_val (digit d) = d"
  by (simp add: digit_val_def)

lemma show_nat_nonempty [simp]: "show_nat n \<noteq> []"
  by (subst show_nat.simps) simp

lemma show_nat_digits: "\<forall>c \<in> set (show_nat n). is_digit c"
proof (induction n rule: show_nat.induct)
  case (1 n)
  then show ?case
    by (subst show_nat.simps) (auto split: if_splits)
qed

lemma digits_val_snoc: "digits_val (s @ [c]) = 10 * digits_val s + digit_val c"
  by (simp add: digits_val_def)

lemma digits_val_show_nat: "digits_val (show_nat n) = n"
proof (induction n rule: show_nat.induct)
  case (1 n)
  show ?case
  proof (cases "n < 10")
    case True
    then show ?thesis by (subst show_nat.simps) (simp add: digits_val_def)
  next
    case False
    with 1 have "digits_val (show_nat (n div 10)) = n div 10" by simp
    with False show ?thesis
      by (subst show_nat.simps) (simp add: digits_val_snoc)
  qed
qed

lemma digit_not_space: "is_digit c \<Longrightarrow> \<not> is_space c"
  by (auto simp: is_digit_def is_space_def)

lemma digit_not_sign: "is_digit c \<Longrightarrow> c \<noteq> CHR ''-'' \<and> c \<noteq> CHR ''+''"
  by (auto simp: is_digit_def)

lemma takeWhile_show_nat [simp]: "takeWhile is_digit (show_nat n) = show_nat n"
  using show_nat_digits by (simp add: takeWhile_eq_all_conv)

lemma atoi_val_show_nat: "atoi_val (show_nat n) = int n"
proof -
  obtain c cs where s: "show_nat n = c # cs" by (cases "show_nat n") simp_all
  then have "is_digit c" using show_nat_digits [of n] by simp
  then have "\<not> is_space c" and "c \<noteq> CHR ''-'' \<and> c \<noteq> CHR ''+''"
    by (auto dest: digit_not_space digit_not_sign)
  moreover have "digits_val (takeWhile is_digit (c # cs)) = n"
    by (metis s takeWhile_show_nat digits_val_show_nat)
  ultimately show ?thesis
    by (simp add: s atoi_val_def Let_def del: takeWhile.simps)
qed

text \<open>Reading back what \<^verbatim>\<open>%d\<close> printed.\<close>

lemma atoi_val_show_int: "atoi_val (show_int i) = i"
proof (cases "i < 0")
  case True
  then show ?thesis
    by (simp add: show_int_def atoi_val_def is_space_def digits_val_show_nat)
next
  case False
  then show ?thesis by (simp add: show_int_def atoi_val_show_nat)
qed

lemma atoi_show_int: "int_min \<le> i \<Longrightarrow> i \<le> int_max \<Longrightarrow> atoi (show_int i) = Inr i"
  by (simp add: atoi_def atoi_val_show_int)

lemma digit_not_NUL: "is_digit c \<Longrightarrow> c \<noteq> NUL"
  by (auto simp: is_digit_def)

lemma show_int_no_NUL [simp]: "NUL \<notin> set (show_int i)"
  using show_nat_digits digit_not_NUL by (auto simp: show_int_def)

lemma digit_not_NL: "is_digit c \<Longrightarrow> c \<noteq> NL"
  by (auto simp: is_digit_def)

lemma show_int_no_NL [simp]: "NL \<notin> set (show_int i)"
  using show_nat_digits digit_not_NL by (auto simp: show_int_def)

text \<open>A line of text without its newline.\<close>

lemma chop_line: "NL \<notin> set s \<Longrightarrow> NUL \<notin> set s \<Longrightarrow> chop nl (cstr (s @ nl)) = s"
proof -
  assume "NL \<notin> set s" and "NUL \<notin> set s"
  then have "cstr (s @ nl) = s @ nl" by (intro cstr_id) (auto simp: nl_def)
  moreover have "takeWhile (\<lambda>c. c \<notin> set nl) (s @ NL # []) = s"
    using \<open>NL \<notin> set s\<close> by (intro takeWhile_stop) (auto simp: nl_def)
  ultimately show ?thesis by (simp add: chop_takeWhile nl_def)
qed

section \<open>Lines of standard input\<close>

text \<open>
  \<^verbatim>\<open>fgets(buf, size, stdin)\<close> on the characters still to be read: \<open>None\<close> at the end of the input,
  otherwise at most \<open>size - 1\<close> characters up to and with the first newline, and the rest.
\<close>

definition fgets :: "nat \<Rightarrow> string \<Rightarrow> (string \<times> string) option" where
  "fgets n inp =
     (if inp = [] then None
      else let k = min (n - 1) (Suc (strcspn inp nl)) in Some (take k inp, drop k inp))"

lemma fgets_split: "fgets n inp = Some (l, r) \<Longrightarrow> l @ r = inp"
  by (auto simp: fgets_def Let_def split: if_splits)

lemma fgets_length: "0 < n \<Longrightarrow> fgets n inp = Some (l, r) \<Longrightarrow> length l < n"
  by (auto simp: fgets_def Let_def split: if_splits)

lemma fgets_progress: "1 < n \<Longrightarrow> fgets n inp = Some (l, r) \<Longrightarrow> length r < length inp"
  by (auto simp: fgets_def Let_def split: if_splits)

section \<open>strtok\<close>

text \<open>
  \<^verbatim>\<open>strtok\<close> keeps a pointer to the text it has not scanned. \<open>strtok ds s\<close> is one call whose scan
  starts at \<open>s\<close>: the token it returns and the text the next call starts from, or \<open>None\<close> for the
  null pointer.
\<close>

definition strtok :: "string \<Rightarrow> string \<Rightarrow> (string \<times> string) option" where
  "strtok ds s =
     (let s1 = dropWhile (\<lambda>c. c \<in> set ds) s
      in if s1 = [] then None
         else Some (takeWhile (\<lambda>c. c \<notin> set ds) s1, drop 1 (dropWhile (\<lambda>c. c \<notin> set ds) s1)))"

lemma strtok_word_delim:
  assumes "w \<noteq> []" and "set w \<inter> set ds = {}" and "d \<in> set ds"
  shows "strtok ds (w @ d # rest) = Some (w, rest)"
proof -
  obtain c cs where w: "w = c # cs" using assms(1) by (cases w) auto
  have "\<forall>x \<in> set cs. x \<notin> set ds" using assms w by auto
  note stop = takeWhile_stop [OF this] dropWhile_stop [OF this]
  show ?thesis using assms w by (simp add: strtok_def stop)
qed

text \<open>
  The first call overwrites the delimiter after its token with a NUL, so the buffer read as a
  string afterwards ends there; a buffer without a token is unchanged.
\<close>

definition strtok_buffer :: "string \<Rightarrow> string \<Rightarrow> string" where
  "strtok_buffer ds s =
     (let pre = takeWhile (\<lambda>c. c \<in> set ds) s; s1 = dropWhile (\<lambda>c. c \<in> set ds) s
      in if s1 = [] then s else pre @ takeWhile (\<lambda>c. c \<notin> set ds) s1)"

lemma strtok_buffer_le: "set (strtok_buffer ds s) \<subseteq> set s" "length (strtok_buffer ds s) \<le> length s"
proof -
  let ?p = "takeWhile (\<lambda>c. c \<in> set ds) s" and ?r = "dropWhile (\<lambda>c. c \<in> set ds) s"
  have s: "?p @ ?r = s" by simp
  have "set (takeWhile (\<lambda>c. c \<notin> set ds) ?r) \<subseteq> set ?r" by (auto dest: set_takeWhileD)
  then show "set (strtok_buffer ds s) \<subseteq> set s"
    using arg_cong [OF s, of set] by (auto simp: strtok_buffer_def Let_def dest: set_takeWhileD simp del: takeWhile_dropWhile_id)
  have "length (takeWhile (\<lambda>c. c \<notin> set ds) ?r) \<le> length ?r" by (rule length_takeWhile_le)
  then show "length (strtok_buffer ds s) \<le> length s"
    using arg_cong [OF s, of length] by (auto simp: strtok_buffer_def Let_def simp del: takeWhile_dropWhile_id)
qed

text \<open>Reference: the maximal runs of characters outside \<open>ds\<close>, found one character at a time.\<close>

fun words_from :: "string \<Rightarrow> string \<Rightarrow> string \<Rightarrow> string list" where
  "words_from ds cur [] = (if cur = [] then [] else [cur])"
| "words_from ds cur (c # cs) =
     (if c \<in> set ds then (if cur = [] then words_from ds [] cs else cur # words_from ds [] cs)
      else words_from ds (cur @ [c]) cs)"

definition words :: "string \<Rightarrow> string \<Rightarrow> string list" where
  "words ds s = words_from ds [] s"

lemma words_from_prefix:
  "cur \<noteq> [] \<Longrightarrow> words_from ds cur s =
     (cur @ takeWhile (\<lambda>c. c \<notin> set ds) s) # words ds (drop 1 (dropWhile (\<lambda>c. c \<notin> set ds) s))"
  by (induction ds cur s rule: words_from.induct) (auto simp: words_def)

lemma words_Cons_delim [simp]: "c \<in> set ds \<Longrightarrow> words ds (c # s) = words ds s"
  by (simp add: words_def)

lemma words_Nil [simp]: "words ds [] = []"
  by (simp add: words_def)

lemma words_skip: "words ds (dropWhile (\<lambda>c. c \<in> set ds) s) = words ds s"
  by (induction s) simp_all

lemma strtok_None: "strtok ds s = None \<longleftrightarrow> words ds s = []"
proof -
  let ?s1 = "dropWhile (\<lambda>c. c \<in> set ds) s"
  show ?thesis
  proof (cases ?s1)
    case Nil
    then have "words ds ?s1 = []" by (metis words_Nil)
    with Nil show ?thesis unfolding words_skip by (simp add: strtok_def del: dropWhile_eq_Nil_conv)
  next
    case (Cons c cs)
    then have "c \<notin> set ds" by (metis hd_dropWhile list.distinct(1) list.sel(1))
    then have "words ds ?s1 \<noteq> []" using Cons by (simp add: words_def words_from_prefix)
    with Cons show ?thesis unfolding words_skip by (simp add: strtok_def)
  qed
qed

lemma strtok_Some: "strtok ds s = Some (t, r) \<Longrightarrow> words ds s = t # words ds r"
proof -
  let ?s1 = "dropWhile (\<lambda>c. c \<in> set ds) s"
  assume tok: "strtok ds s = Some (t, r)"
  then obtain c cs where s1: "?s1 = c # cs" by (cases ?s1) (auto simp: strtok_def)
  then have c: "c \<notin> set ds" by (metis hd_dropWhile list.distinct(1) list.sel(1))
  have "words ds ?s1 = t # words ds r"
    using tok s1 c by (auto simp: strtok_def words_def words_from_prefix)
  then show ?thesis by (simp only: words_skip)
qed

lemma words_clean: "t \<in> set (words_from ds cur s) \<Longrightarrow> set cur \<inter> set ds = {} \<Longrightarrow>
    t \<noteq> [] \<and> set t \<inter> set ds = {} \<and> set t \<subseteq> set cur \<union> set s"
proof (induction ds cur s rule: words_from.induct)
  case (1 ds cur)
  then show ?case by (auto split: if_splits)
next
  case (2 ds cur c cs)
  show ?case
  proof (cases "c \<in> set ds")
    case True
    with 2 show ?thesis by (cases "cur = []") auto
  next
    case False
    with 2 have "t \<noteq> [] \<and> set t \<inter> set ds = {} \<and> set t \<subseteq> set (cur @ [c]) \<union> set cs" by simp
    then show ?thesis by auto
  qed
qed

lemma words_nonempty: "t \<in> set (words ds s) \<Longrightarrow> t \<noteq> []"
  and words_no_delim: "t \<in> set (words ds s) \<Longrightarrow> set t \<inter> set ds = {}"
  and words_subset: "t \<in> set (words ds s) \<Longrightarrow> set t \<subseteq> set s"
  using words_clean [of t ds "[]" s] by (auto simp: words_def)

text \<open>Words separated by one delimiter are the words of the text.\<close>

fun join_with :: "char \<Rightarrow> string list \<Rightarrow> string" where
  "join_with d [] = []"
| "join_with d [w] = w"
| "join_with d (w # ws) = w @ d # join_with d ws"

lemma words_Cons: "c \<notin> set ds \<Longrightarrow> words ds (c # s) =
    (c # takeWhile (\<lambda>c. c \<notin> set ds) s) # words ds (drop 1 (dropWhile (\<lambda>c. c \<notin> set ds) s))"
  by (simp add: words_def [of ds "c # s"] words_from_prefix)

lemma words_word_delim:
  assumes "w \<noteq> []" and "set w \<inter> set ds = {}" and "d \<in> set ds"
  shows "words ds (w @ d # rest) = w # words ds rest"
proof -
  obtain c cs where w: "w = c # cs" using assms(1) by (cases w) auto
  have "\<forall>x \<in> set cs. x \<notin> set ds" using assms w by auto
  note stop = takeWhile_stop [OF this] dropWhile_stop [OF this]
  show ?thesis using assms w by (simp add: words_Cons stop)
qed

lemma words_word:
  assumes "w \<noteq> []" and "set w \<inter> set ds = {}"
  shows "words ds w = [w]"
proof -
  obtain c cs where w: "w = c # cs" using assms(1) by (cases w) auto
  have "takeWhile (\<lambda>c. c \<notin> set ds) cs = cs" and dw: "dropWhile (\<lambda>c. c \<notin> set ds) cs = []"
    using assms w by (auto simp: takeWhile_eq_all_conv)
  then show ?thesis using assms(2) unfolding w by (simp add: words_Cons dw del: dropWhile_eq_Nil_conv)
qed

lemma words_join_with:
  assumes "d \<in> set ds" and "\<forall>w \<in> set ws. w \<noteq> [] \<and> set w \<inter> set ds = {}"
  shows "words ds (join_with d ws) = ws"
  using assms
proof (induction d ws rule: join_with.induct)
  case (1 d)
  then show ?case by (simp add: words_def)
next
  case (2 d w)
  then show ?case by (simp add: words_word)
next
  case (3 d w v vs)
  then show ?case by (simp add: words_word_delim)
qed

end
