(* ===== verification/Syscalls.thy ===== *)
theory Syscalls
  imports C_Strings
begin

text \<open>
  The border between the programs and the kernel. A program step makes system calls; the model
  records them in order as a list of \<open>sys\<close> values, and takes what the kernel answers as data of the
  event the step handles. What a call does inside the kernel is not modelled here; where a property
  needs it, the theory concerned states it as a condition on the answers.
\<close>

section \<open>Calls\<close>

type_synonym addr = "string \<times> int"   \<comment> \<open>host and port\<close>

datatype sys =
    Print string                 \<comment> \<open>\<^verbatim>\<open>printf\<close>, \<^verbatim>\<open>puts\<close>\<close>
  | Eprint string                \<comment> \<open>\<^verbatim>\<open>fprintf(stderr, ...)\<close>\<close>
  | Perror string                \<comment> \<open>\<^verbatim>\<open>perror\<close> with this prefix\<close>
  | Flush
  | Socket_stream | Socket_dgram
  | Reuseaddr int
  | Bind int int                 \<comment> \<open>descriptor, port\<close>
  | Listen int int
  | Connect int int
  | Nonblock int
  | Epoll_create
  | Epoll_add int bool           \<comment> \<open>descriptor, edge triggered\<close>
  | Epoll_del int
  | Send int string              \<comment> \<open>\<^verbatim>\<open>send\<close> or \<^verbatim>\<open>write\<close> of these bytes to a socket\<close>
  | Close int
  | Fork
  | Spawn "sys list"             \<comment> \<open>a \<^verbatim>\<open>fork\<close> that succeeded, with the calls of the child\<close>
  | Exec "string list"           \<comment> \<open>\<^verbatim>\<open>execvp\<close>, \<^verbatim>\<open>execlp\<close> with this argument vector\<close>
  | Exit int
  | Wait int                     \<comment> \<open>\<^verbatim>\<open>waitpid\<close> on this pid; \<open>-1\<close> for any child\<close>
  | Kill int int                 \<comment> \<open>pid or negated group, signal number\<close>
  | Setpgid int int
  | Tcsetpgrp int
  | Sigaction int
  | Sleep int
  | Bind_dgram int int           \<comment> \<open>descriptor, port\<close>
  | Sendto int addr string
  | Log string                   \<comment> \<open>\<^verbatim>\<open>fprintf(logf, ...)\<close> and the \<^verbatim>\<open>fflush(logf)\<close> after it\<close>
  | Open string int              \<comment> \<open>path and access mode\<close>
  | Kqueue
  | Kevent_add int
  | Setsid
  | Unlink string
  | Bind_path int string
  | Join_group int string
  | Multicast_ttl int int
  | Umask int
  | Chdir string
  | Signal int int               \<comment> \<open>\<^verbatim>\<open>signal\<close>: number; \<open>1\<close> for \<^verbatim>\<open>SIG_IGN\<close>, \<open>0\<close> for a handler of the program\<close>

text \<open>The bytes sent, with their destinations, and the descriptors closed.\<close>

fun sends :: "sys list \<Rightarrow> (int \<times> string) list" where
  "sends [] = []"
| "sends (Send fd bs # cs) = (fd, bs) # sends cs"
| "sends (_ # cs) = sends cs"

fun closed :: "sys list \<Rightarrow> int list" where
  "closed [] = []"
| "closed (Close fd # cs) = fd # closed cs"
| "closed (_ # cs) = closed cs"

text \<open>What was sent to one descriptor, as a stream of bytes.\<close>

definition sent_to :: "int \<Rightarrow> sys list \<Rightarrow> string" where
  "sent_to p cs = concat (map snd (filter (\<lambda>x. fst x = p) (sends cs)))"

text \<open>The datagrams sent, and the lines written to a log file.\<close>

fun sendtos :: "sys list \<Rightarrow> (addr \<times> string) list" where
  "sendtos [] = []"
| "sendtos (Sendto fd a bs # cs) = (a, bs) # sendtos cs"
| "sendtos (_ # cs) = sendtos cs"

fun logged :: "sys list \<Rightarrow> string list" where
  "logged [] = []"
| "logged (Log l # cs) = l # logged cs"
| "logged (_ # cs) = logged cs"

lemma sendtos_append [simp]: "sendtos (as @ bs) = sendtos as @ sendtos bs"
  by (induction as rule: sendtos.induct) auto

lemma logged_append [simp]: "logged (as @ bs) = logged as @ logged bs"
  by (induction as rule: logged.induct) auto

text \<open>The signals sent.\<close>

fun kills :: "sys list \<Rightarrow> (int \<times> int) list" where
  "kills [] = []"
| "kills (Kill p sg # cs) = (p, sg) # kills cs"
| "kills (_ # cs) = kills cs"

lemma kills_append [simp]: "kills (as @ bs) = kills as @ kills bs"
  by (induction as rule: kills.induct) auto

lemma sends_append [simp]: "sends (as @ bs) = sends as @ sends bs"
  by (induction as rule: sends.induct) auto

lemma sent_to_simps [simp]:
  "sent_to p [] = []"
  "sent_to p (as @ bs) = sent_to p as @ sent_to p bs"
  by (simp_all add: sent_to_def)

lemma closed_append [simp]: "closed (as @ bs) = closed as @ closed bs"
  by (induction as rule: closed.induct) auto

lemma sends_map_Send [simp]: "sends (map (\<lambda>x. Send (f x) (g x)) xs) = map (\<lambda>x. (f x, g x)) xs"
  by (induction xs) auto

lemma closed_map_Send [simp]: "closed (map (\<lambda>x. Send (f x) (g x)) xs) = []"
  by (induction xs) auto

text \<open>
  \<^verbatim>\<open>send(fd, "literal", n, 0)\<close>: the first \<open>n\<close> bytes of the literal and its terminating NUL.
\<close>

definition send_lit :: "int \<Rightarrow> string \<Rightarrow> nat \<Rightarrow> sys" where
  "send_lit fd lit n = Send fd (take n (lit @ [NUL]))"

lemma send_lit_simps [simp]:
  "sends (send_lit fd lit n # cs) = (fd, take n (lit @ [NUL])) # sends cs"
  "closed (send_lit fd lit n # cs) = closed cs"
  by (simp_all add: send_lit_def)

section \<open>Answers\<close>

text \<open>What \<^verbatim>\<open>recv\<close> or \<^verbatim>\<open>read\<close> returned: data, end of the stream, or \<open>-1\<close>.\<close>

datatype rd = Got string | Eof | Fail

fun rd_len :: "rd \<Rightarrow> int" where
  "rd_len (Got bs) = int (length bs)"
| "rd_len Eof = 0"
| "rd_len Fail = -1"

fun rd_data :: "rd \<Rightarrow> string" where
  "rd_data (Got bs) = bs"
| "rd_data Eof = []"
| "rd_data Fail = []"

text \<open>The documented bound of a read: at most as many bytes as were asked for.\<close>

definition rd_ok :: "nat \<Rightarrow> rd \<Rightarrow> bool" where
  "rd_ok lim r \<longleftrightarrow> length (rd_data r) \<le> lim"

lemma rd_len_pos: "\<not> rd_len r \<le> 0 \<longleftrightarrow> (\<exists>bs. r = Got bs \<and> bs \<noteq> [])"
  by (cases r) auto

lemma rd_len_data: "0 < rd_len r \<Longrightarrow> rd_len r = int (length (rd_data r))"
  by (cases r) auto

text \<open>
  \<^verbatim>\<open>buf[n] = '\0'\<close> in a buffer of \<open>cap\<close> bytes that holds \<open>n\<close> bytes of data, and the string the
  buffer then holds.
\<close>

definition terminate :: "nat \<Rightarrow> string \<Rightarrow> string res" where
  "terminate cap bs = (if length bs < cap then Inr (cstr bs) else Inl Out_of_bounds)"

lemma terminate_eq_Inr [res_simps]: "terminate cap bs = Inr s \<longleftrightarrow> length bs < cap \<and> s = cstr bs"
  by (auto simp: terminate_def)

text \<open>\<^verbatim>\<open>strcat\<close> into an array of \<open>cap\<close> bytes, and a series of them.\<close>

definition strcat :: "nat \<Rightarrow> string \<Rightarrow> string \<Rightarrow> string res" where
  "strcat cap dst src =
     (if length dst + length src < cap then Inr (dst @ src) else Inl Out_of_bounds)"

fun strcats :: "nat \<Rightarrow> string \<Rightarrow> string list \<Rightarrow> string res" where
  "strcats cap dst [] = Inr dst"
| "strcats cap dst (p # ps) = bindR (strcat cap dst p) (\<lambda>d. strcats cap d ps)"

lemma strcats_eq:
  "length dst < cap \<Longrightarrow> strcats cap dst ps =
     (if length dst + length (concat ps) < cap then Inr (dst @ concat ps) else Inl Out_of_bounds)"
  by (induction cap dst ps rule: strcats.induct) (auto simp: strcat_def)

section \<open>Events of the event-loop servers\<close>

text \<open>
  One entry of the array \<^verbatim>\<open>epoll_wait\<close> fills, with what the calls the server makes for it return:
  \<open>ev_fd\<close> is \<^verbatim>\<open>events[i].data.fd\<close>, \<open>ev_in\<close> tells whether \<^verbatim>\<open>EPOLLIN\<close> is set, \<open>ev_accept\<close> is the
  result of \<^verbatim>\<open>accept\<close> on the listening socket and \<open>ev_recv\<close> that of the read on the descriptor.
\<close>

record net_event =
  ev_fd :: int
  ev_in :: bool
  ev_accept :: int
  ev_recv :: rd

end
