(* ===== verification/Interfaces.thy ===== *)
theory Interfaces
  imports Syscalls
begin

text \<open>
  The contracts the components share, as locales: the event-loop chat servers (\<open>event_server\<close>), the
  client tables they keep (\<open>client_table\<close>), the round-robin choice of the load balancers
  (\<open>round_robin\<close>) and first-in first-out queues (\<open>fifo\<close>). What follows from a contract alone is
  proved here once; the theories of the components interpret the locales on their own definitions.
\<close>

section \<open>Environments\<close>

text \<open>
  A condition on each event, read in the state in which the event arrives: what the kernel
  guarantees about its answers.
\<close>

fun env_run :: "('s \<Rightarrow> 'e \<Rightarrow> bool) \<Rightarrow> ('s \<Rightarrow> 'e \<Rightarrow> ('s \<times> 'o list) res) \<Rightarrow> 's \<Rightarrow> 'e list \<Rightarrow> bool" where
  "env_run ok step s [] = True"
| "env_run ok step s (e # es) =
     (ok s e \<and> (case step s e of Inl _ \<Rightarrow> True | Inr (s1, _) \<Rightarrow> env_run ok step s1 es))"

text \<open>The descriptors a list of events accepts on the listening socket.\<close>

definition accepted :: "int \<Rightarrow> net_event \<Rightarrow> int set" where
  "accepted lfd e = (if ev_fd e = lfd \<and> 0 \<le> ev_accept e then {ev_accept e} else {})"

definition all_accepted :: "int \<Rightarrow> net_event list \<Rightarrow> int set" where
  "all_accepted lfd es = (\<Union>e \<in> set es. accepted lfd e)"

lemma all_accepted_simps [simp]:
  "all_accepted lfd [] = {}"
  "all_accepted lfd (e # es) = accepted lfd e \<union> all_accepted lfd es"
  by (simp_all add: all_accepted_def)

text \<open>
  The kernel's side for a server whose table holds \<open>fds\<close>: events come for registered descriptors
  only, \<^verbatim>\<open>accept\<close> returns a descriptor that is not open yet, and a read stays within its bound.
\<close>

definition kernel_ok :: "int \<Rightarrow> int set \<Rightarrow> nat \<Rightarrow> net_event \<Rightarrow> bool" where
  "kernel_ok lfd fds lim e \<longleftrightarrow>
     ev_fd e \<in> insert lfd fds
     \<and> (0 \<le> ev_accept e \<longrightarrow> ev_accept e \<notin> insert lfd fds)
     \<and> rd_ok lim (ev_recv e)"

section \<open>Event-loop servers\<close>

locale event_server =
  fixes step :: "'s \<Rightarrow> net_event \<Rightarrow> ('s \<times> sys list) res"
    and lfd :: "'s \<Rightarrow> int"
    and fds :: "'s \<Rightarrow> int list"
    and wf :: "'s \<Rightarrow> bool"
    and lim :: nat
  assumes step_wf: "wf s \<Longrightarrow> kernel_ok (lfd s) (set (fds s)) lim e \<Longrightarrow> step s e = Inr (s', out) \<Longrightarrow> wf s'"
    and step_lfd: "wf s \<Longrightarrow> kernel_ok (lfd s) (set (fds s)) lim e \<Longrightarrow> step s e = Inr (s', out) \<Longrightarrow>
        lfd s' = lfd s"
    and step_fds: "wf s \<Longrightarrow> kernel_ok (lfd s) (set (fds s)) lim e \<Longrightarrow> step s e = Inr (s', out) \<Longrightarrow>
        set (fds s') = (set (fds s) \<union> accepted (lfd s) e) - set (closed out)"
    and step_closed: "wf s \<Longrightarrow> kernel_ok (lfd s) (set (fds s)) lim e \<Longrightarrow> step s e = Inr (s', out) \<Longrightarrow>
        set (closed out) \<subseteq> set (fds s)"
    and step_sends: "wf s \<Longrightarrow> kernel_ok (lfd s) (set (fds s)) lim e \<Longrightarrow> step s e = Inr (s', out) \<Longrightarrow>
        fst ` set (sends out) \<subseteq> set (fds s) \<union> accepted (lfd s) e"
    and fds_distinct: "wf s \<Longrightarrow> distinct (fds s)"
begin

abbreviation ok :: "'s \<Rightarrow> net_event \<Rightarrow> bool" where
  "ok s e \<equiv> kernel_ok (lfd s) (set (fds s)) lim e"

lemma run_wf:
  "wf s \<Longrightarrow> env_run ok step s es \<Longrightarrow> run step s es = Inr (s', out) \<Longrightarrow> wf s' \<and> lfd s' = lfd s"
proof (induction es arbitrary: s out)
  case Nil
  then show ?case by simp
next
  case (Cons e es)
  then obtain s1 o1 o2 where st: "step s e = Inr (s1, o1)" and r: "run step s1 es = Inr (s', o2)"
    by (auto simp: run_Cons_Inr simp del: run.simps)
  with Cons.prems have "wf s1" and "lfd s1 = lfd s" and "env_run ok step s1 es"
    by (auto intro: step_wf step_lfd)
  with Cons.IH r show ?case by metis
qed

text \<open>No descriptor is lost: whatever was open or accepted is in the table or has been closed.\<close>

lemma run_no_leak:
  "wf s \<Longrightarrow> env_run ok step s es \<Longrightarrow> run step s es = Inr (s', out) \<Longrightarrow>
     set (fds s) \<union> all_accepted (lfd s) es = set (fds s') \<union> set (closed out)"
proof (induction es arbitrary: s out)
  case Nil
  then show ?case by simp
next
  case (Cons e es)
  then obtain s1 o1 o2 where st: "step s e = Inr (s1, o1)" and r: "run step s1 es = Inr (s', o2)"
    and out: "out = o1 @ o2"
    by (auto simp: run_Cons_Inr simp del: run.simps)
  with Cons.prems have wf1: "wf s1" and l: "lfd s1 = lfd s" and env: "env_run ok step s1 es"
    and f: "set (fds s1) = (set (fds s) \<union> accepted (lfd s) e) - set (closed o1)"
    and c: "set (closed o1) \<subseteq> set (fds s)"
    by (auto intro: step_wf step_lfd dest: step_fds step_closed)
  have "set (fds s1) \<union> all_accepted (lfd s) es = set (fds s') \<union> set (closed o2)"
    using Cons.IH [OF wf1 env r] l by simp
  with f c out show ?case by auto
qed

text \<open>Nothing is sent to a descriptor that was never a client.\<close>

lemma run_sends:
  "wf s \<Longrightarrow> env_run ok step s es \<Longrightarrow> run step s es = Inr (s', out) \<Longrightarrow>
     fst ` set (sends out) \<subseteq> set (fds s) \<union> all_accepted (lfd s) es"
proof (induction es arbitrary: s out)
  case Nil
  then show ?case by simp
next
  case (Cons e es)
  then obtain s1 o1 o2 where st: "step s e = Inr (s1, o1)" and r: "run step s1 es = Inr (s', o2)"
    and out: "out = o1 @ o2"
    by (auto simp: run_Cons_Inr simp del: run.simps)
  with Cons.prems have wf1: "wf s1" and l: "lfd s1 = lfd s" and env: "env_run ok step s1 es"
    and f: "set (fds s1) \<subseteq> set (fds s) \<union> accepted (lfd s) e"
    and snd: "fst ` set (sends o1) \<subseteq> set (fds s) \<union> accepted (lfd s) e"
    by (auto intro: step_wf step_lfd dest: step_fds step_sends)
  have "fst ` set (sends o2) \<subseteq> set (fds s1) \<union> all_accepted (lfd s) es"
    using Cons.IH [OF wf1 env r] l by simp
  with f snd out show ?case by (auto simp: image_Un)
qed

end

section \<open>Client tables\<close>

text \<open>
  A table of entries keyed by descriptor, seen as a finite map. A new descriptor gets the initial
  entry \<open>mk\<close>; insertion may fault when the table is full; every operation keeps the invariant.
\<close>

locale client_table =
  fixes tab :: "'t \<Rightarrow> int \<Rightarrow> 'c option"
    and inv :: "'t \<Rightarrow> bool"
    and mk :: "int \<Rightarrow> 'c"
    and insert_entry :: "int \<Rightarrow> 't \<Rightarrow> 't res"
    and delete_entry :: "int \<Rightarrow> 't \<Rightarrow> 't"
  assumes inv_insert: "inv t \<Longrightarrow> tab t k = None \<Longrightarrow> insert_entry k t = Inr t' \<Longrightarrow> inv t'"
    and tab_insert: "inv t \<Longrightarrow> tab t k = None \<Longrightarrow> insert_entry k t = Inr t' \<Longrightarrow>
        tab t' = (tab t)(k \<mapsto> mk k)"
    and inv_delete: "inv t \<Longrightarrow> inv (delete_entry k t)"
    and tab_delete: "inv t \<Longrightarrow> tab (delete_entry k t) = (tab t)(k := None)"
begin

lemma dom_insert:
  "inv t \<Longrightarrow> k \<notin> dom (tab t) \<Longrightarrow> insert_entry k t = Inr t' \<Longrightarrow> dom (tab t') = insert k (dom (tab t))"
  using tab_insert [of t k t'] by (simp add: domIff)

lemma dom_delete: "inv t \<Longrightarrow> dom (tab (delete_entry k t)) = dom (tab t) - {k}"
  by (simp add: tab_delete)

lemma delete_insert:
  assumes "inv t" and "tab t k = None" and "insert_entry k t = Inr t'"
  shows "tab (delete_entry k t') = tab t"
proof -
  have "inv t'" and "tab t' = (tab t)(k \<mapsto> mk k)"
    using assms by (auto intro: inv_insert tab_insert)
  with assms(2) show ?thesis by (auto simp: tab_delete fun_eq_iff)
qed

lemma delete_idem: "inv t \<Longrightarrow> tab (delete_entry k (delete_entry k t)) = tab (delete_entry k t)"
  by (simp add: tab_delete inv_delete)

lemma delete_commute:
  "inv t \<Longrightarrow> tab (delete_entry k (delete_entry j t)) = tab (delete_entry j (delete_entry k t))"
  by (auto simp: tab_delete inv_delete fun_eq_iff)

end

section \<open>Round robin\<close>

text \<open>
  A dispatcher that keeps an index below \<open>n\<close> and moves it by one, modulo \<open>n\<close>, on the events that
  \<open>uses\<close> marks; on those it hands the work to the backend at the old index.
\<close>

text \<open>The indices a run dispatches to, in order.\<close>

fun picks :: "('s \<Rightarrow> 'e \<Rightarrow> ('s \<times> 'o list) res) \<Rightarrow> ('s \<Rightarrow> nat) \<Rightarrow> ('s \<Rightarrow> 'e \<Rightarrow> bool) \<Rightarrow>
    's \<Rightarrow> 'e list \<Rightarrow> nat list" where
  "picks step idx uses s [] = []"
| "picks step idx uses s (e # es) =
     (case step s e of Inl _ \<Rightarrow> []
      | Inr (s1, _) \<Rightarrow>
          (if uses s e then idx s # picks step idx uses s1 es else picks step idx uses s1 es))"

locale round_robin =
  fixes step :: "'s \<Rightarrow> 'e \<Rightarrow> ('s \<times> 'o list) res"
    and idx :: "'s \<Rightarrow> nat"
    and uses :: "'s \<Rightarrow> 'e \<Rightarrow> bool"
    and n :: nat
  assumes n_pos: "0 < n"
    and step_idx: "step s e = Inr (s', out) \<Longrightarrow>
        idx s' = (if uses s e then (idx s + 1) mod n else idx s)"
begin

lemma picks_cyclic:
  "idx s < n \<Longrightarrow> k < length (picks step idx uses s es) \<Longrightarrow> picks step idx uses s es ! k = (idx s + k) mod n"
proof (induction es arbitrary: s k)
  case Nil
  then show ?case by simp
next
  case (Cons e es)
  show ?case
  proof (cases "step s e")
    case (Inl err)
    with Cons.prems show ?thesis by simp
  next
    case (Inr r)
    then obtain s1 o1 where st: "step s e = Inr (s1, o1)" by (cases r) auto
    note i1 = step_idx [OF st]
    have lt: "idx s1 < n" using i1 Cons.prems n_pos by (auto split: if_splits)
    show ?thesis
    proof (cases "uses s e")
      case False
      with Cons st i1 lt show ?thesis by simp
    next
      case True
      show ?thesis
      proof (cases k)
        case 0
        with True st Cons.prems show ?thesis by simp
      next
        case (Suc j)
        with True st Cons.prems have "j < length (picks step idx uses s1 es)" by simp
        then have "picks step idx uses s1 es ! j = (idx s1 + j) mod n" using Cons.IH lt by blast
        with True st i1 Suc show ?thesis by (simp add: mod_add_left_eq)
      qed
    qed
  qed
qed

lemma picks_in_range: "idx s < n \<Longrightarrow> b \<in> set (picks step idx uses s es) \<Longrightarrow> b < n"
  using picks_cyclic n_pos by (auto simp: in_set_conv_nth)

lemma run_idx: "idx s < n \<Longrightarrow> run step s es = Inr (s', out) \<Longrightarrow>
    idx s' = (idx s + length (picks step idx uses s es)) mod n"
proof (induction es arbitrary: s out)
  case Nil
  then show ?case by simp
next
  case (Cons e es)
  then obtain s1 o1 o2 where st: "step s e = Inr (s1, o1)" and r: "run step s1 es = Inr (s', o2)"
    by (auto simp: run_Cons_Inr simp del: run.simps)
  note i1 = step_idx [OF st]
  then have "idx s1 < n" using Cons.prems n_pos by (auto split: if_splits)
  with Cons.IH r have "idx s' = (idx s1 + length (picks step idx uses s1 es)) mod n" by blast
  with st i1 show ?case by (auto simp: mod_add_left_eq)
qed

end

section \<open>First-in first-out queues\<close>

text \<open>
  Operations on a queue, and what a series of them returns. A push gets an extra argument from its
  environment (the cell \<^verbatim>\<open>malloc\<close> returned, say), which must be \<open>fresh\<close>; a pop of an empty queue
  returns nothing.
\<close>

datatype ('m, 'a) qop = Push 'm 'a | Pop

fun qrun :: "('m \<Rightarrow> 'a \<Rightarrow> 'q \<Rightarrow> 'q res) \<Rightarrow> ('q \<Rightarrow> ('a \<times> 'q) option res) \<Rightarrow> 'q \<Rightarrow> ('m, 'a) qop list \<Rightarrow>
    ('a list \<times> 'q) res" where
  "qrun psh pp q [] = Inr ([], q)"
| "qrun psh pp q (Push m x # ops) = bindR (psh m x q) (\<lambda>q1. qrun psh pp q1 ops)"
| "qrun psh pp q (Pop # ops) =
     bindR (pp q) (\<lambda>r. case r of
         None \<Rightarrow> qrun psh pp q ops
       | Some (x, q1) \<Rightarrow> bindR (qrun psh pp q1 ops) (\<lambda>(xs, q2). Inr (x # xs, q2)))"

fun qfresh :: "('q \<Rightarrow> 'm \<Rightarrow> bool) \<Rightarrow> ('m \<Rightarrow> 'a \<Rightarrow> 'q \<Rightarrow> 'q res) \<Rightarrow> ('q \<Rightarrow> ('a \<times> 'q) option res) \<Rightarrow>
    'q \<Rightarrow> ('m, 'a) qop list \<Rightarrow> bool" where
  "qfresh fr psh pp q [] = True"
| "qfresh fr psh pp q (Push m x # ops) =
     (fr q m \<and> (case psh m x q of Inl _ \<Rightarrow> True | Inr q1 \<Rightarrow> qfresh fr psh pp q1 ops))"
| "qfresh fr psh pp q (Pop # ops) =
     (case pp q of Inl _ \<Rightarrow> True | Inr None \<Rightarrow> qfresh fr psh pp q ops
      | Inr (Some (x, q1)) \<Rightarrow> qfresh fr psh pp q1 ops)"

fun pushed :: "('m, 'a) qop list \<Rightarrow> 'a list" where
  "pushed [] = []"
| "pushed (Push m x # ops) = x # pushed ops"
| "pushed (Pop # ops) = pushed ops"

locale fifo =
  fixes rep :: "'q \<Rightarrow> 'a list \<Rightarrow> bool"
    and fresh :: "'q \<Rightarrow> 'm \<Rightarrow> bool"
    and push :: "'m \<Rightarrow> 'a \<Rightarrow> 'q \<Rightarrow> 'q res"
    and pop :: "'q \<Rightarrow> ('a \<times> 'q) option res"
  assumes push_rep: "rep q xs \<Longrightarrow> fresh q m \<Longrightarrow> \<exists>q1. push m x q = Inr q1 \<and> rep q1 (xs @ [x])"
    and pop_empty: "rep q [] \<Longrightarrow> pop q = Inr None"
    and pop_cons: "rep q (x # xs) \<Longrightarrow> \<exists>q1. pop q = Inr (Some (x, q1)) \<and> rep q1 xs"
begin

text \<open>No operation faults; what was popped, followed by what is left, is what was there and was pushed.\<close>

lemma qrun_fifo:
  "rep q xs \<Longrightarrow> qfresh fresh push pop q ops \<Longrightarrow>
     \<exists>ys q1 zs. qrun push pop q ops = Inr (ys, q1) \<and> rep q1 zs \<and> ys @ zs = xs @ pushed ops"
proof (induction ops arbitrary: q xs)
  case Nil
  then show ?case by auto
next
  case (Cons op ops)
  show ?case
  proof (cases op)
    case (Push m x)
    with Cons.prems have "fresh q m" by simp
    from push_rep [OF Cons.prems(1) this] obtain q1 where p: "push m x q = Inr q1" and r: "rep q1 (xs @ [x])"
      by blast
    with Cons.prems Push have "qfresh fresh push pop q1 ops" by simp
    from Cons.IH [OF r this] p Push show ?thesis by simp
  next
    case Pop
    show ?thesis
    proof (cases xs)
      case Nil
      with Cons.prems have "pop q = Inr None" by (auto intro: pop_empty)
      with Cons.prems Pop Cons.IH [OF Cons.prems(1)] Nil show ?thesis by simp
    next
      case (Cons x xs1)
      with \<open>rep q xs\<close> obtain q1 where p: "pop q = Inr (Some (x, q1))" and r: "rep q1 xs1"
        by (auto dest: pop_cons)
      with Cons.prems Pop have "qfresh fresh push pop q1 ops" by simp
      from Cons.IH [OF r this] obtain ys q2 zs where
        "qrun push pop q1 ops = Inr (ys, q2)" "rep q2 zs" "ys @ zs = xs1 @ pushed ops" by blast
      with p Pop Cons show ?thesis by auto
    qed
  qed
qed

end

section \<open>Job tables\<close>

text \<open>
  A shell that keeps a table of jobs. \<open>alive s p\<close>: the table lists the process \<open>p\<close> as not finished;
  \<open>reported e\<close>: the processes whose end the \<^verbatim>\<open>SIGCHLD\<close> handler learns of while the event \<open>e\<close> is
  handled. A job stays listed until the handler has heard of it, whatever else the shell does.
\<close>

definition all_reported :: "('e \<Rightarrow> int set) \<Rightarrow> 'e list \<Rightarrow> int set" where
  "all_reported reported es = (\<Union>e \<in> set es. reported e)"

locale job_shell =
  fixes step :: "'s \<Rightarrow> 'e \<Rightarrow> ('s \<times> 'o list) res"
    and alive :: "'s \<Rightarrow> int \<Rightarrow> bool"
    and reported :: "'e \<Rightarrow> int set"
    and inv :: "'s \<Rightarrow> bool"
  assumes keep_inv: "inv s \<Longrightarrow> step s e = Inr (s', out) \<Longrightarrow> inv s'"
    and keep: "inv s \<Longrightarrow> step s e = Inr (s', out) \<Longrightarrow> p \<notin> reported e \<Longrightarrow> alive s p \<Longrightarrow> alive s' p"
begin

lemma run_alive:
  "inv s \<Longrightarrow> run step s es = Inr (s', out) \<Longrightarrow> p \<notin> all_reported reported es \<Longrightarrow> alive s p \<Longrightarrow>
     alive s' p \<and> inv s'"
proof (induction es arbitrary: s out)
  case Nil
  then show ?case by simp
next
  case (Cons e es)
  then obtain s1 o1 o2 where st: "step s e = Inr (s1, o1)" and r: "run step s1 es = Inr (s', o2)"
    by (auto simp: run_Cons_Inr simp del: run.simps)
  from Cons.prems have "p \<notin> reported e" and p: "p \<notin> all_reported reported es"
    by (auto simp: all_reported_def)
  with keep [OF Cons.prems(1) st] keep_inv [OF Cons.prems(1) st] Cons.prems(4)
  have "alive s1 p" and "inv s1" by auto
  with Cons.IH r p show ?case by blast
qed

end

end
