(* ===== verification/Chat04_Bitmap.thy ===== *)
theory Chat04_Bitmap
  imports Interfaces
begin

text \<open>
  \<^verbatim>\<open>03_networking/lab_04_epoll_chat_server/server.c\<close>: the first epoll chat server, which marks its
  clients in an array indexed by descriptor. \<open>step04\<close> is the body of the loop for one entry of
  \<^verbatim>\<open>events\<close>; the set-up is \<open>setup04\<close>, with the results of the calls that can fail.
\<close>

section \<open>The model\<close>

record srv04 =
  listen04 :: int
  clients04 :: "bool list"

definition FD_SETSIZE :: nat where "FD_SETSIZE = 1024"
definition BUF_SIZE04 :: nat where "BUF_SIZE04 = 1024"

definition make_nonblocking04 :: "int \<Rightarrow> sys list" where
  "make_nonblocking04 fd = [Nonblock fd]"

text \<open>The set-up: \<open>None\<close> when the process exits; the arguments are the results of the calls.\<close>

definition setup04 :: "int \<Rightarrow> int \<Rightarrow> int \<Rightarrow> int \<Rightarrow> srv04 option \<times> sys list" where
  "setup04 server_fd bind_ret listen_ret epfd =
     (if server_fd = -1 then (None, [Socket_stream, Perror ''socket'', Exit 1])
      else
        let o1 = [Socket_stream] @ make_nonblocking04 server_fd @ [Reuseaddr server_fd, Bind server_fd 9090]
        in if bind_ret = -1 then (None, o1 @ [Perror ''bind'', Close server_fd, Exit 1])
           else if listen_ret = -1
           then (None, o1 @ [Listen server_fd 4096, Perror ''listen'', Close server_fd, Exit 1])
           else if epfd = -1
           then (None, o1 @ [Listen server_fd 4096, Epoll_create, Perror ''epoll_create1'', Close server_fd, Exit 1])
           else (Some \<lparr>listen04 = server_fd, clients04 = replicate FD_SETSIZE False\<rparr>,
                 o1 @ [Listen server_fd 4096, Epoll_create, Epoll_add server_fd False,
                       Print (''[SERVER] Listening on port '' @ show_int 9090 @ ''...'' @ nl)]))"

definition mark04 :: "int \<Rightarrow> bool \<Rightarrow> srv04 \<Rightarrow> srv04 res" where
  "mark04 fd v s = bindR (arr_set_int (clients04 s) fd v) (\<lambda>cl. Inr (s\<lparr>clients04 := cl\<rparr>))"

definition accept04 :: "srv04 \<Rightarrow> int \<Rightarrow> (srv04 \<times> sys list) res" where
  "accept04 s client_fd =
     (if client_fd \<noteq> -1
      then bindR (mark04 client_fd True s) (\<lambda>s'.
        Inr (s', make_nonblocking04 client_fd @ [Epoll_add client_fd True,
                 Print (''[SERVER] Client '' @ show_int client_fd @ '' connected'' @ nl)]))
      else Inr (s, []))"

text \<open>The loop over all descriptors of the array.\<close>

definition broadcast04 :: "srv04 \<Rightarrow> int \<Rightarrow> string \<Rightarrow> sys list" where
  "broadcast04 s fd bytes =
     map (\<lambda>j. Send (int j) bytes)
       (filter (\<lambda>j. clients04 s ! j \<and> int j \<noteq> fd \<and> int j \<noteq> listen04 s) [0..<FD_SETSIZE])"

definition client04 :: "srv04 \<Rightarrow> int \<Rightarrow> rd \<Rightarrow> (srv04 \<times> sys list) res" where
  "client04 s fd r =
     (if rd_len r \<le> 0
      then bindR (mark04 fd False s) (\<lambda>s'.
        Inr (s', [Print (''[SERVER] Client '' @ show_int fd @ '' disconnected'' @ nl), Epoll_del fd, Close fd]))
      else bindR (terminate BUF_SIZE04 (rd_data r)) (\<lambda>buffer.
        Inr (s, Print (''[SERVER] Message from '' @ show_int fd @ '': '' @ buffer) # broadcast04 s fd (rd_data r))))"

definition step04 :: "srv04 \<Rightarrow> net_event \<Rightarrow> (srv04 \<times> sys list) res" where
  "step04 s e =
     (if ev_fd e = listen04 s then accept04 s (ev_accept e)
      else if ev_in e then client04 s (ev_fd e) (ev_recv e)
      else Inr (s, []))"

section \<open>The table of clients\<close>

definition wf04 :: "srv04 \<Rightarrow> bool" where
  "wf04 s \<longleftrightarrow> length (clients04 s) = FD_SETSIZE
     \<and> (0 \<le> listen04 s \<and> nat (listen04 s) < FD_SETSIZE \<longrightarrow> \<not> clients04 s ! nat (listen04 s))"

definition fds04 :: "srv04 \<Rightarrow> int list" where
  "fds04 s = map int (filter (\<lambda>j. clients04 s ! j) [0..<FD_SETSIZE])"

definition tab04 :: "srv04 \<Rightarrow> int \<Rightarrow> unit option" where
  "tab04 s fd = (if 0 \<le> fd \<and> nat fd < FD_SETSIZE \<and> clients04 s ! nat fd then Some () else None)"

definition unmark04 :: "int \<Rightarrow> srv04 \<Rightarrow> srv04" where
  "unmark04 fd s = (case mark04 fd False s of Inl _ \<Rightarrow> s | Inr s' \<Rightarrow> s')"

lemma in_fds04: "fd \<in> set (fds04 s) \<longleftrightarrow> 0 \<le> fd \<and> nat fd < FD_SETSIZE \<and> clients04 s ! nat fd"
  by (auto simp: fds04_def image_iff intro!: bexI [of _ "nat fd"])

lemma set_fds04: "set (fds04 s) = dom (tab04 s)"
  by (auto simp: in_fds04 tab04_def dom_def split: if_splits)

lemma mark04_Inr: "mark04 fd v s = Inr s' \<longleftrightarrow>
    0 \<le> fd \<and> nat fd < length (clients04 s) \<and> s' = s\<lparr>clients04 := (clients04 s)[nat fd := v]\<rparr>"
  by (auto simp: mark04_def bindR_eq_Inr arr_set_int_eq_Inr)

interpretation table04: client_table tab04 "\<lambda>s. length (clients04 s) = FD_SETSIZE" "\<lambda>_. ()" "\<lambda>fd. mark04 fd True" unmark04
proof
  fix s s' :: srv04 and k :: int
  assume len: "length (clients04 s) = FD_SETSIZE"
  show "length (clients04 (unmark04 k s)) = FD_SETSIZE"
    using len by (auto simp: unmark04_def mark04_Inr split: sum.split)
  show "tab04 (unmark04 k s) = (tab04 s)(k := None)"
  proof (cases "mark04 k False s")
    case (Inl e)
    with len have "\<not> (0 \<le> k \<and> nat k < FD_SETSIZE)" by (metis mark04_Inr sum.distinct(1))
    with Inl show ?thesis by (auto simp: unmark04_def tab04_def fun_eq_iff)
  next
    case (Inr s2)
    then have "unmark04 k s = s2" by (simp add: unmark04_def)
    with Inr show ?thesis using len
      by (auto simp: mark04_Inr tab04_def fun_eq_iff nth_list_update nat_eq_iff2 split: if_splits)
  qed
  assume m: "mark04 k True s = Inr s'"
  show "length (clients04 s') = FD_SETSIZE" using len m by (auto simp: mark04_Inr)
  show "tab04 s' = (tab04 s)(k \<mapsto> ())"
    using len m by (auto simp: mark04_Inr tab04_def fun_eq_iff nth_list_update nat_eq_iff2 split: if_splits)
qed

lemma sends_broadcast04:
  assumes "wf04 s"
  shows "sends (broadcast04 s fd bs) = map (\<lambda>c. (c, bs)) (filter (\<lambda>c. c \<noteq> fd) (fds04 s))"
    and "closed (broadcast04 s fd bs) = []"
proof -
  have "int j \<noteq> listen04 s" if "clients04 s ! j" "j < FD_SETSIZE" for j
    using assms that unfolding wf04_def by (metis nat_int of_nat_0_le_iff)
  then have "filter (\<lambda>j. clients04 s ! j \<and> int j \<noteq> fd \<and> int j \<noteq> listen04 s) [0..<FD_SETSIZE]
      = filter (\<lambda>j. clients04 s ! j \<and> int j \<noteq> fd) [0..<FD_SETSIZE]"
    by (intro filter_cong) auto
  then show "sends (broadcast04 s fd bs) = map (\<lambda>c. (c, bs)) (filter (\<lambda>c. c \<noteq> fd) (fds04 s))"
    by (simp add: broadcast04_def fds04_def filter_map comp_def conj_commute)
  show "closed (broadcast04 s fd bs) = []" by (simp add: broadcast04_def)
qed

text \<open>The outcomes of a step.\<close>

lemma step04_E:
  assumes "wf04 s" and "step04 s e = Inr (s', out)"
  obtains (idle) "s' = s" "sends out = []" "closed out = []" "accepted (listen04 s) e = {}"
  | (join) "ev_fd e = listen04 s" "0 \<le> ev_accept e" "mark04 (ev_accept e) True s = Inr s'"
      "sends out = []" "closed out = []" "accepted (listen04 s) e = {ev_accept e}"
  | (gone) "ev_fd e \<noteq> listen04 s" "rd_len (ev_recv e) \<le> 0" "mark04 (ev_fd e) False s = Inr s'"
      "closed out = [ev_fd e]" "sends out = []" "accepted (listen04 s) e = {}"
  | (data) "ev_fd e \<noteq> listen04 s" "0 < rd_len (ev_recv e)" "length (rd_data (ev_recv e)) < BUF_SIZE04"
      "s' = s" "closed out = []" "accepted (listen04 s) e = {}"
      "sends out = map (\<lambda>c. (c, rd_data (ev_recv e))) (filter (\<lambda>c. c \<noteq> ev_fd e) (fds04 s))"
proof (cases "ev_fd e = listen04 s")
  case True
  show ?thesis
  proof (cases "ev_accept e = -1")
    case m1: True
    with True assms show ?thesis by (intro idle) (auto simp: step04_def accept04_def accepted_def)
  next
    case False
    then obtain s1 where m: "mark04 (ev_accept e) True s = Inr s1" and s1: "s1 = s'" "sends out = []" "closed out = []"
      using True assms by (auto simp: step04_def accept04_def bindR_eq_Inr make_nonblocking04_def)
    then have "0 \<le> ev_accept e" by (simp add: mark04_Inr)
    with True m s1 show ?thesis by (intro join) (auto simp: accepted_def)
  qed
next
  case False
  then have acc: "accepted (listen04 s) e = {}" by (simp add: accepted_def)
  show ?thesis
  proof (cases "ev_in e")
    case True
    show ?thesis
    proof (cases "rd_len (ev_recv e) \<le> 0")
      case le: True
      with False True assms acc show ?thesis
        by (intro gone) (auto simp: step04_def client04_def bindR_eq_Inr)
    next
      case gt: False
      with False True assms acc show ?thesis
        by (intro data) (auto simp: step04_def client04_def bindR_eq_Inr terminate_eq_Inr sends_broadcast04)
    qed
  next
    case no: False
    with False assms acc show ?thesis by (intro idle) (auto simp: step04_def)
  qed
qed

interpretation chat04: event_server step04 listen04 fds04 wf04 1024
proof
  fix s s' e out
  assume wf: "wf04 s" and k: "kernel_ok (listen04 s) (set (fds04 s)) 1024 e"
    and st: "step04 s e = Inr (s', out)"
  have len: "length (clients04 s) = FD_SETSIZE" using wf by (simp add: wf04_def)
  have new: "0 \<le> ev_accept e \<Longrightarrow> ev_accept e \<notin> set (fds04 s) \<and> ev_accept e \<noteq> listen04 s"
    and reg: "ev_fd e \<in> insert (listen04 s) (set (fds04 s))"
    using k by (auto simp: kernel_ok_def)
  have add: "set (fds04 s') = insert (ev_accept e) (set (fds04 s))"
    if "mark04 (ev_accept e) True s = Inr s'" "0 \<le> ev_accept e"
    using table04.dom_insert [of s "ev_accept e" s'] len new that by (simp add: set_fds04)
  have del: "set (fds04 s') = set (fds04 s) - {ev_fd e}" if "mark04 (ev_fd e) False s = Inr s'"
    using table04.dom_delete [of s "ev_fd e"] len that by (simp add: set_fds04 unmark04_def)
  show "wf04 s'"
    using st wf new len
    by (cases rule: step04_E [OF wf st])
       (auto simp: wf04_def mark04_Inr nth_list_update eq_nat_nat_iff)
  show "listen04 s' = listen04 s"
    by (cases rule: step04_E [OF wf st]) (auto simp: mark04_Inr)
  show "set (fds04 s') = set (fds04 s) \<union> accepted (listen04 s) e - set (closed out)"
    by (cases rule: step04_E [OF wf st]) (use add del in auto)
  show "set (closed out) \<subseteq> set (fds04 s)"
    by (cases rule: step04_E [OF wf st]) (use reg in auto)
  show "fst ` set (sends out) \<subseteq> set (fds04 s) \<union> accepted (listen04 s) e"
    by (cases rule: step04_E [OF wf st]) auto
next
  fix s assume "wf04 s"
  then show "distinct (fds04 s)" by (simp add: fds04_def distinct_map inj_on_def)
qed

section \<open>Properties\<close>

text \<open>
  C21: what the first epoll server does with every event the kernel can deliver. It stays inside its
  arrays except for two events: a read that fills the whole buffer, whose terminating NUL is
  written one byte behind it, and a descriptor of 1024 or more from \<^verbatim>\<open>accept\<close>. Otherwise a message goes,
  unchanged, to exactly the other clients, and over any run every accepted descriptor is marked
  as a client or has been closed.
\<close>

theorem chat04_safe:
  assumes "wf04 s" and "kernel_ok (listen04 s) (set (fds04 s)) 1024 e" and "-1 \<le> ev_accept e"
  shows "(is_fault (step04 s e) \<longleftrightarrow>
      ev_fd e = listen04 s \<and> 1024 \<le> ev_accept e
      \<or> ev_fd e \<noteq> listen04 s \<and> ev_in e \<and> length (rd_data (ev_recv e)) = 1024)
    \<and> (\<forall>s' out bs. step04 s e = Inr (s', out) \<longrightarrow> ev_fd e \<noteq> listen04 s \<longrightarrow> ev_in e \<longrightarrow> ev_recv e = Got bs \<longrightarrow> bs \<noteq> [] \<longrightarrow>
        s' = s \<and> sends out = map (\<lambda>c. (c, bs)) (filter (\<lambda>c. c \<noteq> ev_fd e) (fds04 s)))
    \<and> (\<forall>es s' out. env_run (\<lambda>s. kernel_ok (listen04 s) (set (fds04 s)) 1024) step04 s es \<longrightarrow>
        run step04 s es = Inr (s', out) \<longrightarrow>
        set (fds04 s) \<union> all_accepted (listen04 s) es = set (fds04 s') \<union> set (closed out))"
proof (intro conjI allI impI)
  have len: "length (clients04 s) = FD_SETSIZE" using assms(1) by (simp add: wf04_def)
  have mark: "is_fault (mark04 fd v s) \<longleftrightarrow> \<not> (0 \<le> fd \<and> fd < 1024)" for fd v
    using len by (auto simp: mark04_def arr_set_int_def arr_set_def FD_SETSIZE_def)
  have bnd: "is_fault (bindR m (\<lambda>x. Inr (f x))) = is_fault m" for m :: "'x res" and f :: "'x \<Rightarrow> 'y"
    by (cases m) simp_all
  show "is_fault (step04 s e) \<longleftrightarrow>
      ev_fd e = listen04 s \<and> 1024 \<le> ev_accept e
      \<or> ev_fd e \<noteq> listen04 s \<and> ev_in e \<and> length (rd_data (ev_recv e)) = 1024"
  proof (cases "ev_fd e = listen04 s")
    case True
    then show ?thesis using assms(3) by (auto simp: step04_def accept04_def bnd mark)
  next
    case False
    then have fd: "0 \<le> ev_fd e \<and> ev_fd e < 1024"
      using assms(2) by (auto simp: kernel_ok_def in_fds04 FD_SETSIZE_def)
    have le: "length (rd_data (ev_recv e)) \<le> 1024" using assms(2) by (simp add: kernel_ok_def rd_ok_def)
    have "rd_len (ev_recv e) \<le> 0 \<Longrightarrow> rd_data (ev_recv e) = []" by (cases "ev_recv e") auto
    with False fd le show ?thesis
      by (auto simp: step04_def client04_def bnd mark terminate_def BUF_SIZE04_def)
  qed
  fix s' out bs
  assume "step04 s e = Inr (s', out)" and "ev_fd e \<noteq> listen04 s" and "ev_in e" and "ev_recv e = Got bs" and "bs \<noteq> []"
  then show "s' = s" and "sends out = map (\<lambda>c. (c, bs)) (filter (\<lambda>c. c \<noteq> ev_fd e) (fds04 s))"
    using assms(1) by (auto simp: step04_def client04_def bindR_eq_Inr terminate_eq_Inr sends_broadcast04)
next
  fix es s' out
  assume "env_run (\<lambda>s. kernel_ok (listen04 s) (set (fds04 s)) 1024) step04 s es" and "run step04 s es = Inr (s', out)"
  then show "set (fds04 s) \<union> all_accepted (listen04 s) es = set (fds04 s') \<union> set (closed out)"
    using chat04.run_no_leak [OF assms(1)] by blast
qed

definition demo04 :: srv04 where
  "demo04 = \<lparr>listen04 = 3, clients04 = (replicate FD_SETSIZE False)[5 := True, 6 := True]\<rparr>"

theorem chat04_safe_witness:
  "is_fault (step04 demo04 \<lparr>ev_fd = 5, ev_in = True, ev_accept = 0, ev_recv = Got (replicate 1024 CHR ''x'')\<rparr>)
   \<and> \<not> is_fault (step04 demo04 \<lparr>ev_fd = 5, ev_in = True, ev_accept = 0, ev_recv = Got (replicate 1023 CHR ''x'')\<rparr>)"
proof -
  have wf: "wf04 demo04" by (simp add: wf04_def demo04_def FD_SETSIZE_def)
  have "kernel_ok (listen04 demo04) (set (fds04 demo04)) 1024
      \<lparr>ev_fd = 5, ev_in = True, ev_accept = 0, ev_recv = Got (replicate n CHR ''x'')\<rparr>" if "n \<le> 1024" for n
    using that by (simp add: kernel_ok_def rd_ok_def in_fds04 demo04_def FD_SETSIZE_def)
  note k = this [of 1024] this [of 1023]
  show ?thesis
    using conjunct1 [OF chat04_safe [OF wf k(1)]] conjunct1 [OF chat04_safe [OF wf k(2)]]
    by (simp add: demo04_def)
qed

end
