(* ===== verification/Counted_Table.thy ===== *)
theory Counted_Table
  imports Interfaces
begin

text \<open>
  The servers and shells keep their clients, connections and jobs in a fixed array with a counter.
  This theory gives such a table its map view (\<open>tbl\<close>, keyed by a descriptor), its invariant
  (\<open>tbl_inv\<close>), and what appending, updating one entry and deleting by swapping with the last entry
  do to the map. The components prove their client-table contracts from these lemmas.
\<close>

definition tbl :: "('c \<Rightarrow> int) \<Rightarrow> nat \<Rightarrow> 'c list \<Rightarrow> int \<Rightarrow> 'c option" where
  "tbl key n xs = map_of (map (\<lambda>c. (key c, c)) (live n xs))"

definition tbl_inv :: "('c \<Rightarrow> int) \<Rightarrow> nat \<Rightarrow> nat \<Rightarrow> 'c list \<Rightarrow> bool" where
  "tbl_inv key cap n xs \<longleftrightarrow> length xs = cap \<and> n \<le> cap \<and> distinct (map key (live n xs))"

definition tbl_remove :: "('c \<Rightarrow> int) \<Rightarrow> int \<Rightarrow> nat \<Rightarrow> 'c list \<Rightarrow> nat \<times> 'c list" where
  "tbl_remove key k n xs =
     (case find_first (\<lambda>c. key c = k) xs n of
        None \<Rightarrow> (n, xs)
      | Some i \<Rightarrow> (n - 1, xs[i := xs ! (n - 1)]))"

lemma tbl_invD [dest]:
  assumes "tbl_inv key cap n xs"
  shows "length xs = cap" and "n \<le> length xs" and "distinct (map key (live n xs))"
  using assms by (simp_all add: tbl_inv_def)

lemma tbl_inv_empty [simp]: "length xs = cap \<Longrightarrow> tbl_inv key cap 0 xs"
  by (simp add: tbl_inv_def)

lemma dom_tbl: "dom (tbl key n xs) = key ` set (live n xs)"
  by (simp add: tbl_def dom_map_of_conv_image_fst image_image)

lemma tbl_None: "tbl key n xs k = None \<longleftrightarrow> k \<notin> key ` set (live n xs)"
  by (metis dom_tbl domIff)

lemma tbl_Some:
  "tbl_inv key cap n xs \<Longrightarrow> tbl key n xs k = Some c \<longleftrightarrow> c \<in> set (live n xs) \<and> key c = k"
  by (auto simp: tbl_def tbl_inv_def comp_def map_of_eq_Some_iff)

lemma tbl_nth: "tbl_inv key cap n xs \<Longrightarrow> i < n \<Longrightarrow> tbl key n xs (key (xs ! i)) = Some (xs ! i)"
  by (subst tbl_Some) (auto simp: tbl_inv_def in_set_live)

lemma find_first_tbl:
  assumes "tbl_inv key cap n xs"
  shows "find_first (\<lambda>c. key c = k) xs n = None \<longleftrightarrow> tbl key n xs k = None"
    and "find_first (\<lambda>c. key c = k) xs n = Some i \<Longrightarrow> i < n \<and> key (xs ! i) = k \<and> tbl key n xs k = Some (xs ! i)"
proof -
  show "find_first (\<lambda>c. key c = k) xs n = None \<longleftrightarrow> tbl key n xs k = None"
    using tbl_invD(2) [OF assms] by (auto simp: find_first_None_live tbl_None)
  assume "find_first (\<lambda>c. key c = k) xs n = Some i"
  from find_first_Some [OF this] show "i < n \<and> key (xs ! i) = k \<and> tbl key n xs k = Some (xs ! i)"
    using tbl_nth [OF assms, of i] by auto
qed

lemma find_first_key_tbl:
  "tbl_inv key cap n xs \<Longrightarrow> i < n \<Longrightarrow> key (xs ! i) = k \<Longrightarrow> find_first (\<lambda>c. key c = k) xs n = Some i"
  by (rule find_first_key) auto

lemma find_last_tbl:
  "tbl_inv key cap n xs \<Longrightarrow> find_last (\<lambda>c. key c = k) xs n = find_first (\<lambda>c. key c = k) xs n"
  by (rule find_last_key) auto

section \<open>Appending\<close>

lemma tbl_inv_push:
  "tbl_inv key cap n xs \<Longrightarrow> n < cap \<Longrightarrow> tbl key n xs (key c) = None \<Longrightarrow> tbl_inv key cap (Suc n) (xs[n := c])"
  by (auto simp: tbl_inv_def tbl_None)

lemma tbl_push:
  assumes "tbl_inv key cap n xs" and "n < cap" and "tbl key n xs (key c) = None"
  shows "tbl key (Suc n) (xs[n := c]) = (tbl key n xs)(key c \<mapsto> c)"
proof -
  have "n < length xs" using assms by (auto simp: tbl_inv_def)
  have "tbl key (Suc n) (xs[n := c]) k = ((tbl key n xs)(key c \<mapsto> c)) k" for k
    using \<open>n < length xs\<close> assms(3)
    by (auto simp: tbl_def map_add_def split: option.splits)
  then show ?thesis by (simp add: fun_eq_iff)
qed

section \<open>Updating an entry in place\<close>

lemma map_key_update: "i < n \<Longrightarrow> n \<le> length xs \<Longrightarrow> key c = key (xs ! i) \<Longrightarrow>
    map key (live n (xs[i := c])) = map key (live n xs)"
  by (simp add: live_update map_update) (metis length_live list_update_id nth_live nth_map)

lemma tbl_inv_update:
  "tbl_inv key cap n xs \<Longrightarrow> i < n \<Longrightarrow> key c = key (xs ! i) \<Longrightarrow> tbl_inv key cap n (xs[i := c])"
  by (simp add: tbl_inv_def map_key_update)

lemma tbl_update:
  assumes "tbl_inv key cap n xs" and "i < n" and "key c = key (xs ! i)"
  shows "tbl key n (xs[i := c]) = (tbl key n xs)(key c \<mapsto> c)"
proof
  fix k
  note inv' = tbl_inv_update [OF assms]
  have len: "n \<le> length xs" using assms(1) by auto
  show "tbl key n (xs[i := c]) k = ((tbl key n xs)(key c \<mapsto> c)) k"
  proof (cases "k = key c")
    case True
    then show ?thesis using tbl_nth [OF inv' assms(2)] assms(2) len by simp
  next
    case False
    have "tbl key n (xs[i := c]) k = Some d \<longleftrightarrow> tbl key n xs k = Some d" for d
    proof -
      have "d \<in> set (live n (xs[i := c])) \<and> key d = k \<longleftrightarrow> d \<in> set (live n xs) \<and> key d = k"
        using False assms len by (auto simp: in_set_live nth_list_update split: if_splits)
      then show ?thesis using tbl_Some [OF inv'] tbl_Some [OF assms(1)] by metis
    qed
    then have "tbl key n (xs[i := c]) k = tbl key n xs k" by (metis not_Some_eq)
    with False show ?thesis by simp
  qed
qed

section \<open>Deleting by swapping with the last entry\<close>

lemma tbl_remove_mset:
  assumes "tbl_inv key cap n xs"
  shows "case tbl_remove key k n xs of (n', xs') \<Rightarrow>
    mset (live n' xs') = mset (filter (\<lambda>c. key c \<noteq> k) (live n xs)) \<and> length xs' = length xs \<and> n' \<le> n"
proof (cases "find_first (\<lambda>c. key c = k) xs n")
  case None
  then have "\<forall>c \<in> set (live n xs). key c \<noteq> k"
    using tbl_invD(2) [OF assms] by (auto simp: find_first_None_live)
  then show ?thesis using None by (simp add: tbl_remove_def filter_True)
next
  case (Some i)
  then have "i < n" and "key (xs ! i) = k" by (auto dest: find_first_Some)
  then show ?thesis
    using Some swap_last_key [of n xs key i] tbl_invD [OF assms] by (simp add: tbl_remove_def)
qed

lemma tbl_remove_set:
  assumes "tbl_inv key cap n xs" and "tbl_remove key k n xs = (n', xs')"
  shows "set (live n' xs') = {c \<in> set (live n xs). key c \<noteq> k}"
proof -
  have "mset (live n' xs') = mset (filter (\<lambda>c. key c \<noteq> k) (live n xs))"
    using tbl_remove_mset [OF assms(1), of k] assms(2) by simp
  from mset_eq_setD [OF this] show ?thesis by simp
qed

lemma tbl_inv_remove:
  assumes "tbl_inv key cap n xs" and "tbl_remove key k n xs = (n', xs')"
  shows "tbl_inv key cap n' xs'"
proof -
  have m: "mset (live n' xs') = mset (filter (\<lambda>c. key c \<noteq> k) (live n xs))"
    and l: "length xs' = length xs" "n' \<le> n"
    using tbl_remove_mset [OF assms(1), of k] assms(2) by auto
  have "distinct (map key (filter (\<lambda>c. key c \<noteq> k) (live n xs)))"
    using tbl_invD(3) [OF assms(1)] by (rule distinct_map_filter)
  then have "distinct (map key (live n' xs'))" using distinct_map_mset [OF m] by blast
  with l tbl_invD(1,2) [OF assms(1)] show ?thesis
    using assms(1) unfolding tbl_inv_def by linarith
qed

lemma tbl_remove:
  assumes "tbl_inv key cap n xs" and "tbl_remove key k n xs = (n', xs')"
  shows "tbl key n' xs' = (tbl key n xs)(k := None)"
proof
  fix j
  note inv' = tbl_inv_remove [OF assms]
  note s = tbl_remove_set [OF assms]
  have "tbl key n' xs' j = Some d \<longleftrightarrow> ((tbl key n xs)(k := None)) j = Some d" for d
    using tbl_Some [OF inv'] tbl_Some [OF assms(1)] s by (auto simp: fun_upd_def)
  then show "tbl key n' xs' j = ((tbl key n xs)(k := None)) j" by (metis not_Some_eq)
qed

lemma keys_remove:
  "tbl_inv key cap n xs \<Longrightarrow> tbl_remove key k n xs = (n', xs') \<Longrightarrow>
     set (map key (live n' xs')) = set (map key (live n xs)) - {k}"
  by (auto simp: tbl_remove_set)

end
