(* ===== verification/Chat14_Epoll.thy ===== *)
theory Chat14_Epoll
  imports Counted_Table
begin

text \<open>
  \<^verbatim>\<open>03_networking/lab_14_epoll_chat_server/src/server.c\<close>: the epoll chat server with a dense array
  of client descriptors. \<open>srv14\<close> is the state of \<^verbatim>\<open>main\<close>, \<open>setup14\<close> the part before the loop,
  \<open>step14\<close> the body of the loop for one entry of \<^verbatim>\<open>events\<close>. The clients array is an automatic
  variable, so its initial contents are a parameter.
\<close>

section \<open>The model\<close>

record srv14 =
  listen14 :: int
  clients14 :: "int list"
  count14 :: nat

definition MAX_CLIENTS14 :: nat where "MAX_CLIENTS14 = 1024"
definition BUFFER_SIZE14 :: nat where "BUFFER_SIZE14 = 1024"

definition make_socket_nonblocking14 :: "int \<Rightarrow> sys list" where
  "make_socket_nonblocking14 fd = [Nonblock fd]"

definition broadcast14 :: "int \<Rightarrow> int list \<Rightarrow> nat \<Rightarrow> string \<Rightarrow> nat \<Rightarrow> sys list" where
  "broadcast14 sender_fd clients client_count msg len =
     map (\<lambda>fd. Send fd (take len msg)) (filter (\<lambda>fd. fd \<noteq> sender_fd) (live client_count clients))"

definition setup14 :: "int \<Rightarrow> int list \<Rightarrow> srv14 \<times> sys list" where
  "setup14 listen_fd junk =
     (\<lparr>listen14 = listen_fd, clients14 = junk, count14 = 0\<rparr>,
      [Socket_stream] @ make_socket_nonblocking14 listen_fd
      @ [Bind listen_fd 9090, Listen listen_fd 128, Epoll_create, Epoll_add listen_fd False,
         Print (''[CHAT SERVER] Listening on port '' @ show_int 9090 @ ''...'' @ nl)])"

text \<open>The branch for the listening socket.\<close>

definition accept14 :: "srv14 \<Rightarrow> int \<Rightarrow> (srv14 \<times> sys list) res" where
  "accept14 s client_fd =
     (if client_fd < 0 then Inr (s, [])
      else bindR (arr_set (clients14 s) (count14 s) client_fd) (\<lambda>cl.
        let s' = s\<lparr>clients14 := cl, count14 := count14 s + 1\<rparr>;
            msg = snprintf BUFFER_SIZE14
                    (''[Server] New client joined ('' @ show_int client_fd @ '')'' @ nl)
        in Inr (s', make_socket_nonblocking14 client_fd
                 @ [Epoll_add client_fd True, Print msg]
                 @ broadcast14 client_fd cl (count14 s + 1) msg (length msg))))"

text \<open>The branch for a client: the removal loop, and the relay of a message.\<close>

definition drop14 :: "srv14 \<Rightarrow> int \<Rightarrow> srv14" where
  "drop14 s fd =
     (case tbl_remove id fd (count14 s) (clients14 s) of
        (n, cl) \<Rightarrow> s\<lparr>clients14 := cl, count14 := n\<rparr>)"

definition client14 :: "srv14 \<Rightarrow> int \<Rightarrow> rd \<Rightarrow> (srv14 \<times> sys list) res" where
  "client14 s fd r =
     (let n = rd_len r
      in if n \<le> 0
         then Inr (drop14 s fd,
                   [Close fd, Epoll_del fd,
                    Print (''[Server] Client '' @ show_int fd @ '' disconnected'' @ nl)])
         else bindR (terminate BUFFER_SIZE14 (rd_data r)) (\<lambda>buf.
                Inr (s, Print (''[Client '' @ show_int fd @ ''] '' @ buf)
                        # broadcast14 fd (clients14 s) (count14 s) (rd_data r) (nat n))))"

definition step14 :: "srv14 \<Rightarrow> net_event \<Rightarrow> (srv14 \<times> sys list) res" where
  "step14 s e =
     (if ev_fd e = listen14 s then accept14 s (ev_accept e) else client14 s (ev_fd e) (ev_recv e))"

text \<open>The server on a sequence of events.\<close>

definition server14 :: "int \<Rightarrow> int list \<Rightarrow> net_event list \<Rightarrow> (srv14 \<times> sys list) res" where
  "server14 listen_fd junk es =
     (case setup14 listen_fd junk of (s0, o0) \<Rightarrow>
        bindR (run step14 s0 es) (\<lambda>(s, out). Inr (s, o0 @ out)))"

section \<open>The table of clients\<close>

definition wf14 :: "srv14 \<Rightarrow> bool" where
  "wf14 s \<longleftrightarrow> tbl_inv id MAX_CLIENTS14 (count14 s) (clients14 s)"

definition fds14 :: "srv14 \<Rightarrow> int list" where
  "fds14 s = live (count14 s) (clients14 s)"

lemma sends_broadcast14 [simp]:
  "sends (broadcast14 fd cl n msg len) = map (\<lambda>c. (c, take len msg)) (filter (\<lambda>c. c \<noteq> fd) (live n cl))"
  "closed (broadcast14 fd cl n msg len) = []"
  by (simp_all add: broadcast14_def)

definition push14 :: "int \<Rightarrow> srv14 \<Rightarrow> srv14 res" where
  "push14 fd s = bindR (arr_set (clients14 s) (count14 s) fd)
     (\<lambda>cl. Inr (s\<lparr>clients14 := cl, count14 := count14 s + 1\<rparr>))"

interpretation table14: client_table "\<lambda>s. tbl id (count14 s) (clients14 s)" wf14 "\<lambda>fd. fd" push14 "\<lambda>fd s. drop14 s fd"
proof
  fix s s' :: srv14 and c :: int
  assume wf: "wf14 s" and new: "tbl id (count14 s) (clients14 s) c = None"
    and p: "push14 c s = Inr s'"
  have room: "count14 s < MAX_CLIENTS14" and s': "s' = s\<lparr>clients14 := (clients14 s)[count14 s := c], count14 := count14 s + 1\<rparr>"
    using p wf by (auto simp: push14_def wf14_def tbl_inv_def bindR_eq_Inr arr_set_eq_Inr)
  show "wf14 s'"
    using wf new room tbl_inv_push [of id MAX_CLIENTS14 "count14 s" "clients14 s" c]
    by (simp add: wf14_def s')
  show "tbl id (count14 s') (clients14 s') = (tbl id (count14 s) (clients14 s))(c \<mapsto> c)"
    using wf new room tbl_push [of id MAX_CLIENTS14 "count14 s" "clients14 s" c]
    by (simp add: wf14_def s')
next
  fix s :: srv14 and k :: int
  assume wf: "wf14 s"
  obtain n cl where r: "tbl_remove id k (count14 s) (clients14 s) = (n, cl)" by fastforce
  show "wf14 (drop14 s k)"
    using wf r by (auto simp: wf14_def drop14_def dest: tbl_inv_remove)
  show "tbl id (count14 (drop14 s k)) (clients14 (drop14 s k)) = (tbl id (count14 s) (clients14 s))(k := None)"
    using wf r tbl_remove [of id MAX_CLIENTS14 "count14 s" "clients14 s" k n cl]
    by (simp add: wf14_def drop14_def)
qed

lemma set_fds14: "set (fds14 s) = dom (tbl id (count14 s) (clients14 s))"
  by (simp add: fds14_def dom_tbl)

lemma drop14_fds: "wf14 s \<Longrightarrow> set (fds14 (drop14 s fd)) = set (fds14 s) - {fd}"
  by (simp add: set_fds14 table14.tab_delete)

lemma drop14_listen [simp]: "listen14 (drop14 s fd) = listen14 s"
  by (simp add: drop14_def split: prod.split)

lemma push14_fds:
  "wf14 s \<Longrightarrow> fd \<notin> set (fds14 s) \<Longrightarrow> push14 fd s = Inr s' \<Longrightarrow>
     wf14 s' \<and> set (fds14 s') = insert fd (set (fds14 s)) \<and> listen14 s' = listen14 s"
  using table14.inv_insert [of s fd s'] table14.dom_insert [of s fd s']
  by (auto simp: set_fds14 domIff push14_def bindR_eq_Inr)

lemma accept14_Inr:
  "accept14 s c = Inr (s', out) \<longleftrightarrow>
     (if c < 0 then s' = s \<and> out = []
      else push14 c s = Inr s' \<and>
        (let msg = snprintf BUFFER_SIZE14 (''[Server] New client joined ('' @ show_int c @ '')'' @ nl)
         in out = [Nonblock c, Epoll_add c True, Print msg]
                   @ broadcast14 c (clients14 s') (count14 s') msg (length msg)))"
  by (auto simp: accept14_def push14_def bindR_eq_Inr Let_def make_socket_nonblocking14_def)

lemma client14_Inr:
  "client14 s fd r = Inr (s', out) \<longleftrightarrow>
     (if rd_len r \<le> 0
      then s' = drop14 s fd \<and> out = [Close fd, Epoll_del fd,
             Print (''[Server] Client '' @ show_int fd @ '' disconnected'' @ nl)]
      else length (rd_data r) < BUFFER_SIZE14 \<and> s' = s \<and>
           out = Print (''[Client '' @ show_int fd @ ''] '' @ cstr (rd_data r))
                   # broadcast14 fd (clients14 s) (count14 s) (rd_data r) (nat (rd_len r)))"
  by (auto simp: client14_def bindR_eq_Inr terminate_eq_Inr Let_def)

text \<open>What one step can do, as an elimination rule: the four outcomes of the loop body.\<close>

lemma step14_E:
  assumes "step14 s e = Inr (s', out)"
  obtains (idle) "ev_fd e = listen14 s" "ev_accept e < 0" "s' = s" "sends out = []" "closed out = []"
  | (join) "ev_fd e = listen14 s" "0 \<le> ev_accept e" "push14 (ev_accept e) s = Inr s'" "closed out = []"
      "fst ` set (sends out) \<subseteq> set (fds14 s') - {ev_accept e}"
  | (gone) "ev_fd e \<noteq> listen14 s" "rd_len (ev_recv e) \<le> 0" "s' = drop14 s (ev_fd e)"
      "closed out = [ev_fd e]" "sends out = []"
  | (data) "ev_fd e \<noteq> listen14 s" "0 < rd_len (ev_recv e)" "length (rd_data (ev_recv e)) < BUFFER_SIZE14"
      "s' = s" "closed out = []"
      "sends out = map (\<lambda>c. (c, rd_data (ev_recv e))) (filter (\<lambda>c. c \<noteq> ev_fd e) (fds14 s))"
proof (cases "ev_fd e = listen14 s")
  case True
  with assms have "accept14 s (ev_accept e) = Inr (s', out)" by (simp add: step14_def)
  then show ?thesis
  proof (cases "ev_accept e < 0")
    case neg: True
    with \<open>accept14 s (ev_accept e) = Inr (s', out)\<close> True show ?thesis
      by (intro idle) (simp_all add: accept14_Inr)
  next
    case False
    with \<open>accept14 s (ev_accept e) = Inr (s', out)\<close> True show ?thesis
      by (intro join) (auto simp: accept14_Inr Let_def fds14_def)
  qed
next
  case False
  with assms have c: "client14 s (ev_fd e) (ev_recv e) = Inr (s', out)" by (simp add: step14_def)
  show ?thesis
  proof (cases "rd_len (ev_recv e) \<le> 0")
    case True
    with c False show ?thesis by (intro gone) (simp_all add: client14_Inr)
  next
    case pos: False
    then have "take (nat (rd_len (ev_recv e))) (rd_data (ev_recv e)) = rd_data (ev_recv e)"
      by (simp add: rd_len_data)
    with c False pos show ?thesis by (intro data) (simp_all add: client14_Inr fds14_def)
  qed
qed

interpretation chat14: event_server step14 listen14 fds14 wf14 1023
proof
  fix s s' e out
  assume wf: "wf14 s" and k: "kernel_ok (listen14 s) (set (fds14 s)) 1023 e"
    and st: "step14 s e = Inr (s', out)"
  have new: "0 \<le> ev_accept e \<Longrightarrow> ev_accept e \<notin> set (fds14 s)" and reg: "ev_fd e \<in> insert (listen14 s) (set (fds14 s))"
    using k by (auto simp: kernel_ok_def)
  have push: "0 \<le> ev_accept e \<Longrightarrow> push14 (ev_accept e) s = Inr s' \<Longrightarrow>
      wf14 s' \<and> set (fds14 s') = insert (ev_accept e) (set (fds14 s)) \<and> listen14 s' = listen14 s"
    by (rule push14_fds [OF wf new])
  show "wf14 s'"
    using st by (cases rule: step14_E) (use wf push table14.inv_delete [OF wf, of "ev_fd e"] in simp_all)
  show "listen14 s' = listen14 s"
    using st by (cases rule: step14_E) (use push in auto)
  show "set (fds14 s') = set (fds14 s) \<union> accepted (listen14 s) e - set (closed out)"
    using st by (cases rule: step14_E) (use push drop14_fds [OF wf] in \<open>auto simp: accepted_def\<close>)
  show "set (closed out) \<subseteq> set (fds14 s)"
    using st by (cases rule: step14_E) (use reg in auto)
  show "fst ` set (sends out) \<subseteq> set (fds14 s) \<union> accepted (listen14 s) e"
    using st by (cases rule: step14_E) (use push in \<open>auto simp: accepted_def\<close>)
next
  fix s assume "wf14 s"
  then show "distinct (fds14 s)" by (auto simp: wf14_def fds14_def tbl_inv_def)
qed

lemma setup14_state:
  "setup14 lfd junk = (s0, o0) \<Longrightarrow> length junk = MAX_CLIENTS14 \<Longrightarrow>
     wf14 s0 \<and> fds14 s0 = [] \<and> listen14 s0 = lfd \<and> closed o0 = [] \<and> sends o0 = []"
  by (auto simp: setup14_def wf14_def fds14_def make_socket_nonblocking14_def)

section \<open>Properties\<close>

text \<open>
  C1: the chat server of lab 14 loses no descriptor. After any sequence of events that the kernel
  can produce, every client that \<^verbatim>\<open>accept\<close> returned is either still in the table or has been
  closed, and the table holds every descriptor at most once.
\<close>

theorem chat14_no_leak:
  assumes "length junk = MAX_CLIENTS14"
    and "env_run (\<lambda>s. kernel_ok (listen14 s) (set (fds14 s)) 1023) step14 (fst (setup14 lfd junk)) es"
    and "server14 lfd junk es = Inr (s, out)"
  shows "all_accepted lfd es = set (fds14 s) \<union> set (closed out) \<and> distinct (fds14 s)"
proof -
  obtain s0 o0 where s0: "setup14 lfd junk = (s0, o0)" by fastforce
  note init = setup14_state [OF s0 assms(1)]
  from assms(3) s0 obtain o1 where r: "run step14 s0 es = Inr (s, o1)" and out: "out = o0 @ o1"
    by (auto simp: server14_def bindR_eq_Inr)
  show ?thesis
    using chat14.run_no_leak [OF _ _ r] chat14.run_wf [OF _ _ r] chat14.fds_distinct init assms(2) s0 out
    by auto
qed

theorem chat14_no_leak_witness:
  "all_accepted 3 [\<lparr>ev_fd = 3, ev_in = True, ev_accept = 5, ev_recv = Fail\<rparr>] = {5}
   \<and> (\<exists>s out. server14 3 (replicate 1024 0) [\<lparr>ev_fd = 3, ev_in = True, ev_accept = 5, ev_recv = Fail\<rparr>]
        = Inr (s, out) \<and> {5} = set (fds14 s) \<union> set (closed out))"
proof -
  let ?e = "\<lparr>ev_fd = 3, ev_in = True, ev_accept = 5, ev_recv = Fail\<rparr>"
  have len: "length (replicate 1024 (0::int)) = MAX_CLIENTS14" by (simp add: MAX_CLIENTS14_def)
  have env: "env_run (\<lambda>s. kernel_ok (listen14 s) (set (fds14 s)) 1023) step14
      (fst (setup14 3 (replicate 1024 0))) [?e]"
    by (simp add: setup14_def kernel_ok_def fds14_def rd_ok_def split: sum.split)
  have "\<not> is_fault (server14 3 (replicate 1024 0) [?e])"
    by (simp add: server14_def setup14_def step14_def accept14_def arr_set_def Let_def)
  then obtain s out where r: "server14 3 (replicate 1024 0) [?e] = Inr (s, out)"
    by (auto simp: not_fault_iff)
  have acc: "all_accepted 3 [?e] = {5}" by (simp add: accepted_def)
  with chat14_no_leak [OF len env r] r show ?thesis by auto
qed

end
