(* ===== verification/Chat17_Command.thy ===== *)
theory Chat17_Command
  imports Counted_Table
begin

text \<open>
  \<^verbatim>\<open>03_networking/lab_17_command_chat_server/src/server.c\<close>: the chat server with nicknames, user
  list and private messages. \<open>srv17\<close> holds the two globals \<^verbatim>\<open>clients\<close> and \<^verbatim>\<open>client_count\<close> and the
  listening descriptor; \<open>handle_command17\<close> is the command interpreter and \<open>step17\<close> the loop body.
  A name field is the C string it holds, so it has fewer than \<^verbatim>\<open>NAME_LEN\<close> characters.
\<close>

section \<open>The model\<close>

record client17 =
  fd17 :: int
  name17 :: string

record srv17 =
  listen17 :: int
  clients17 :: "client17 list"
  count17 :: nat

definition MAX_CLIENTS17 :: nat where "MAX_CLIENTS17 = 1024"
definition BUF_SIZE17 :: nat where "BUF_SIZE17 = 1024"
definition NAME_LEN17 :: nat where "NAME_LEN17 = 32"

definition find_client_by_name17 :: "srv17 \<Rightarrow> string \<Rightarrow> nat option" where
  "find_client_by_name17 s name = find_first (\<lambda>c. name17 c = name) (clients17 s) (count17 s)"

definition broadcast17 :: "srv17 \<Rightarrow> string \<Rightarrow> int \<Rightarrow> sys list" where
  "broadcast17 s msg exclude_fd =
     map (\<lambda>c. Send (fd17 c) msg)
       (filter (\<lambda>c. fd17 c \<noteq> exclude_fd) (live (count17 s) (clients17 s)))"

definition remove_client17 :: "srv17 \<Rightarrow> int \<Rightarrow> srv17 \<times> sys list" where
  "remove_client17 s fd =
     (case find_first (\<lambda>c. fd17 c = fd) (clients17 s) (count17 s) of
        None \<Rightarrow> (s, [])
      | Some i \<Rightarrow>
          (s\<lparr>clients17 := (clients17 s)[i := clients17 s ! (count17 s - 1)], count17 := count17 s - 1\<rparr>,
           [Print (''[Server] Client '' @ name17 (clients17 s ! i) @ '' ('' @ show_int fd
                    @ '') disconnected'' @ nl),
            Close fd]))"

text \<open>The commands, with \<open>i\<close> the index of the sender (\<^verbatim>\<open>self\<close>).\<close>

definition cmd_nick17 :: "srv17 \<Rightarrow> nat \<Rightarrow> int \<Rightarrow> string \<Rightarrow> srv17 \<times> sys list" where
  "cmd_nick17 s i fd cmd =
     (let name = chop nl (drop 6 cmd);
          c = (clients17 s ! i)\<lparr>name17 := snprintf NAME_LEN17 name\<rparr>;
          response = snprintf BUF_SIZE17 (''[Server] Nickname set to '' @ [CHR 0x27] @ name @ [CHR 0x27] @ nl)
      in (s\<lparr>clients17 := (clients17 s)[i := c]\<rparr>, [Send fd response]))"

definition list_parts17 :: "client17 \<Rightarrow> string list" where
  "list_parts17 c = ['' - '', (if name17 c \<noteq> [] then name17 c else ''(unnamed)''), nl]"

definition cmd_list17 :: "srv17 \<Rightarrow> int \<Rightarrow> (srv17 \<times> sys list) res" where
  "cmd_list17 s fd =
     bindR (strcats BUF_SIZE17 (''[Server] Connected users:'' @ nl)
             (concat (map list_parts17 (live (count17 s) (clients17 s)))))
       (\<lambda>response. Inr (s, [Send fd response]))"

definition cmd_msg17 :: "srv17 \<Rightarrow> nat \<Rightarrow> int \<Rightarrow> string \<Rightarrow> srv17 \<times> sys list" where
  "cmd_msg17 s i fd cmd =
     (let usage = (s, [send_lit fd (''[Server] Usage: /msg <user> <message>'' @ nl) 38]);
          self = clients17 s ! i
      in case strtok '' '' (drop 5 cmd) of
           None \<Rightarrow> usage
         | Some (target, rest) \<Rightarrow>
             (case strtok nl rest of
                None \<Rightarrow> usage
              | Some (message, _) \<Rightarrow>
                  (case find_client_by_name17 s target of
                     None \<Rightarrow> (s, [send_lit fd (''[Server] User not found.'' @ nl) 26])
                   | Some d \<Rightarrow>
                       (s, [Send (fd17 (clients17 s ! d))
                             (snprintf BUF_SIZE17
                               (''[PM from '' @ (if name17 self \<noteq> [] then name17 self else ''(anon)'')
                                @ ''] '' @ message @ nl))]))))"

definition handle_command17 :: "srv17 \<Rightarrow> int \<Rightarrow> string \<Rightarrow> (srv17 \<times> sys list) res" where
  "handle_command17 s fd cmd =
     (case find_last (\<lambda>c. fd17 c = fd) (clients17 s) (count17 s) of
        None \<Rightarrow> Inr (s, [])
      | Some i \<Rightarrow>
          if strncmp_eq cmd ''/nick '' 6 then Inr (cmd_nick17 s i fd cmd)
          else if strncmp_eq cmd ''/list'' 5 then cmd_list17 s fd
          else if strncmp_eq cmd ''/msg '' 5 then Inr (cmd_msg17 s i fd cmd)
          else if strncmp_eq cmd ''/quit'' 5 then
            (case remove_client17 s fd of (s', out) \<Rightarrow>
               Inr (s', send_lit fd (''[Server] Bye!'' @ nl) 14 # out))
          else Inr (s, [send_lit fd (''[Server] Unknown command.'' @ nl) 26]))"

definition setup17 :: "int \<Rightarrow> srv17 \<times> sys list" where
  "setup17 listen_fd =
     (\<lparr>listen17 = listen_fd, clients17 = replicate MAX_CLIENTS17 \<lparr>fd17 = 0, name17 = []\<rparr>, count17 = 0\<rparr>,
      [Socket_stream, Nonblock listen_fd, Bind listen_fd 9090, Listen listen_fd 128, Epoll_create,
       Epoll_add listen_fd False,
       Print (''[Server] Command Chat Server running on port '' @ show_int 9090 @ nl)])"

definition push17 :: "client17 \<Rightarrow> srv17 \<Rightarrow> srv17 res" where
  "push17 c s = bindR (arr_set (clients17 s) (count17 s) c)
     (\<lambda>cl. Inr (s\<lparr>clients17 := cl, count17 := count17 s + 1\<rparr>))"

definition accept17 :: "srv17 \<Rightarrow> int \<Rightarrow> (srv17 \<times> sys list) res" where
  "accept17 s client_fd =
     (if client_fd < 0 then Inr (s, [])
      else bindR (push17 \<lparr>fd17 = client_fd, name17 = []\<rparr> s) (\<lambda>s'.
        let msg = snprintf 128 (''[Server] New connection (fd='' @ show_int client_fd @ '')'' @ nl)
        in Inr (s', [Nonblock client_fd, Epoll_add client_fd True, Print msg]
                 @ broadcast17 s' msg client_fd)))"

definition client_step17 :: "srv17 \<Rightarrow> int \<Rightarrow> rd \<Rightarrow> (srv17 \<times> sys list) res" where
  "client_step17 s fd r =
     (if rd_len r \<le> 0
      then (case remove_client17 s fd of (s', out) \<Rightarrow> Inr (s', out @ [Epoll_del fd]))
      else bindR (terminate BUF_SIZE17 (rd_data r)) (\<lambda>buf.
        if buf \<noteq> [] \<and> hd buf = CHR ''/'' then handle_command17 s fd buf
        else
          let who = (case find_last (\<lambda>c. fd17 c = fd) (clients17 s) (count17 s) of
                       None \<Rightarrow> ''anon''
                     | Some i \<Rightarrow> (if name17 (clients17 s ! i) \<noteq> [] then name17 (clients17 s ! i) else ''anon''));
              msg = snprintf BUF_SIZE17 (''['' @ who @ ''] '' @ buf)
          in Inr (s, broadcast17 s msg fd)))"

definition step17 :: "srv17 \<Rightarrow> net_event \<Rightarrow> (srv17 \<times> sys list) res" where
  "step17 s e =
     (if ev_fd e = listen17 s then accept17 s (ev_accept e) else client_step17 s (ev_fd e) (ev_recv e))"

definition server17 :: "int \<Rightarrow> net_event list \<Rightarrow> (srv17 \<times> sys list) res" where
  "server17 listen_fd es =
     (case setup17 listen_fd of (s0, o0) \<Rightarrow>
        bindR (run step17 s0 es) (\<lambda>(s, out). Inr (s, o0 @ out)))"

section \<open>The table of clients\<close>

text \<open>
  The invariant: the counter is within the array, descriptors are distinct, and every name is a
  line fragment that fits its field.
\<close>

definition name_ok17 :: "client17 \<Rightarrow> bool" where
  "name_ok17 c \<longleftrightarrow> length (name17 c) < NAME_LEN17 \<and> NL \<notin> set (name17 c) \<and> NUL \<notin> set (name17 c)"

definition wf17 :: "srv17 \<Rightarrow> bool" where
  "wf17 s \<longleftrightarrow> tbl_inv fd17 MAX_CLIENTS17 (count17 s) (clients17 s)
     \<and> (\<forall>c \<in> set (live (count17 s) (clients17 s)). name_ok17 c)"

definition users17 :: "srv17 \<Rightarrow> client17 list" where
  "users17 s = live (count17 s) (clients17 s)"

definition fds17 :: "srv17 \<Rightarrow> int list" where
  "fds17 s = map fd17 (users17 s)"

definition tab17 :: "srv17 \<Rightarrow> int \<Rightarrow> client17 option" where
  "tab17 s = tbl fd17 (count17 s) (clients17 s)"

definition drop17 :: "int \<Rightarrow> srv17 \<Rightarrow> srv17" where
  "drop17 fd s = fst (remove_client17 s fd)"

lemma wf17D:
  assumes "wf17 s"
  shows "tbl_inv fd17 MAX_CLIENTS17 (count17 s) (clients17 s)"
    and "c \<in> set (users17 s) \<Longrightarrow> name_ok17 c"
    and "count17 s \<le> length (clients17 s)"
  using assms by (auto simp: wf17_def users17_def)

lemma remove_client17_tbl:
  "remove_client17 s fd = (s', out) \<Longrightarrow>
     (count17 s', clients17 s') = tbl_remove fd17 fd (count17 s) (clients17 s)
     \<and> listen17 s' = listen17 s
     \<and> sends out = [] \<and> set (closed out) = (if fd \<in> dom (tab17 s) then {fd} else {})"
  if "wf17 s"
  using find_first_tbl [OF wf17D(1) [OF that], of fd]
  by (auto simp: remove_client17_def tbl_remove_def tab17_def split: option.splits)

lemma drop17_wf: "wf17 s \<Longrightarrow> wf17 (drop17 fd s) \<and> tab17 (drop17 fd s) = (tab17 s)(fd := None)
    \<and> listen17 (drop17 fd s) = listen17 s"
proof -
  assume wf: "wf17 s"
  obtain s' out where r: "remove_client17 s fd = (s', out)" by fastforce
  note t = remove_client17_tbl [OF wf r]
  have rm: "tbl_remove fd17 fd (count17 s) (clients17 s) = (count17 s', clients17 s')"
    using t by simp
  show ?thesis
    using tbl_inv_remove [OF wf17D(1) [OF wf] rm] tbl_remove [OF wf17D(1) [OF wf] rm]
      tbl_remove_set [OF wf17D(1) [OF wf] rm] wf t
    by (auto simp: drop17_def r wf17_def tab17_def)
qed

lemma push17_wf:
  assumes "wf17 s" and "tab17 s (fd17 c) = None" and "push17 c s = Inr s'" and "name_ok17 c"
  shows "wf17 s' \<and> tab17 s' = (tab17 s)(fd17 c \<mapsto> c) \<and> users17 s' = users17 s @ [c]
    \<and> listen17 s' = listen17 s"
proof -
  have room: "count17 s < MAX_CLIENTS17" "count17 s < length (clients17 s)"
    and s': "s' = s\<lparr>clients17 := (clients17 s)[count17 s := c], count17 := count17 s + 1\<rparr>"
    using assms by (auto simp: push17_def wf17_def tbl_inv_def bindR_eq_Inr arr_set_eq_Inr)
  show ?thesis
    using assms room tbl_inv_push [OF wf17D(1) [OF assms(1)], of c] tbl_push [OF wf17D(1) [OF assms(1)], of c]
    by (auto simp: s' wf17_def tab17_def users17_def)
qed

lemma set_fds17: "set (fds17 s) = dom (tab17 s)"
  by (simp add: fds17_def users17_def tab17_def dom_tbl)

lemma find_fd17:
  assumes "wf17 s"
  shows "find_last (\<lambda>c. fd17 c = fd) (clients17 s) (count17 s) = None \<longleftrightarrow> tab17 s fd = None"
    and "find_last (\<lambda>c. fd17 c = fd) (clients17 s) (count17 s) = Some i \<Longrightarrow>
      i < count17 s \<and> fd17 (clients17 s ! i) = fd \<and> tab17 s fd = Some (clients17 s ! i)
      \<and> clients17 s ! i \<in> set (users17 s)"
  using find_first_tbl [OF wf17D(1) [OF assms], of fd] find_last_tbl [OF wf17D(1) [OF assms], of fd]
    wf17D(3) [OF assms]
  by (auto simp: tab17_def users17_def in_set_live)

definition enter17 :: "int \<Rightarrow> srv17 \<Rightarrow> srv17 res" where
  "enter17 fd s = push17 \<lparr>fd17 = fd, name17 = []\<rparr> s"

interpretation table17: client_table tab17 wf17 "\<lambda>fd. \<lparr>fd17 = fd, name17 = []\<rparr>" enter17 drop17
proof
  fix s s' fd
  assume "wf17 s" and "tab17 s fd = None" and "enter17 fd s = Inr s'"
  then have "wf17 s' \<and> tab17 s' = (tab17 s)(fd \<mapsto> \<lparr>fd17 = fd, name17 = []\<rparr>)"
    using push17_wf [of s "\<lparr>fd17 = fd, name17 = []\<rparr>" s']
    by (simp add: enter17_def name_ok17_def NAME_LEN17_def)
  then show "wf17 s'" and "tab17 s' = (tab17 s)(fd \<mapsto> \<lparr>fd17 = fd, name17 = []\<rparr>)" by simp_all
next
  fix s fd
  assume "wf17 s"
  then show "wf17 (drop17 fd s)" and "tab17 (drop17 fd s) = (tab17 s)(fd := None)"
    by (simp_all add: drop17_wf)
qed

section \<open>Commands on the abstract table\<close>

text \<open>
  What the server promises, without arrays: a finite map from descriptors to users. Only \<^verbatim>\<open>/nick\<close>
  and \<^verbatim>\<open>/quit\<close> change it, and only at the sender's descriptor.
\<close>

definition is_quit17 :: "string \<Rightarrow> bool" where
  "is_quit17 cmd \<longleftrightarrow> strncmp_eq cmd ''/quit'' 5 \<and> \<not> strncmp_eq cmd ''/nick '' 6
     \<and> \<not> strncmp_eq cmd ''/list'' 5 \<and> \<not> strncmp_eq cmd ''/msg '' 5"

definition abs_command17 :: "(int \<Rightarrow> client17 option) \<Rightarrow> int \<Rightarrow> string \<Rightarrow> int \<Rightarrow> client17 option" where
  "abs_command17 m fd cmd =
     (if strncmp_eq cmd ''/nick '' 6
      then m(fd := map_option (\<lambda>c. c\<lparr>name17 := snprintf NAME_LEN17 (chop nl (drop 6 cmd))\<rparr>) (m fd))
      else if is_quit17 cmd then m(fd := None) else m)"

definition abs_step17 :: "int \<Rightarrow> (int \<Rightarrow> client17 option) \<Rightarrow> net_event \<Rightarrow> int \<Rightarrow> client17 option" where
  "abs_step17 lfd m e =
     (if ev_fd e = lfd
      then (if ev_accept e < 0 then m else m(ev_accept e \<mapsto> \<lparr>fd17 = ev_accept e, name17 = []\<rparr>))
      else if rd_len (ev_recv e) \<le> 0 then m(ev_fd e := None)
      else let buf = cstr (rd_data (ev_recv e))
           in if buf \<noteq> [] \<and> hd buf = CHR ''/'' then abs_command17 m (ev_fd e) buf else m)"

lemma not_quit17: "strncmp_eq cmd ''/list'' 5 \<or> strncmp_eq cmd ''/msg '' 5 \<Longrightarrow> \<not> is_quit17 cmd"
  by (auto simp: is_quit17_def)

lemma nick_clean17: "NUL \<notin> set cmd \<Longrightarrow> name_ok17 (c\<lparr>name17 := snprintf NAME_LEN17 (chop nl (drop 6 cmd))\<rparr>)"
proof -
  assume "NUL \<notin> set cmd"
  then have "NUL \<notin> set (chop nl (drop 6 cmd))"
    by (auto simp: chop_def dest!: in_set_takeD in_set_dropD)
  moreover have "NL \<notin> set (chop nl (drop 6 cmd))" using set_chop [of nl "drop 6 cmd"] by (auto simp: nl_def)
  ultimately show ?thesis
    by (auto simp: name_ok17_def length_snprintf NAME_LEN17_def snprintf_no_NUL snprintf_def dest: in_set_takeD)
qed

lemma cmd_nick17_effect:
  assumes wf: "wf17 s" and i: "i < count17 s" "fd17 (clients17 s ! i) = fd" and n: "NUL \<notin> set cmd"
    and r: "cmd_nick17 s i fd cmd = (s', out)"
  shows "wf17 s' \<and> listen17 s' = listen17 s \<and>
     tab17 s' = (tab17 s)(fd := map_option (\<lambda>c. c\<lparr>name17 := snprintf NAME_LEN17 (chop nl (drop 6 cmd))\<rparr>) (tab17 s fd)) \<and>
     closed out = [] \<and> fst ` set (sends out) = {fd}"
proof -
  let ?c = "(clients17 s ! i)\<lparr>name17 := snprintf NAME_LEN17 (chop nl (drop 6 cmd))\<rparr>"
  note t = wf17D(1) [OF wf]
  have s': "s' = s\<lparr>clients17 := (clients17 s)[i := ?c]\<rparr>"
    and out: "closed out = [] \<and> fst ` set (sends out) = {fd}"
    using r by (auto simp: cmd_nick17_def Let_def)
  have key: "fd17 ?c = fd17 (clients17 s ! i)" by simp
  have "set (live (count17 s) ((clients17 s)[i := ?c])) \<subseteq> insert ?c (set (live (count17 s) (clients17 s)))"
    using i by (simp add: live_update set_update_subset_insert)
  then have "wf17 s'"
    using tbl_inv_update [OF t i(1) key] wf nick_clean17 [OF n] by (auto simp: s' wf17_def)
  moreover have "tab17 s' = (tab17 s)(fd \<mapsto> ?c)"
    using tbl_update [OF t i(1) key] i by (simp add: s' tab17_def)
  moreover have "tab17 s fd = Some (clients17 s ! i)"
    using tbl_nth [OF t i(1)] i by (simp add: tab17_def)
  ultimately show ?thesis using out by (simp add: s')
qed

lemma cmd_list17_effect: "cmd_list17 s fd = Inr (s', out) \<Longrightarrow>
    s' = s \<and> closed out = [] \<and> fst ` set (sends out) = {fd}"
  by (auto simp: cmd_list17_def bindR_eq_Inr)

lemma find_name17:
  assumes "wf17 s"
  shows "find_client_by_name17 s t = None \<longleftrightarrow> (\<forall>c \<in> set (users17 s). name17 c \<noteq> t)"
    and "find_client_by_name17 s t = Some d \<Longrightarrow>
      clients17 s ! d \<in> set (users17 s) \<and> name17 (clients17 s ! d) = t"
  using wf17D(3) [OF assms]
  by (auto simp: find_client_by_name17_def users17_def find_first_None_live in_set_live dest: find_first_Some)

lemma cmd_msg17_effect:
  assumes wf: "wf17 s" and r: "cmd_msg17 s i fd cmd = (s', out)" and fd: "fd \<in> set (fds17 s)"
  shows "s' = s \<and> closed out = [] \<and> fst ` set (sends out) \<subseteq> set (fds17 s)"
  using r fd find_name17(2) [OF wf]
  by (auto simp: cmd_msg17_def Let_def fds17_def send_lit_def split: option.splits)

lemma remove_client17_effect:
  assumes "wf17 s" and "remove_client17 s fd = (s', out)"
  shows "wf17 s' \<and> listen17 s' = listen17 s \<and> tab17 s' = (tab17 s)(fd := None) \<and> sends out = [] \<and>
    set (closed out) = (if fd \<in> set (fds17 s) then {fd} else {})"
  using drop17_wf [OF assms(1), of fd] remove_client17_tbl [OF assms] assms(2)
  by (simp add: drop17_def set_fds17)

lemma handle_command17_effect:
  assumes wf: "wf17 s" and fd: "fd \<in> set (fds17 s)" and n: "NUL \<notin> set cmd"
    and r: "handle_command17 s fd cmd = Inr (s', out)"
  shows "wf17 s' \<and> listen17 s' = listen17 s \<and> tab17 s' = abs_command17 (tab17 s) fd cmd \<and>
    set (closed out) = (if is_quit17 cmd then {fd} else {}) \<and> fst ` set (sends out) \<subseteq> set (fds17 s)"
proof -
  obtain i where i: "find_last (\<lambda>c. fd17 c = fd) (clients17 s) (count17 s) = Some i"
    using fd find_fd17(1) [OF wf, of fd] by (cases "find_last (\<lambda>c. fd17 c = fd) (clients17 s) (count17 s)")
      (auto simp: set_fds17)
  have idx: "i < count17 s" "fd17 (clients17 s ! i) = fd" using find_fd17(2) [OF wf i] by auto
  consider (nick) "strncmp_eq cmd ''/nick '' 6"
    | (list) "\<not> strncmp_eq cmd ''/nick '' 6" "strncmp_eq cmd ''/list'' 5"
    | (msg) "\<not> strncmp_eq cmd ''/nick '' 6" "\<not> strncmp_eq cmd ''/list'' 5" "strncmp_eq cmd ''/msg '' 5"
    | (quit) "\<not> strncmp_eq cmd ''/nick '' 6" "\<not> strncmp_eq cmd ''/list'' 5" "\<not> strncmp_eq cmd ''/msg '' 5"
        "strncmp_eq cmd ''/quit'' 5"
    | (unknown) "\<not> strncmp_eq cmd ''/nick '' 6" "\<not> strncmp_eq cmd ''/list'' 5" "\<not> strncmp_eq cmd ''/msg '' 5"
        "\<not> strncmp_eq cmd ''/quit'' 5"
    by blast
  then show ?thesis
  proof cases
    case nick
    with r i have "cmd_nick17 s i fd cmd = (s', out)" by (simp add: handle_command17_def)
    from cmd_nick17_effect [OF wf idx n this] nick fd show ?thesis
      by (simp add: abs_command17_def is_quit17_def)
  next
    case list
    with r i have "cmd_list17 s fd = Inr (s', out)" by (simp add: handle_command17_def)
    from cmd_list17_effect [OF this] list fd wf show ?thesis
      by (simp add: abs_command17_def is_quit17_def)
  next
    case msg
    with r i have "cmd_msg17 s i fd cmd = (s', out)" by (simp add: handle_command17_def)
    from cmd_msg17_effect [OF wf this fd] msg fd wf show ?thesis
      by (simp add: abs_command17_def is_quit17_def)
  next
    case quit
    with r i obtain out' where rm: "remove_client17 s fd = (s', out')"
      and out: "out = send_lit fd (''[Server] Bye!'' @ nl) 14 # out'"
      by (auto simp: handle_command17_def split: prod.splits)
    from remove_client17_effect [OF wf rm] quit fd out show ?thesis
      by (simp add: abs_command17_def is_quit17_def)
  next
    case unknown
    with r i have "s' = s" "out = [send_lit fd (''[Server] Unknown command.'' @ nl) 26]"
      by (auto simp: handle_command17_def)
    with unknown fd wf show ?thesis by (simp add: abs_command17_def is_quit17_def)
  qed
qed

section \<open>The loop body\<close>

lemma broadcast17_sends [simp]:
  "sends (broadcast17 s msg ex) = map (\<lambda>c. (fd17 c, msg)) (filter (\<lambda>c. fd17 c \<noteq> ex) (users17 s))"
  "closed (broadcast17 s msg ex) = []"
  by (simp_all add: broadcast17_def users17_def)

text \<open>The closing events: the end of a client's stream, and its \<^verbatim>\<open>/quit\<close>.\<close>

definition closes17 :: "int \<Rightarrow> net_event \<Rightarrow> bool" where
  "closes17 lfd e \<longleftrightarrow> ev_fd e \<noteq> lfd \<and>
     (rd_len (ev_recv e) \<le> 0 \<or>
      (let buf = cstr (rd_data (ev_recv e)) in buf \<noteq> [] \<and> hd buf = CHR ''/'' \<and> is_quit17 buf))"

lemma step17_effect:
  assumes wf: "wf17 s" and k: "kernel_ok (listen17 s) (set (fds17 s)) 1023 e"
    and st: "step17 s e = Inr (s', out)"
  shows "wf17 s' \<and> listen17 s' = listen17 s \<and> tab17 s' = abs_step17 (listen17 s) (tab17 s) e \<and>
    set (closed out) = (if closes17 (listen17 s) e then {ev_fd e} else {}) \<and>
    fst ` set (sends out) \<subseteq> set (fds17 s)"
proof (cases "ev_fd e = listen17 s")
  case True
  with st have a: "accept17 s (ev_accept e) = Inr (s', out)" by (simp add: step17_def)
  show ?thesis
  proof (cases "ev_accept e < 0")
    case neg: True
    with a True wf show ?thesis by (simp add: accept17_def abs_step17_def closes17_def)
  next
    case False
    let ?c = "\<lparr>fd17 = ev_accept e, name17 = []\<rparr>"
    have new: "tab17 s (fd17 ?c) = None"
      using k False by (auto simp: kernel_ok_def set_fds17 domIff)
    from a False have p: "push17 ?c s = Inr s'"
      and out: "closed out = []" "fst ` set (sends out) = fd17 ` {c \<in> set (users17 s'). fd17 c \<noteq> ev_accept e}"
      by (auto simp: accept17_def bindR_eq_Inr Let_def image_image)
    from push17_wf [OF wf new p] show ?thesis
      using True False out by (auto simp: abs_step17_def closes17_def fds17_def name_ok17_def NAME_LEN17_def)
  qed
next
  case False
  then have reg: "ev_fd e \<in> set (fds17 s)" using k by (auto simp: kernel_ok_def)
  from False st have c: "client_step17 s (ev_fd e) (ev_recv e) = Inr (s', out)" by (simp add: step17_def)
  show ?thesis
  proof (cases "rd_len (ev_recv e) \<le> 0")
    case True
    with c obtain o1 where rm: "remove_client17 s (ev_fd e) = (s', o1)" and out: "out = o1 @ [Epoll_del (ev_fd e)]"
      by (auto simp: client_step17_def split: prod.splits)
    from remove_client17_effect [OF wf rm] True False out reg show ?thesis
      by (simp add: abs_step17_def closes17_def)
  next
    case pos: False
    let ?buf = "cstr (rd_data (ev_recv e))"
    show ?thesis
    proof (cases "?buf \<noteq> [] \<and> hd ?buf = CHR ''/''")
      case True
      with c pos have h: "handle_command17 s (ev_fd e) ?buf = Inr (s', out)"
        by (auto simp: client_step17_def bindR_eq_Inr terminate_eq_Inr)
      from handle_command17_effect [OF wf reg cstr_no_NUL h] True pos False show ?thesis
        by (auto simp: abs_step17_def closes17_def Let_def)
    next
      case plain: False
      with c pos have "s' = s" "closed out = []" "fst ` set (sends out) \<subseteq> set (fds17 s)"
        by (auto simp: client_step17_def bindR_eq_Inr terminate_eq_Inr Let_def fds17_def)
      with plain pos False wf show ?thesis by (auto simp: abs_step17_def closes17_def Let_def)
    qed
  qed
qed

interpretation chat17: event_server step17 listen17 fds17 wf17 1023
proof
  fix s s' e out
  assume wf: "wf17 s" and k: "kernel_ok (listen17 s) (set (fds17 s)) 1023 e"
    and st: "step17 s e = Inr (s', out)"
  note eff = step17_effect [OF wf k st]
  have reg: "ev_fd e \<in> insert (listen17 s) (dom (tab17 s))" using k by (simp add: kernel_ok_def set_fds17)
  show "wf17 s'" and "listen17 s' = listen17 s" using eff by simp_all
  show "set (fds17 s') = set (fds17 s) \<union> accepted (listen17 s) e - set (closed out)"
    using eff k reg
    by (auto simp: set_fds17 kernel_ok_def abs_step17_def abs_command17_def closes17_def accepted_def
        Let_def is_quit17_def split: if_splits)
  show "set (closed out) \<subseteq> set (fds17 s)"
    using eff reg by (auto simp: set_fds17 closes17_def split: if_splits)
  show "fst ` set (sends out) \<subseteq> set (fds17 s) \<union> accepted (listen17 s) e"
    using eff by auto
next
  fix s assume "wf17 s"
  then show "distinct (fds17 s)" by (auto simp: wf17_def fds17_def users17_def tbl_inv_def)
qed

lemma setup17_state:
  "setup17 lfd = (s0, o0) \<Longrightarrow> wf17 s0 \<and> fds17 s0 = [] \<and> listen17 s0 = lfd \<and> closed o0 = [] \<and> sends o0 = []"
  by (auto simp: setup17_def wf17_def fds17_def users17_def)

section \<open>Properties\<close>

text \<open>
  C2: the array, the counter and the swap-with-last deletion of lab 17 implement a finite map of
  users. Each event changes that map as \<open>abs_step17\<close> says: a new connection adds an unnamed user,
  \<^verbatim>\<open>/nick\<close> renames the sender only, the end of a stream and \<^verbatim>\<open>/quit\<close> remove the sender only, and
  nothing else changes any entry. Names stay within their field and never hold a newline.
\<close>

theorem chat17_refines:
  assumes "wf17 s" and "kernel_ok (listen17 s) (set (fds17 s)) 1023 e" and "step17 s e = Inr (s', out)"
  shows "wf17 s' \<and> tab17 s' = abs_step17 (listen17 s) (tab17 s) e"
  using step17_effect [OF assms] by simp

definition demo17 :: srv17 where
  "demo17 = \<lparr>listen17 = 3,
     clients17 = \<lparr>fd17 = 5, name17 = ''ann''\<rparr> # \<lparr>fd17 = 6, name17 = ''bob''\<rparr>
                 # replicate 1022 \<lparr>fd17 = 0, name17 = []\<rparr>,
     count17 = 2\<rparr>"

lemma demo17_live: "live 2 (clients17 demo17) = [\<lparr>fd17 = 5, name17 = ''ann''\<rparr>, \<lparr>fd17 = 6, name17 = ''bob''\<rparr>]"
  by (simp add: demo17_def live_def)

lemma demo17_wf: "wf17 demo17"
  by (simp add: wf17_def tbl_inv_def demo17_live [unfolded demo17_def, simplified] demo17_def MAX_CLIENTS17_def
      name_ok17_def NAME_LEN17_def)

lemma demo17_users: "users17 demo17 = [\<lparr>fd17 = 5, name17 = ''ann''\<rparr>, \<lparr>fd17 = 6, name17 = ''bob''\<rparr>]"
  "listen17 demo17 = 3" "count17 demo17 = 2"
  using demo17_live by (simp_all add: users17_def demo17_def)

lemma demo17_tab: "tab17 demo17 = [5 \<mapsto> \<lparr>fd17 = 5, name17 = ''ann''\<rparr>, 6 \<mapsto> \<lparr>fd17 = 6, name17 = ''bob''\<rparr>]"
  using demo17_live by (auto simp: tab17_def tbl_def demo17_users)

theorem chat17_refines_witness:
  "\<exists>s' out. step17 demo17 \<lparr>ev_fd = 5, ev_in = True, ev_accept = -1, ev_recv = Got (''/quit'' @ nl)\<rparr> = Inr (s', out)
     \<and> wf17 s' \<and> tab17 s' = [6 \<mapsto> \<lparr>fd17 = 6, name17 = ''bob''\<rparr>]"
proof -
  let ?e = "\<lparr>ev_fd = 5, ev_in = True, ev_accept = -1, ev_recv = Got (''/quit'' @ nl)\<rparr>"
  have k: "kernel_ok (listen17 demo17) (set (fds17 demo17)) 1023 ?e"
    by (simp add: kernel_ok_def fds17_def demo17_users rd_ok_def nl_def)
  have "\<not> is_fault (step17 demo17 ?e)"
    by (simp add: step17_def client_step17_def demo17_users terminate_def BUF_SIZE17_def cstr_def nl_def
        handle_command17_def cmd_list17_def strncmp_eq_def split: option.split prod.split)
  then obtain s' out where st: "step17 demo17 ?e = Inr (s', out)" by (auto simp: not_fault_iff)
  from chat17_refines [OF demo17_wf k st]
  have "wf17 s'" and "tab17 s' = (tab17 demo17)(5 := None)"
    by (simp_all add: abs_step17_def abs_command17_def is_quit17_def strncmp_eq_def demo17_users cstr_def nl_def)
  then show ?thesis using st by (auto simp: demo17_tab fun_eq_iff)
qed

text \<open>
  A private message reaches exactly one client. When a registered client sends
  \<^verbatim>\<open>/msg <target> <text>\<close>, the only bytes sent go to one user whose nickname is the target, or,
  when there is none, the refusal goes back to the sender; no other client receives anything and
  the table is unchanged.
\<close>

theorem chat17_private_message:
  assumes wf: "wf17 s" and reg: "ev_fd e \<in> set (fds17 s)" and fd: "ev_fd e \<noteq> listen17 s"
    and data: "ev_recv e = Got (''/msg '' @ t @ '' '' @ m @ nl)"
    and t: "t \<noteq> []" "set t \<inter> {CHR '' '', NUL} = {}" and m: "m \<noteq> []" "set m \<inter> {NL, NUL} = {}"
    and len: "length t + length m < 1017"
  shows "\<exists>out. step17 s e = Inr (s, out) \<and> closed out = [] \<and>
    (if \<exists>u \<in> set (users17 s). name17 u = t
     then \<exists>u me. u \<in> set (users17 s) \<and> name17 u = t \<and> tab17 s (ev_fd e) = Some me \<and>
        sends out = [(fd17 u, snprintf BUF_SIZE17 (''[PM from ''
          @ (if name17 me \<noteq> [] then name17 me else ''(anon)'') @ ''] '' @ m @ nl))]
     else sends out = [(ev_fd e, ''[Server] User not found.'' @ nl @ [NUL])])"
proof -
  let ?cmd = "''/msg '' @ t @ '' '' @ m @ nl"
  have n: "NUL \<notin> set ?cmd" using t m by (auto simp: nl_def)
  have tm: "terminate BUF_SIZE17 ?cmd = Inr ?cmd"
    using cstr_id [OF n] len by (simp add: terminate_def BUF_SIZE17_def nl_def)
  obtain i where i: "find_last (\<lambda>c. fd17 c = ev_fd e) (clients17 s) (count17 s) = Some i"
    using reg find_fd17(1) [OF wf, of "ev_fd e"]
    by (cases "find_last (\<lambda>c. fd17 c = ev_fd e) (clients17 s) (count17 s)") (auto simp: set_fds17)
  have me: "tab17 s (ev_fd e) = Some (clients17 s ! i)" using find_fd17(2) [OF wf i] by simp
  have "step17 s e = Inr (cmd_msg17 s i (ev_fd e) ?cmd)"
    using fd data tm i
    by (simp add: step17_def client_step17_def handle_command17_def strncmp_eq_def)
  moreover have "strtok '' '' (drop 5 ?cmd) = Some (t, m @ nl)"
    using strtok_word_delim [of t "'' ''" "CHR '' ''" "m @ nl"] t by simp
  moreover have "strtok nl (m @ nl) = Some (m, [])"
    using strtok_word_delim [of m nl NL "[]"] m by (auto simp: nl_def)
  ultimately have st: "step17 s e = Inr (case find_client_by_name17 s t of
      None \<Rightarrow> (s, [send_lit (ev_fd e) (''[Server] User not found.'' @ nl) 26])
    | Some d \<Rightarrow> (s, [Send (fd17 (clients17 s ! d)) (snprintf BUF_SIZE17 (''[PM from ''
          @ (if name17 (clients17 s ! i) \<noteq> [] then name17 (clients17 s ! i) else ''(anon)'') @ ''] '' @ m @ nl))]))"
    by (simp add: cmd_msg17_def Let_def)
  show ?thesis
  proof (cases "find_client_by_name17 s t")
    case None
    then have none: "\<not> (\<exists>u \<in> set (users17 s). name17 u = t)" using find_name17(1) [OF wf, of t] by auto
    show ?thesis using st None none by (simp add: nl_def)
  next
    case (Some d)
    have d: "clients17 s ! d \<in> set (users17 s)" "name17 (clients17 s ! d) = t"
      using find_name17(2) [OF wf Some] by auto
    then have ex: "\<exists>u \<in> set (users17 s). name17 u = t" by blast
    show ?thesis using st Some me ex d by auto
  qed
qed

theorem chat17_private_message_witness:
  "\<exists>out. step17 demo17 \<lparr>ev_fd = 5, ev_in = True, ev_accept = -1, ev_recv = Got (''/msg bob hi'' @ nl)\<rparr> = Inr (demo17, out)
     \<and> map fst (sends out) = [6]"
proof -
  let ?e = "\<lparr>ev_fd = 5, ev_in = True, ev_accept = -1, ev_recv = Got (''/msg bob hi'' @ nl)\<rparr>"
  have reg: "ev_fd ?e \<in> set (fds17 demo17)" by (simp add: fds17_def demo17_users)
  have fd: "ev_fd ?e \<noteq> listen17 demo17" by (simp add: demo17_users)
  have data: "ev_recv ?e = Got (''/msg '' @ ''bob'' @ '' '' @ ''hi'' @ nl)" by simp
  from chat17_private_message [OF demo17_wf reg fd data]
  have "\<exists>out. step17 demo17 ?e = Inr (demo17, out) \<and> closed out = [] \<and>
    (\<exists>u me. u \<in> set (users17 demo17) \<and> name17 u = ''bob'' \<and> tab17 demo17 (ev_fd ?e) = Some me \<and>
        sends out = [(fd17 u, snprintf BUF_SIZE17 (''[PM from ''
          @ (if name17 me \<noteq> [] then name17 me else ''(anon)'') @ ''] '' @ ''hi'' @ nl))])"
    by (simp add: demo17_users)
  then show ?thesis by (auto simp: demo17_users)
qed

text \<open>
  C3: the reply to \<^verbatim>\<open>/list\<close> is built by unchecked \<^verbatim>\<open>strcat\<close> calls in a buffer of 1024 bytes. It
  overflows exactly when the header and the lines of the connected users do not fit, so the
  command is safe with at most 28 users and writes outside the buffer with 200 or more, whatever
  their names.
\<close>

lemma list_parts17_length:
  "length (concat (list_parts17 c)) = 4 + length (if name17 c \<noteq> [] then name17 c else ''(unnamed)'')"
  by (simp add: list_parts17_def nl_def)

lemma cmd_list17_fault:
  "is_fault (cmd_list17 s fd) \<longleftrightarrow>
     1024 \<le> 26 + (\<Sum>c\<leftarrow>users17 s. 4 + length (if name17 c \<noteq> [] then name17 c else ''(unnamed)''))"
proof -
  have "length (concat (concat (map list_parts17 cs)))
      = (\<Sum>c\<leftarrow>cs. 4 + length (if name17 c \<noteq> [] then name17 c else ''(unnamed)''))" for cs
    by (induction cs) (simp_all add: list_parts17_length)
  then show ?thesis
    by (simp add: cmd_list17_def users17_def [symmetric] strcats_eq nl_def BUF_SIZE17_def)
qed

theorem chat17_list_limit:
  assumes wf: "wf17 s"
  shows "(is_fault (cmd_list17 s fd) \<longleftrightarrow>
      1024 \<le> 26 + (\<Sum>c\<leftarrow>users17 s. 4 + length (if name17 c \<noteq> [] then name17 c else ''(unnamed)'')))
    \<and> (200 \<le> length (users17 s) \<longrightarrow> is_fault (cmd_list17 s fd))
    \<and> (length (users17 s) \<le> 28 \<longrightarrow> \<not> is_fault (cmd_list17 s fd))"
proof -
  let ?f = "\<lambda>c. 4 + length (if name17 c \<noteq> [] then name17 c else ''(unnamed)'')"
  have "\<forall>c \<in> set (users17 s). 5 \<le> ?f c" by (auto simp: Suc_le_eq)
  from sum_list_ge [OF this] have lo: "length (users17 s) * 5 \<le> (\<Sum>c\<leftarrow>users17 s. ?f c)" .
  have "\<forall>c \<in> set (users17 s). ?f c \<le> 35"
    using wf17D(2) [OF wf] by (fastforce simp: name_ok17_def NAME_LEN17_def)
  from sum_list_le [OF this] have hi: "(\<Sum>c\<leftarrow>users17 s. ?f c) \<le> length (users17 s) * 35" .
  from lo hi show ?thesis unfolding cmd_list17_fault by linarith
qed

definition crowd17 :: srv17 where
  "crowd17 = \<lparr>listen17 = 3, clients17 = map (\<lambda>i. \<lparr>fd17 = 4 + int i, name17 = []\<rparr>) [0..<1024], count17 = 200\<rparr>"

theorem chat17_list_limit_witness:
  "is_fault (cmd_list17 crowd17 4) \<and> \<not> is_fault (cmd_list17 demo17 5)"
proof -
  have "live 200 (clients17 crowd17) = map (\<lambda>i. \<lparr>fd17 = 4 + int i, name17 = []\<rparr>) [0..<200]"
    by (simp add: crowd17_def live_def take_map)
  then have "wf17 crowd17" and "length (users17 crowd17) = 200"
    by (simp_all add: wf17_def tbl_inv_def users17_def crowd17_def MAX_CLIENTS17_def name_ok17_def NAME_LEN17_def
        comp_def distinct_map inj_on_def)
  then have "is_fault (cmd_list17 crowd17 4)" using chat17_list_limit [of crowd17 4] by linarith
  moreover have "\<not> is_fault (cmd_list17 demo17 5)"
    using chat17_list_limit [OF demo17_wf, of 5] by (simp add: demo17_users)
  ultimately show ?thesis by blast
qed

text \<open>
  The command server of lab 17 loses no descriptor either. Whatever the clients send, every
  accepted descriptor is in the table or has been closed, and no bytes are ever sent to a
  descriptor that is not an accepted client.
\<close>

theorem chat17_no_leak:
  assumes env: "env_run (\<lambda>s. kernel_ok (listen17 s) (set (fds17 s)) 1023) step17 (fst (setup17 lfd)) es"
    and r: "server17 lfd es = Inr (s, out)"
  shows "all_accepted lfd es = set (fds17 s) \<union> set (closed out) \<and> distinct (fds17 s)
    \<and> fst ` set (sends out) \<subseteq> all_accepted lfd es"
proof -
  obtain s0 o0 where s0: "setup17 lfd = (s0, o0)" by fastforce
  note init = setup17_state [OF s0]
  from r s0 obtain o1 where r1: "run step17 s0 es = Inr (s, o1)" and out: "out = o0 @ o1"
    by (auto simp: server17_def bindR_eq_Inr)
  show ?thesis
    using chat17.run_no_leak [OF _ _ r1] chat17.run_wf [OF _ _ r1] chat17.run_sends [OF _ _ r1]
      chat17.fds_distinct init env s0 out
    by auto
qed

theorem chat17_no_leak_witness:
  "\<exists>s out. server17 3 [\<lparr>ev_fd = 3, ev_in = True, ev_accept = 5, ev_recv = Fail\<rparr>] = Inr (s, out)
     \<and> {5} = set (fds17 s) \<union> set (closed out)"
proof -
  let ?e = "\<lparr>ev_fd = 3, ev_in = True, ev_accept = 5, ev_recv = Fail\<rparr>"
  have env: "env_run (\<lambda>s. kernel_ok (listen17 s) (set (fds17 s)) 1023) step17 (fst (setup17 3)) [?e]"
    by (simp add: setup17_def kernel_ok_def fds17_def users17_def rd_ok_def split: sum.split)
  have "\<not> is_fault (server17 3 [?e])"
    by (simp add: server17_def setup17_def step17_def accept17_def push17_def arr_set_def Let_def MAX_CLIENTS17_def)
  then obtain s out where r: "server17 3 [?e] = Inr (s, out)" by (auto simp: not_fault_iff)
  have "all_accepted 3 [?e] = {5}" by (simp add: accepted_def)
  with chat17_no_leak [OF env r] r show ?thesis by auto
qed

end
