(* ===== verification/Chat18_Room.thy ===== *)
theory Chat18_Room
  imports Counted_Table
begin

text \<open>
  \<^verbatim>\<open>03_networking/lab_18_room_chat_server/src/server.c\<close>: the chat server with rooms. The state and
  the shape follow lab 17, with a room per client; \<open>broadcast_room18\<close> sends to the members of one
  room. The last sections prove the refinement to a finite map and the isolation of the rooms.
\<close>

section \<open>The model\<close>

record client18 =
  fd18 :: int
  name18 :: string
  room18 :: string

record srv18 =
  listen18 :: int
  clients18 :: "client18 list"
  count18 :: nat

definition MAX_CLIENTS18 :: nat where "MAX_CLIENTS18 = 1024"
definition BUF_SIZE18 :: nat where "BUF_SIZE18 = 1024"
definition NAME_LEN18 :: nat where "NAME_LEN18 = 32"
definition ROOM_LEN18 :: nat where "ROOM_LEN18 = 32"

definition find_client_by_fd18 :: "srv18 \<Rightarrow> int \<Rightarrow> nat option" where
  "find_client_by_fd18 s fd = find_first (\<lambda>c. fd18 c = fd) (clients18 s) (count18 s)"

definition broadcast_room18 :: "srv18 \<Rightarrow> string \<Rightarrow> string \<Rightarrow> int \<Rightarrow> sys list" where
  "broadcast_room18 s room msg exclude_fd =
     map (\<lambda>c. Send (fd18 c) msg)
       (filter (\<lambda>c. room18 c = room \<and> fd18 c \<noteq> exclude_fd) (live (count18 s) (clients18 s)))"

definition remove_client18 :: "srv18 \<Rightarrow> int \<Rightarrow> srv18 \<times> sys list" where
  "remove_client18 s fd =
     (case find_first (\<lambda>c. fd18 c = fd) (clients18 s) (count18 s) of
        None \<Rightarrow> (s, [])
      | Some i \<Rightarrow>
          (s\<lparr>clients18 := (clients18 s)[i := clients18 s ! (count18 s - 1)], count18 := count18 s - 1\<rparr>,
           [Print (''[Server] Client '' @ name18 (clients18 s ! i) @ '' disconnected'' @ nl), Close fd]))"

definition set_entry18 :: "srv18 \<Rightarrow> nat \<Rightarrow> client18 \<Rightarrow> srv18" where
  "set_entry18 s i c = s\<lparr>clients18 := (clients18 s)[i := c]\<rparr>"

definition quoted :: "string \<Rightarrow> string" where
  "quoted t = [CHR 0x27] @ t @ [CHR 0x27]"

definition cmd_nick18 :: "srv18 \<Rightarrow> nat \<Rightarrow> int \<Rightarrow> string \<Rightarrow> srv18 \<times> sys list" where
  "cmd_nick18 s i fd cmd =
     (let name = chop nl (drop 6 cmd);
          c = (clients18 s ! i)\<lparr>name18 := snprintf NAME_LEN18 name\<rparr>
      in (set_entry18 s i c,
          [Send fd (snprintf BUF_SIZE18 (''[Server] Nickname set to '' @ quoted (name18 c) @ nl))]))"

definition cmd_join18 :: "srv18 \<Rightarrow> nat \<Rightarrow> int \<Rightarrow> string \<Rightarrow> srv18 \<times> sys list" where
  "cmd_join18 s i fd cmd =
     (let room = chop nl (drop 6 cmd);
          c = (clients18 s ! i)\<lparr>room18 := snprintf ROOM_LEN18 room\<rparr>;
          s' = set_entry18 s i c
      in (s', Send fd (snprintf BUF_SIZE18 (''[Server] Joined room '' @ quoted room @ nl))
              # broadcast_room18 s' room
                  (snprintf BUF_SIZE18 (''[Server] '' @ name18 c @ '' joined the room.'' @ nl)) fd))"

definition cmd_leave18 :: "srv18 \<Rightarrow> nat \<Rightarrow> int \<Rightarrow> srv18 \<times> sys list" where
  "cmd_leave18 s i fd =
     (let self = clients18 s ! i
      in if room18 self \<noteq> []
         then (set_entry18 s i (self\<lparr>room18 := []\<rparr>),
               broadcast_room18 s (room18 self)
                 (snprintf BUF_SIZE18 (''[Server] '' @ name18 self @ '' left room '' @ quoted (room18 self) @ nl)) fd
               @ [send_lit fd (''[Server] You left the room.'' @ nl) 29])
         else (s, [send_lit fd (''[Server] You are not in any room.'' @ nl) 34]))"

definition list_parts18 :: "client18 \<Rightarrow> string list" where
  "list_parts18 c = ['' - '', (if name18 c \<noteq> [] then name18 c else ''(unnamed)''), nl]"

definition cmd_list18 :: "srv18 \<Rightarrow> nat \<Rightarrow> int \<Rightarrow> (srv18 \<times> sys list) res" where
  "cmd_list18 s i fd =
     bindR (strcats BUF_SIZE18 (''[Server] Users in your room:'' @ nl)
             (concat (map list_parts18
               (filter (\<lambda>c. room18 c = room18 (clients18 s ! i)) (live (count18 s) (clients18 s))))))
       (\<lambda>response. Inr (s, [Send fd response]))"

definition handle_command18 :: "srv18 \<Rightarrow> int \<Rightarrow> string \<Rightarrow> (srv18 \<times> sys list) res" where
  "handle_command18 s fd cmd =
     (case find_client_by_fd18 s fd of
        None \<Rightarrow> Inr (s, [])
      | Some i \<Rightarrow>
          if strncmp_eq cmd ''/nick '' 6 then Inr (cmd_nick18 s i fd cmd)
          else if strncmp_eq cmd ''/join '' 6 then Inr (cmd_join18 s i fd cmd)
          else if strncmp_eq cmd ''/leave'' 6 then Inr (cmd_leave18 s i fd)
          else if strncmp_eq cmd ''/list'' 5 then cmd_list18 s i fd
          else if strncmp_eq cmd ''/quit'' 5 then
            (case remove_client18 s fd of (s', out) \<Rightarrow>
               Inr (s', send_lit fd (''[Server] Bye!'' @ nl) 14 # out))
          else Inr (s, [send_lit fd (''[Server] Unknown command.'' @ nl) 26]))"

definition setup18 :: "int \<Rightarrow> srv18 \<times> sys list" where
  "setup18 listen_fd =
     (\<lparr>listen18 = listen_fd,
       clients18 = replicate MAX_CLIENTS18 \<lparr>fd18 = 0, name18 = [], room18 = []\<rparr>, count18 = 0\<rparr>,
      [Socket_stream, Nonblock listen_fd, Bind listen_fd 9090, Listen listen_fd 128, Epoll_create,
       Epoll_add listen_fd False,
       Print (''[Server] Room-Based Chat Server started on port '' @ show_int 9090 @ nl)])"

definition enter18 :: "int \<Rightarrow> srv18 \<Rightarrow> srv18 res" where
  "enter18 fd s = bindR (arr_set (clients18 s) (count18 s) \<lparr>fd18 = fd, name18 = [], room18 = []\<rparr>)
     (\<lambda>cl. Inr (s\<lparr>clients18 := cl, count18 := count18 s + 1\<rparr>))"

definition accept18 :: "srv18 \<Rightarrow> int \<Rightarrow> (srv18 \<times> sys list) res" where
  "accept18 s client_fd =
     (if client_fd < 0 then Inr (s, [])
      else bindR (enter18 client_fd s) (\<lambda>s'.
        Inr (s', [Nonblock client_fd, Epoll_add client_fd True,
                  Print (''[Server] New connection (fd='' @ show_int client_fd @ '')'' @ nl),
                  send_lit client_fd (''[Server] Welcome! Use /nick, /join, /list, /quit.'' @ nl) 50])))"

definition say18 :: "srv18 \<Rightarrow> int \<Rightarrow> string \<Rightarrow> sys list" where
  "say18 s fd buf =
     (let refusal = [send_lit fd (''[Server] Join a room first using /join <room>'' @ nl) 46]
      in case find_client_by_fd18 s fd of
           None \<Rightarrow> refusal
         | Some i \<Rightarrow>
             (let sender = clients18 s ! i
              in if room18 sender = [] then refusal
                 else broadcast_room18 s (room18 sender)
                   (snprintf BUF_SIZE18 (''['' @ (if name18 sender \<noteq> [] then name18 sender else ''anon'')
                     @ '':'' @ room18 sender @ ''] '' @ buf)) fd))"

definition client_step18 :: "srv18 \<Rightarrow> int \<Rightarrow> rd \<Rightarrow> (srv18 \<times> sys list) res" where
  "client_step18 s fd r =
     (if rd_len r \<le> 0
      then (case remove_client18 s fd of (s', out) \<Rightarrow> Inr (s', out @ [Epoll_del fd]))
      else bindR (terminate BUF_SIZE18 (rd_data r)) (\<lambda>buf.
        if buf \<noteq> [] \<and> hd buf = CHR ''/'' then handle_command18 s fd buf
        else Inr (s, say18 s fd buf)))"

definition step18 :: "srv18 \<Rightarrow> net_event \<Rightarrow> (srv18 \<times> sys list) res" where
  "step18 s e =
     (if ev_fd e = listen18 s then accept18 s (ev_accept e) else client_step18 s (ev_fd e) (ev_recv e))"

definition server18 :: "int \<Rightarrow> net_event list \<Rightarrow> (srv18 \<times> sys list) res" where
  "server18 listen_fd es =
     (case setup18 listen_fd of (s0, o0) \<Rightarrow>
        bindR (run step18 s0 es) (\<lambda>(s, out). Inr (s, o0 @ out)))"

section \<open>The table of clients\<close>

definition entry_ok18 :: "client18 \<Rightarrow> bool" where
  "entry_ok18 c \<longleftrightarrow> length (name18 c) < NAME_LEN18 \<and> length (room18 c) < ROOM_LEN18"

definition wf18 :: "srv18 \<Rightarrow> bool" where
  "wf18 s \<longleftrightarrow> tbl_inv fd18 MAX_CLIENTS18 (count18 s) (clients18 s)
     \<and> (\<forall>c \<in> set (live (count18 s) (clients18 s)). entry_ok18 c)"

definition users18 :: "srv18 \<Rightarrow> client18 list" where
  "users18 s = live (count18 s) (clients18 s)"

definition fds18 :: "srv18 \<Rightarrow> int list" where
  "fds18 s = map fd18 (users18 s)"

definition tab18 :: "srv18 \<Rightarrow> int \<Rightarrow> client18 option" where
  "tab18 s = tbl fd18 (count18 s) (clients18 s)"

definition drop18 :: "int \<Rightarrow> srv18 \<Rightarrow> srv18" where
  "drop18 fd s = fst (remove_client18 s fd)"

lemma wf18D:
  assumes "wf18 s"
  shows "tbl_inv fd18 MAX_CLIENTS18 (count18 s) (clients18 s)"
    and "c \<in> set (users18 s) \<Longrightarrow> entry_ok18 c"
    and "count18 s \<le> length (clients18 s)"
  using assms by (auto simp: wf18_def users18_def)

lemma set_fds18: "set (fds18 s) = dom (tab18 s)"
  by (simp add: fds18_def users18_def tab18_def dom_tbl)

lemma remove_client18_effect:
  assumes wf: "wf18 s" and r: "remove_client18 s fd = (s', out)"
  shows "wf18 s' \<and> listen18 s' = listen18 s \<and> tab18 s' = (tab18 s)(fd := None) \<and> sends out = [] \<and>
    set (closed out) = (if fd \<in> set (fds18 s) then {fd} else {})"
proof -
  have rm: "tbl_remove fd18 fd (count18 s) (clients18 s) = (count18 s', clients18 s')"
    and rest: "listen18 s' = listen18 s" "sends out = []"
      "set (closed out) = (if fd \<in> set (fds18 s) then {fd} else {})"
    using r find_first_tbl [OF wf18D(1) [OF wf], of fd]
    by (auto simp: remove_client18_def tbl_remove_def tab18_def set_fds18 split: option.splits)
  show ?thesis
    using tbl_inv_remove [OF wf18D(1) [OF wf] rm] tbl_remove [OF wf18D(1) [OF wf] rm]
      tbl_remove_set [OF wf18D(1) [OF wf] rm] wf rest
    by (auto simp: wf18_def tab18_def)
qed

lemma enter18_effect:
  assumes "wf18 s" and "tab18 s fd = None" and "enter18 fd s = Inr s'"
  shows "wf18 s' \<and> tab18 s' = (tab18 s)(fd \<mapsto> \<lparr>fd18 = fd, name18 = [], room18 = []\<rparr>) \<and> listen18 s' = listen18 s"
proof -
  let ?c = "\<lparr>fd18 = fd, name18 = [], room18 = []\<rparr>"
  have room: "count18 s < MAX_CLIENTS18" "count18 s < length (clients18 s)"
    and s': "s' = s\<lparr>clients18 := (clients18 s)[count18 s := ?c], count18 := count18 s + 1\<rparr>"
    using assms by (auto simp: enter18_def wf18_def tbl_inv_def bindR_eq_Inr arr_set_eq_Inr)
  show ?thesis
    using assms room tbl_inv_push [OF wf18D(1) [OF assms(1)], of ?c] tbl_push [OF wf18D(1) [OF assms(1)], of ?c]
    by (auto simp: s' wf18_def tab18_def entry_ok18_def NAME_LEN18_def ROOM_LEN18_def)
qed

lemma set_entry18_effect:
  assumes wf: "wf18 s" and i: "i < count18 s" "fd18 c = fd18 (clients18 s ! i)" and ok: "entry_ok18 c"
  shows "wf18 (set_entry18 s i c) \<and> listen18 (set_entry18 s i c) = listen18 s \<and>
    tab18 (set_entry18 s i c) = (tab18 s)(fd18 c \<mapsto> c) \<and>
    set (fds18 (set_entry18 s i c)) = set (fds18 s)"
proof -
  note t = wf18D(1) [OF wf]
  have "set (live (count18 s) ((clients18 s)[i := c])) \<subseteq> insert c (set (live (count18 s) (clients18 s)))"
    using i by (simp add: live_update set_update_subset_insert)
  moreover have "tab18 s (fd18 c) \<noteq> None" using tbl_nth [OF t i(1)] i(2) by (simp add: tab18_def)
  ultimately show ?thesis
    using tbl_inv_update [OF t i] tbl_update [OF t i] wf ok
    by (auto simp: set_entry18_def wf18_def tab18_def set_fds18)
qed

interpretation table18: client_table tab18 wf18 "\<lambda>fd. \<lparr>fd18 = fd, name18 = [], room18 = []\<rparr>" enter18 drop18
proof
  fix s s' fd
  assume "wf18 s" and "tab18 s fd = None" and "enter18 fd s = Inr s'"
  from enter18_effect [OF this]
  show "wf18 s'" and "tab18 s' = (tab18 s)(fd \<mapsto> \<lparr>fd18 = fd, name18 = [], room18 = []\<rparr>)" by simp_all
next
  fix s fd
  assume wf: "wf18 s"
  obtain s' out where r: "remove_client18 s fd = (s', out)" by fastforce
  from remove_client18_effect [OF wf r] r
  show "wf18 (drop18 fd s)" and "tab18 (drop18 fd s) = (tab18 s)(fd := None)"
    by (simp_all add: drop18_def)
qed

lemma find_fd18:
  assumes "wf18 s"
  shows "find_client_by_fd18 s fd = None \<longleftrightarrow> tab18 s fd = None"
    and "find_client_by_fd18 s fd = Some i \<Longrightarrow>
      i < count18 s \<and> fd18 (clients18 s ! i) = fd \<and> tab18 s fd = Some (clients18 s ! i)
      \<and> clients18 s ! i \<in> set (users18 s)"
  using find_first_tbl [OF wf18D(1) [OF assms], of fd] wf18D(3) [OF assms]
  by (auto simp: tab18_def users18_def find_client_by_fd18_def in_set_live)

lemma broadcast_room18_sends [simp]:
  "sends (broadcast_room18 s room msg ex)
     = map (\<lambda>c. (fd18 c, msg)) (filter (\<lambda>c. room18 c = room \<and> fd18 c \<noteq> ex) (users18 s))"
  "closed (broadcast_room18 s room msg ex) = []"
  by (simp_all add: broadcast_room18_def users18_def)

section \<open>Commands on the abstract table\<close>

text \<open>The same commands on a finite map: each touches the sender's entry only.\<close>

definition is_nick18 :: "string \<Rightarrow> bool" where
  "is_nick18 cmd \<longleftrightarrow> strncmp_eq cmd ''/nick '' 6"

definition is_join18 :: "string \<Rightarrow> bool" where
  "is_join18 cmd \<longleftrightarrow> \<not> is_nick18 cmd \<and> strncmp_eq cmd ''/join '' 6"

definition is_leave18 :: "string \<Rightarrow> bool" where
  "is_leave18 cmd \<longleftrightarrow> \<not> is_nick18 cmd \<and> \<not> is_join18 cmd \<and> strncmp_eq cmd ''/leave'' 6"

definition is_list18 :: "string \<Rightarrow> bool" where
  "is_list18 cmd \<longleftrightarrow> \<not> is_nick18 cmd \<and> \<not> is_join18 cmd \<and> \<not> is_leave18 cmd \<and> strncmp_eq cmd ''/list'' 5"

definition is_quit18 :: "string \<Rightarrow> bool" where
  "is_quit18 cmd \<longleftrightarrow> \<not> is_nick18 cmd \<and> \<not> is_join18 cmd \<and> \<not> is_leave18 cmd \<and> \<not> is_list18 cmd
     \<and> strncmp_eq cmd ''/quit'' 5"

lemmas kinds18 = is_quit18_def is_list18_def is_leave18_def is_join18_def is_nick18_def

definition abs_command18 :: "(int \<Rightarrow> client18 option) \<Rightarrow> int \<Rightarrow> string \<Rightarrow> int \<Rightarrow> client18 option" where
  "abs_command18 m fd cmd =
     (if is_nick18 cmd
      then m(fd := map_option (\<lambda>c. c\<lparr>name18 := snprintf NAME_LEN18 (chop nl (drop 6 cmd))\<rparr>) (m fd))
      else if is_join18 cmd
      then m(fd := map_option (\<lambda>c. c\<lparr>room18 := snprintf ROOM_LEN18 (chop nl (drop 6 cmd))\<rparr>) (m fd))
      else if is_leave18 cmd then m(fd := map_option (\<lambda>c. c\<lparr>room18 := []\<rparr>) (m fd))
      else if is_quit18 cmd then m(fd := None) else m)"

definition abs_step18 :: "int \<Rightarrow> (int \<Rightarrow> client18 option) \<Rightarrow> net_event \<Rightarrow> int \<Rightarrow> client18 option" where
  "abs_step18 lfd m e =
     (if ev_fd e = lfd
      then (if ev_accept e < 0 then m
            else m(ev_accept e \<mapsto> \<lparr>fd18 = ev_accept e, name18 = [], room18 = []\<rparr>))
      else if rd_len (ev_recv e) \<le> 0 then m(ev_fd e := None)
      else let buf = cstr (rd_data (ev_recv e))
           in if buf \<noteq> [] \<and> hd buf = CHR ''/'' then abs_command18 m (ev_fd e) buf else m)"

lemma cmd_nick18_effect:
  assumes wf: "wf18 s" and i: "i < count18 s" "fd18 (clients18 s ! i) = fd" and r: "cmd_nick18 s i fd cmd = (s', out)"
  shows "wf18 s' \<and> listen18 s' = listen18 s \<and>
     tab18 s' = (tab18 s)(fd := map_option (\<lambda>c. c\<lparr>name18 := snprintf NAME_LEN18 (chop nl (drop 6 cmd))\<rparr>) (tab18 s fd)) \<and>
     closed out = [] \<and> fst ` set (sends out) \<subseteq> {fd}"
proof -
  let ?c = "(clients18 s ! i)\<lparr>name18 := snprintf NAME_LEN18 (chop nl (drop 6 cmd))\<rparr>"
  have old: "tab18 s fd = Some (clients18 s ! i)" "entry_ok18 (clients18 s ! i)"
    using tbl_nth [OF wf18D(1) [OF wf] i(1)] i wf18D(2) [OF wf] wf18D(3) [OF wf]
    by (auto simp: tab18_def users18_def in_set_live)
  have "entry_ok18 ?c" using old by (simp add: entry_ok18_def length_snprintf NAME_LEN18_def)
  from set_entry18_effect [OF wf i(1) _ this] i r old show ?thesis
    by (auto simp: cmd_nick18_def Let_def)
qed

lemma cmd_join18_effect:
  assumes wf: "wf18 s" and i: "i < count18 s" "fd18 (clients18 s ! i) = fd" and r: "cmd_join18 s i fd cmd = (s', out)"
  shows "wf18 s' \<and> listen18 s' = listen18 s \<and>
     tab18 s' = (tab18 s)(fd := map_option (\<lambda>c. c\<lparr>room18 := snprintf ROOM_LEN18 (chop nl (drop 6 cmd))\<rparr>) (tab18 s fd)) \<and>
     closed out = [] \<and> fst ` set (sends out) \<subseteq> set (fds18 s)"
proof -
  let ?c = "(clients18 s ! i)\<lparr>room18 := snprintf ROOM_LEN18 (chop nl (drop 6 cmd))\<rparr>"
  have old: "tab18 s fd = Some (clients18 s ! i)" "entry_ok18 (clients18 s ! i)"
    using tbl_nth [OF wf18D(1) [OF wf] i(1)] i wf18D(2) [OF wf] wf18D(3) [OF wf]
    by (auto simp: tab18_def users18_def in_set_live)
  have "entry_ok18 ?c" using old by (simp add: entry_ok18_def length_snprintf ROOM_LEN18_def)
  note eff = set_entry18_effect [OF wf i(1) _ this]
  have s': "s' = set_entry18 s i ?c" and "closed out = []"
    and "fst ` set (sends out) \<subseteq> insert fd (set (fds18 s'))"
    using r by (auto simp: cmd_join18_def Let_def fds18_def)
  moreover have "fd \<in> set (fds18 s)" using old by (auto simp: set_fds18)
  ultimately show ?thesis using eff i old by auto
qed

lemma cmd_leave18_effect:
  assumes wf: "wf18 s" and i: "i < count18 s" "fd18 (clients18 s ! i) = fd" and r: "cmd_leave18 s i fd = (s', out)"
  shows "wf18 s' \<and> listen18 s' = listen18 s \<and>
     tab18 s' = (tab18 s)(fd := map_option (\<lambda>c. c\<lparr>room18 := []\<rparr>) (tab18 s fd)) \<and>
     closed out = [] \<and> fst ` set (sends out) \<subseteq> set (fds18 s)"
proof -
  let ?c = "(clients18 s ! i)\<lparr>room18 := []\<rparr>"
  have old: "tab18 s fd = Some (clients18 s ! i)" "entry_ok18 (clients18 s ! i)"
    using tbl_nth [OF wf18D(1) [OF wf] i(1)] i wf18D(2) [OF wf] wf18D(3) [OF wf]
    by (auto simp: tab18_def users18_def in_set_live)
  have fd: "fd \<in> set (fds18 s)" using old by (auto simp: set_fds18)
  show ?thesis
  proof (cases "room18 (clients18 s ! i) = []")
    case True
    then have "(clients18 s ! i)\<lparr>room18 := []\<rparr> = clients18 s ! i" by simp
    with True r wf old fd show ?thesis by (auto simp: cmd_leave18_def Let_def)
  next
    case False
    have "entry_ok18 ?c" using old by (simp add: entry_ok18_def ROOM_LEN18_def)
    from set_entry18_effect [OF wf i(1) _ this] i r old False fd show ?thesis
      by (auto simp: cmd_leave18_def Let_def fds18_def)
  qed
qed

lemma cmd_list18_effect: "cmd_list18 s i fd = Inr (s', out) \<Longrightarrow>
    s' = s \<and> closed out = [] \<and> fst ` set (sends out) = {fd}"
  by (auto simp: cmd_list18_def bindR_eq_Inr)

lemma handle_command18_effect:
  assumes wf: "wf18 s" and fd: "fd \<in> set (fds18 s)" and r: "handle_command18 s fd cmd = Inr (s', out)"
  shows "wf18 s' \<and> listen18 s' = listen18 s \<and> tab18 s' = abs_command18 (tab18 s) fd cmd \<and>
    set (closed out) = (if is_quit18 cmd then {fd} else {}) \<and> fst ` set (sends out) \<subseteq> set (fds18 s)"
proof -
  obtain i where i: "find_client_by_fd18 s fd = Some i"
    using fd find_fd18(1) [OF wf, of fd] by (cases "find_client_by_fd18 s fd") (auto simp: set_fds18)
  have idx: "i < count18 s" "fd18 (clients18 s ! i) = fd" using find_fd18(2) [OF wf i] by auto
  consider (nick) "is_nick18 cmd" | (join) "is_join18 cmd" "\<not> is_nick18 cmd"
    | (leave) "is_leave18 cmd" "\<not> is_nick18 cmd" "\<not> is_join18 cmd"
    | (list) "is_list18 cmd" "\<not> is_nick18 cmd" "\<not> is_join18 cmd" "\<not> is_leave18 cmd"
    | (quit) "is_quit18 cmd" "\<not> is_nick18 cmd" "\<not> is_join18 cmd" "\<not> is_leave18 cmd" "\<not> is_list18 cmd"
    | (unknown) "\<not> is_quit18 cmd" "\<not> is_nick18 cmd" "\<not> is_join18 cmd" "\<not> is_leave18 cmd" "\<not> is_list18 cmd"
    by blast
  then show ?thesis
  proof cases
    case nick
    then have "cmd_nick18 s i fd cmd = (s', out)" using r i by (simp add: handle_command18_def kinds18)
    from cmd_nick18_effect [OF wf idx this] nick fd show ?thesis
      by (auto simp: abs_command18_def is_quit18_def)
  next
    case join
    then have "cmd_join18 s i fd cmd = (s', out)" using r i by (simp add: handle_command18_def kinds18)
    from cmd_join18_effect [OF wf idx this] join fd show ?thesis
      by (auto simp: abs_command18_def is_quit18_def)
  next
    case leave
    then have "cmd_leave18 s i fd = (s', out)" using r i by (simp add: handle_command18_def kinds18)
    from cmd_leave18_effect [OF wf idx this] leave fd show ?thesis
      by (auto simp: abs_command18_def is_quit18_def)
  next
    case list
    then have "cmd_list18 s i fd = Inr (s', out)" using r i by (simp add: handle_command18_def kinds18)
    from cmd_list18_effect [OF this] list fd wf show ?thesis
      by (auto simp: abs_command18_def is_quit18_def)
  next
    case quit
    then obtain out' where rm: "remove_client18 s fd = (s', out')"
      and out: "out = send_lit fd (''[Server] Bye!'' @ nl) 14 # out'"
      using r i by (auto simp: handle_command18_def kinds18 split: prod.splits)
    from remove_client18_effect [OF wf rm] quit fd out show ?thesis
      by (auto simp: abs_command18_def)
  next
    case unknown
    then have "s' = s" "out = [send_lit fd (''[Server] Unknown command.'' @ nl) 26]"
      using r i by (auto simp: handle_command18_def kinds18)
    with unknown fd wf show ?thesis by (auto simp: abs_command18_def)
  qed
qed

lemma say18_effect:
  assumes "wf18 s" and "fd \<in> set (fds18 s)"
  shows "closed (say18 s fd buf) = [] \<and> fst ` set (sends (say18 s fd buf)) \<subseteq> set (fds18 s)"
  using assms by (auto simp: say18_def Let_def fds18_def split: option.splits)

section \<open>The loop body\<close>

definition closes18 :: "int \<Rightarrow> net_event \<Rightarrow> bool" where
  "closes18 lfd e \<longleftrightarrow> ev_fd e \<noteq> lfd \<and>
     (rd_len (ev_recv e) \<le> 0 \<or>
      (let buf = cstr (rd_data (ev_recv e)) in buf \<noteq> [] \<and> hd buf = CHR ''/'' \<and> is_quit18 buf))"

lemma step18_effect:
  assumes wf: "wf18 s" and k: "kernel_ok (listen18 s) (set (fds18 s)) 1023 e"
    and st: "step18 s e = Inr (s', out)"
  shows "wf18 s' \<and> listen18 s' = listen18 s \<and> tab18 s' = abs_step18 (listen18 s) (tab18 s) e \<and>
    set (closed out) = (if closes18 (listen18 s) e then {ev_fd e} else {}) \<and>
    fst ` set (sends out) \<subseteq> set (fds18 s) \<union> accepted (listen18 s) e"
proof (cases "ev_fd e = listen18 s")
  case True
  with st have a: "accept18 s (ev_accept e) = Inr (s', out)" by (simp add: step18_def)
  show ?thesis
  proof (cases "ev_accept e < 0")
    case neg: True
    with a True wf show ?thesis by (simp add: accept18_def abs_step18_def closes18_def)
  next
    case False
    have new: "tab18 s (ev_accept e) = None" using k False by (auto simp: kernel_ok_def set_fds18 domIff)
    from a False have p: "enter18 (ev_accept e) s = Inr s'"
      and out: "closed out = []" "fst ` set (sends out) = {ev_accept e}"
      by (auto simp: accept18_def bindR_eq_Inr)
    from enter18_effect [OF wf new p] show ?thesis
      using True False out by (simp add: abs_step18_def closes18_def accepted_def)
  qed
next
  case False
  then have reg: "ev_fd e \<in> set (fds18 s)" using k by (auto simp: kernel_ok_def)
  from False st have c: "client_step18 s (ev_fd e) (ev_recv e) = Inr (s', out)" by (simp add: step18_def)
  show ?thesis
  proof (cases "rd_len (ev_recv e) \<le> 0")
    case True
    with c obtain o1 where rm: "remove_client18 s (ev_fd e) = (s', o1)" and out: "out = o1 @ [Epoll_del (ev_fd e)]"
      by (auto simp: client_step18_def split: prod.splits)
    from remove_client18_effect [OF wf rm] True False out reg show ?thesis
      by (simp add: abs_step18_def closes18_def)
  next
    case pos: False
    let ?buf = "cstr (rd_data (ev_recv e))"
    show ?thesis
    proof (cases "?buf \<noteq> [] \<and> hd ?buf = CHR ''/''")
      case True
      with c pos have h: "handle_command18 s (ev_fd e) ?buf = Inr (s', out)"
        by (auto simp: client_step18_def bindR_eq_Inr terminate_eq_Inr)
      from handle_command18_effect [OF wf reg h] True pos False show ?thesis
        by (auto simp: abs_step18_def closes18_def Let_def)
    next
      case plain: False
      with c pos have "s' = s" "out = say18 s (ev_fd e) ?buf"
        by (auto simp: client_step18_def bindR_eq_Inr terminate_eq_Inr)
      with plain pos False wf say18_effect [OF wf reg, of ?buf] show ?thesis
        by (auto simp: abs_step18_def closes18_def Let_def)
    qed
  qed
qed

interpretation chat18: event_server step18 listen18 fds18 wf18 1023
proof
  fix s s' e out
  assume wf: "wf18 s" and k: "kernel_ok (listen18 s) (set (fds18 s)) 1023 e"
    and st: "step18 s e = Inr (s', out)"
  note eff = step18_effect [OF wf k st]
  have reg: "ev_fd e \<in> insert (listen18 s) (dom (tab18 s))" using k by (simp add: kernel_ok_def set_fds18)
  show "wf18 s'" and "listen18 s' = listen18 s" using eff by simp_all
  show "set (fds18 s') = set (fds18 s) \<union> accepted (listen18 s) e - set (closed out)"
    using eff k reg
    by (auto simp: set_fds18 kernel_ok_def abs_step18_def abs_command18_def closes18_def accepted_def
        Let_def is_quit18_def split: if_splits)
  show "set (closed out) \<subseteq> set (fds18 s)"
    using eff reg by (auto simp: set_fds18 closes18_def split: if_splits)
  show "fst ` set (sends out) \<subseteq> set (fds18 s) \<union> accepted (listen18 s) e"
    using eff by simp
next
  fix s assume "wf18 s"
  then show "distinct (fds18 s)" by (auto simp: wf18_def fds18_def users18_def tbl_inv_def)
qed

lemma setup18_state:
  "setup18 lfd = (s0, o0) \<Longrightarrow> wf18 s0 \<and> fds18 s0 = [] \<and> listen18 s0 = lfd \<and> closed o0 = [] \<and> sends o0 = []"
  by (auto simp: setup18_def wf18_def fds18_def users18_def)

section \<open>Properties\<close>

lemma run18_refines:
  "wf18 s \<Longrightarrow> env_run (\<lambda>s. kernel_ok (listen18 s) (set (fds18 s)) 1023) step18 s es \<Longrightarrow>
     run step18 s es = Inr (s', out) \<Longrightarrow> tab18 s' = foldl (abs_step18 (listen18 s)) (tab18 s) es"
proof (induction es arbitrary: s out)
  case Nil
  then show ?case by simp
next
  case (Cons e es)
  then obtain s1 o1 o2 where st: "step18 s e = Inr (s1, o1)" and r: "run step18 s1 es = Inr (s', o2)"
    by (auto simp: run_Cons_Inr simp del: run.simps)
  with Cons.prems have "kernel_ok (listen18 s) (set (fds18 s)) 1023 e"
    and "env_run (\<lambda>s. kernel_ok (listen18 s) (set (fds18 s)) 1023) step18 s1 es" by auto
  with step18_effect [OF Cons.prems(1) _ st] Cons.IH [of s1 o2] r show ?case by simp
qed

text \<open>
  C4: the room server of lab 18 refines a finite map of users with their rooms. After any sequence
  of events the kernel can produce, the table is the fold of \<open>abs_step18\<close> over the events, every
  accepted descriptor is in the table or closed, and every stored name and room fits its field.
\<close>

theorem chat18_refines:
  assumes env: "env_run (\<lambda>s. kernel_ok (listen18 s) (set (fds18 s)) 1023) step18 (fst (setup18 lfd)) es"
    and r: "server18 lfd es = Inr (s, out)"
  shows "tab18 s = foldl (abs_step18 lfd) (\<lambda>_. None) es
    \<and> all_accepted lfd es = set (fds18 s) \<union> set (closed out)
    \<and> (\<forall>u \<in> set (users18 s). length (name18 u) < 32 \<and> length (room18 u) < 32)"
proof -
  obtain s0 o0 where s0: "setup18 lfd = (s0, o0)" by fastforce
  note init = setup18_state [OF s0]
  have "tab18 s0 = (\<lambda>_. None)" using init set_fds18 [of s0] by (auto simp: dom_def)
  from r s0 obtain o1 where r1: "run step18 s0 es = Inr (s, o1)" and out: "out = o0 @ o1"
    by (auto simp: server18_def bindR_eq_Inr)
  have "wf18 s" using chat18.run_wf [OF _ _ r1] init env s0 by simp
  then have "\<forall>u \<in> set (users18 s). length (name18 u) < 32 \<and> length (room18 u) < 32"
    by (auto simp: entry_ok18_def NAME_LEN18_def ROOM_LEN18_def dest: wf18D(2))
  then show ?thesis
    using run18_refines [OF _ _ r1] chat18.run_no_leak [OF _ _ r1] init env s0 out \<open>tab18 s0 = _\<close> by simp
qed

theorem chat18_refines_witness:
  "\<exists>s out. server18 3 [\<lparr>ev_fd = 3, ev_in = True, ev_accept = 5, ev_recv = Fail\<rparr>] = Inr (s, out)
     \<and> tab18 s = [5 \<mapsto> \<lparr>fd18 = 5, name18 = [], room18 = []\<rparr>]"
proof -
  let ?e = "\<lparr>ev_fd = 3, ev_in = True, ev_accept = 5, ev_recv = Fail\<rparr>"
  have env: "env_run (\<lambda>s. kernel_ok (listen18 s) (set (fds18 s)) 1023) step18 (fst (setup18 3)) [?e]"
    by (simp add: setup18_def kernel_ok_def fds18_def users18_def rd_ok_def split: sum.split)
  have "\<not> is_fault (server18 3 [?e])"
    by (simp add: server18_def setup18_def step18_def accept18_def enter18_def arr_set_def MAX_CLIENTS18_def)
  then obtain s out where r: "server18 3 [?e] = Inr (s, out)" by (auto simp: not_fault_iff)
  from chat18_refines [OF env r] r show ?thesis by (auto simp: abs_step18_def)
qed

text \<open>
  C5: rooms are isolated. A line that is not a command goes to every other user of the sender's
  room exactly once, under the sender's name and room, and to nobody else; a sender who is in no
  room gets the refusal and nothing is relayed. The table does not change.
\<close>

theorem chat18_room_isolation:
  assumes wf: "wf18 s" and fd: "ev_fd e \<noteq> listen18 s" and me: "tab18 s (ev_fd e) = Some me"
    and data: "ev_recv e = Got bs" "bs \<noteq> []" "length bs < 1024" "hd bs \<noteq> CHR ''/''"
  shows "\<exists>out. step18 s e = Inr (s, out) \<and> closed out = [] \<and> distinct (map fd18 (users18 s)) \<and>
    sends out =
      (if room18 me = [] then [(ev_fd e, ''[Server] Join a room first using /join <room>'' @ nl)]
       else map (\<lambda>u. (fd18 u, snprintf BUF_SIZE18 (''['' @ (if name18 me \<noteq> [] then name18 me else ''anon'')
              @ '':'' @ room18 me @ ''] '' @ cstr bs)))
            (filter (\<lambda>u. room18 u = room18 me \<and> fd18 u \<noteq> ev_fd e) (users18 s)))"
proof -
  obtain i where i: "find_client_by_fd18 s (ev_fd e) = Some i"
    using me find_fd18(1) [OF wf, of "ev_fd e"] by (cases "find_client_by_fd18 s (ev_fd e)") auto
  then have i': "clients18 s ! i = me" using find_fd18(2) [OF wf i] me by simp
  have plain: "\<not> (cstr bs \<noteq> [] \<and> hd (cstr bs) = CHR ''/'')"
    using data by (cases bs) (auto simp: cstr_def)
  have st: "step18 s e = Inr (s, say18 s (ev_fd e) (cstr bs))"
    using fd data plain by (auto simp: step18_def client_step18_def terminate_def BUF_SIZE18_def)
  have "distinct (map fd18 (users18 s))" using chat18.fds_distinct [OF wf] by (simp add: fds18_def)
  then show ?thesis
    using st i i' by (simp add: say18_def Let_def nl_def)
qed

definition demo18 :: srv18 where
  "demo18 = \<lparr>listen18 = 3,
     clients18 = [\<lparr>fd18 = 5, name18 = ''ann'', room18 = ''red''\<rparr>, \<lparr>fd18 = 6, name18 = ''bob'', room18 = ''red''\<rparr>,
                  \<lparr>fd18 = 7, name18 = ''cy'', room18 = ''blue''\<rparr>]
                 @ replicate 1021 \<lparr>fd18 = 0, name18 = [], room18 = []\<rparr>,
     count18 = 3\<rparr>"

lemma demo18_users:
  "users18 demo18 = [\<lparr>fd18 = 5, name18 = ''ann'', room18 = ''red''\<rparr>, \<lparr>fd18 = 6, name18 = ''bob'', room18 = ''red''\<rparr>,
                  \<lparr>fd18 = 7, name18 = ''cy'', room18 = ''blue''\<rparr>]"
  "listen18 demo18 = 3" "count18 demo18 = 3" "length (clients18 demo18) = 1024"
  by (simp_all add: users18_def demo18_def live_def)

lemma demo18_wf: "wf18 demo18"
  using demo18_users by (simp add: wf18_def users18_def tbl_inv_def MAX_CLIENTS18_def entry_ok18_def NAME_LEN18_def ROOM_LEN18_def)

lemma demo18_tab: "tab18 demo18 5 = Some \<lparr>fd18 = 5, name18 = ''ann'', room18 = ''red''\<rparr>"
  using demo18_users by (simp add: tab18_def tbl_def users18_def)

theorem chat18_room_isolation_witness:
  "\<exists>out. step18 demo18 \<lparr>ev_fd = 5, ev_in = True, ev_accept = -1, ev_recv = Got (''hi'' @ nl)\<rparr> = Inr (demo18, out)
     \<and> sends out = [(6, ''[ann:red] hi'' @ nl)]"
proof -
  let ?e = "\<lparr>ev_fd = 5, ev_in = True, ev_accept = -1, ev_recv = Got (''hi'' @ nl)\<rparr>"
  have fd: "ev_fd ?e \<noteq> listen18 demo18" by (simp add: demo18_users)
  have me: "tab18 demo18 (ev_fd ?e) = Some \<lparr>fd18 = 5, name18 = ''ann'', room18 = ''red''\<rparr>" by (simp add: demo18_tab)
  have "ev_recv ?e = Got (''hi'' @ nl)" "''hi'' @ nl \<noteq> []" "length (''hi'' @ nl) < 1024" "hd (''hi'' @ nl) \<noteq> CHR ''/''"
    by (simp_all add: nl_def)
  from chat18_room_isolation [OF demo18_wf fd me this] show ?thesis
    by (auto simp: demo18_users cstr_def nl_def snprintf_def BUF_SIZE18_def)
qed

text \<open>
  The notice of \<^verbatim>\<open>/join\<close> is addressed with the untruncated room name while the table keeps its
  first 31 characters. The other users of the room are told exactly when the name has fewer than 32
  characters; with a longer one the client is put in the truncated room and nobody is told.
\<close>

theorem chat18_join_notice:
  assumes wf: "wf18 s" and me: "tab18 s fd = Some me"
    and room: "set room \<inter> {NL, NUL} = {}"
  shows "\<exists>s' reply notice out. handle_command18 s fd (''/join '' @ room @ nl) = Inr (s', out) \<and>
    tab18 s' = (tab18 s)(fd \<mapsto> me\<lparr>room18 := take 31 room\<rparr>) \<and>
    sends out = (fd, reply) #
      (if length room < 32
       then map (\<lambda>u. (fd18 u, notice)) (filter (\<lambda>u. room18 u = room \<and> fd18 u \<noteq> fd) (users18 s))
       else [])"
proof -
  let ?cmd = "''/join '' @ room @ nl"
  obtain i where i: "find_client_by_fd18 s fd = Some i"
    using me find_fd18(1) [OF wf, of fd] by (cases "find_client_by_fd18 s fd") auto
  have idx: "i < count18 s" "fd18 (clients18 s ! i) = fd" "clients18 s ! i = me"
    using find_fd18(2) [OF wf i] me by auto
  have chop: "chop nl (drop 6 ?cmd) = room"
    unfolding chop_takeWhile nl_def using room by (simp, intro takeWhile_stop) auto
  let ?c = "me\<lparr>room18 := snprintf ROOM_LEN18 room\<rparr>"
  let ?s' = "set_entry18 s i ?c"
  let ?reply = "snprintf BUF_SIZE18 (''[Server] Joined room '' @ quoted room @ nl)"
  let ?notice = "snprintf BUF_SIZE18 (''[Server] '' @ name18 ?c @ '' joined the room.'' @ nl)"
  have h: "handle_command18 s fd ?cmd = Inr (cmd_join18 s i fd ?cmd)"
    using i by (simp add: handle_command18_def strncmp_eq_def)
  then have h': "handle_command18 s fd ?cmd = Inr (?s', Send fd ?reply # broadcast_room18 ?s' room ?notice fd)"
    using chop idx by (simp add: cmd_join18_def Let_def)
  have "snprintf ROOM_LEN18 room = take 31 room" by (simp add: snprintf_def ROOM_LEN18_def)
  then have tab: "tab18 ?s' = (tab18 s)(fd \<mapsto> me\<lparr>room18 := take 31 room\<rparr>)"
    using cmd_join18_effect [OF wf idx(1,2), of ?cmd] me chop idx by (simp add: cmd_join18_def Let_def)
  have "users18 ?s' = (users18 s)[i := ?c]"
    using idx wf18D(3) [OF wf] by (simp add: users18_def set_entry18_def live_update)
  then have same: "filter (\<lambda>u. room18 u = room \<and> fd18 u \<noteq> fd) (users18 ?s')
      = filter (\<lambda>u. room18 u = room \<and> fd18 u \<noteq> fd) (users18 s)"
    using idx wf18D(3) [OF wf] by (simp add: filter_update_other users18_def)
  have long: "\<not> length room < 32 \<Longrightarrow> filter (\<lambda>u. room18 u = room \<and> fd18 u \<noteq> fd) (users18 s) = []"
    using wf18D(2) [OF wf] by (fastforce simp: filter_empty_conv entry_ok18_def ROOM_LEN18_def)
  have "sends (Send fd ?reply # broadcast_room18 ?s' room ?notice fd) = (fd, ?reply) #
      (if length room < 32
       then map (\<lambda>u. (fd18 u, ?notice)) (filter (\<lambda>u. room18 u = room \<and> fd18 u \<noteq> fd) (users18 s))
       else [])"
    by (cases "length room < 32") (simp_all only: sends.simps broadcast_room18_sends same long list.map if_True if_False not_False_eq_True)
  with h' tab show ?thesis by blast
qed

theorem chat18_join_notice_witness:
  "\<exists>s' out. handle_command18 demo18 7 (''/join red'' @ nl) = Inr (s', out) \<and> map fst (sends out) = [7, 5, 6]"
proof -
  have me: "tab18 demo18 7 = Some \<lparr>fd18 = 7, name18 = ''cy'', room18 = ''blue''\<rparr>"
    using demo18_users by (simp add: tab18_def tbl_def users18_def)
  have room: "set ''red'' \<inter> {NL, NUL} = {}" by simp
  from chat18_join_notice [OF demo18_wf me room] show ?thesis
    by (auto simp: demo18_users)
qed

end
