(* ===== verification/Chat16_Tls.thy ===== *)
theory Chat16_Tls
  imports Interfaces
begin

text \<open>
  \<^verbatim>\<open>03_networking/lab_16_tls_epoll_chat/server.c\<close>: the TLS chat server. OpenSSL is not part of the
  repository: the results of \<^verbatim>\<open>SSL_accept\<close>, \<^verbatim>\<open>SSL_read\<close> and \<^verbatim>\<open>SSL_write\<close>, read through
  \<^verbatim>\<open>SSL_get_error\<close>, are data of the events. The list \<^verbatim>\<open>connections\<close> is a list of records, newest first;
  a connection is designated by its position, and the pair \<^verbatim>\<open>prev\<close>, \<^verbatim>\<open>c\<close> the search finds is the
  position before it and its own.
\<close>

section \<open>The model\<close>

datatype conn_state = CONN_HANDSHAKE | CONN_ESTABLISHED | CONN_CLOSED

record conn16 =
  fd16 :: int
  state16 :: conn_state

record srv16 =
  listen16 :: int
  conns16 :: "conn16 list"
  running16 :: bool

text \<open>A call of \<^verbatim>\<open>SSL_write\<close> took \<open>n + 1\<close> bytes, wants to be retried, or failed for good.\<close>

datatype wr_ans = Wrote nat | Wr_want | Wr_fatal

datatype wr_end = Whole | Put_off | Broken

datatype rd_ans = Plain string | Rd_want_read | Rd_want_write | Rd_zero_return | Rd_fatal int

datatype hs_ans = Hs_done | Hs_want | Hs_fatal string

datatype out16 = Call16 sys | Ssl_write int string | Ssl_end int

text \<open>The loop around \<^verbatim>\<open>SSL_write\<close> on the bytes not yet written: the pieces taken, and how it ended.\<close>

function tls_write :: "string \<Rightarrow> (nat \<Rightarrow> wr_ans) \<Rightarrow> string list \<times> wr_end" where
  "tls_write buf ans =
     (if buf = [] then ([], Whole)
      else case ans 0 of
             Wrote n \<Rightarrow>
               (case tls_write (drop (Suc n) buf) (\<lambda>k. ans (Suc k)) of
                  (ws, r) \<Rightarrow> (take (Suc n) buf # ws, r))
           | Wr_want \<Rightarrow> ([], Put_off)
           | Wr_fatal \<Rightarrow> ([], Broken))"
  by pat_completeness auto
termination
  by (relation "measure (\<lambda>(buf, ans). length buf)") auto

declare tls_write.simps [simp del]

text \<open>One connection of the walk in \<^verbatim>\<open>broadcast_message\<close>, at position \<open>j\<close>, for a sender at position \<open>i\<close>.\<close>

definition deliver16 :: "nat \<Rightarrow> string \<Rightarrow> (int \<Rightarrow> nat \<Rightarrow> wr_ans) \<Rightarrow> nat \<Rightarrow> conn16 \<Rightarrow> conn16 \<times> out16 list" where
  "deliver16 i buf ans j c =
     (if state16 c = CONN_ESTABLISHED \<and> j \<noteq> i
      then case tls_write buf (ans (fd16 c)) of (ws, r) \<Rightarrow>
             (if r = Broken then c\<lparr>state16 := CONN_CLOSED\<rparr> else c, map (Ssl_write (fd16 c)) ws)
      else (c, []))"

definition broadcast16 :: "nat \<Rightarrow> string \<Rightarrow> (int \<Rightarrow> nat \<Rightarrow> wr_ans) \<Rightarrow> conn16 list \<Rightarrow> conn16 list \<times> out16 list" where
  "broadcast16 i buf ans cs =
     (map (\<lambda>j. fst (deliver16 i buf ans j (cs ! j))) [0..<length cs],
      concat (map (\<lambda>j. snd (deliver16 i buf ans j (cs ! j))) [0..<length cs]))"

definition add_connection16 :: "conn16 \<Rightarrow> srv16 \<Rightarrow> srv16" where
  "add_connection16 c s = s\<lparr>conns16 := c # conns16 s\<rparr>"

definition remove_connection16 :: "nat \<Rightarrow> srv16 \<Rightarrow> srv16 \<times> out16 list" where
  "remove_connection16 i s =
     (let c = conns16 s ! i
      in (s\<lparr>conns16 := take i (conns16 s) @ drop (Suc i) (conns16 s)\<rparr>,
          [Ssl_end (fd16 c)] @ (if 0 \<le> fd16 c then [Call16 (Close (fd16 c))] else [])))"

definition set_conn16 :: "nat \<Rightarrow> conn_state \<Rightarrow> srv16 \<Rightarrow> srv16" where
  "set_conn16 i st s = s\<lparr>conns16 := (conns16 s)[i := (conns16 s ! i)\<lparr>state16 := st\<rparr>]\<rparr>"

text \<open>
  The accept loop: the descriptors \<^verbatim>\<open>accept\<close> returned, each with whether \<^verbatim>\<open>SSL_new\<close> and \<^verbatim>\<open>calloc\<close>
  succeeded (their results are used unchecked), and whether it ended with \<^verbatim>\<open>EAGAIN\<close>.
\<close>

fun accept_loop16 :: "(int \<times> bool \<times> bool) list \<Rightarrow> bool \<Rightarrow> srv16 \<Rightarrow> (srv16 \<times> out16 list) res" where
  "accept_loop16 [] eagain s = Inr (s, if eagain then [] else [Call16 (Perror ''accept'')])"
| "accept_loop16 ((fd, ssl, mem) # as) eagain s =
     (if \<not> ssl \<or> \<not> mem then Inl Bad_pointer
      else bindR (accept_loop16 as eagain (add_connection16 \<lparr>fd16 = fd, state16 = CONN_HANDSHAKE\<rparr> s)) (\<lambda>(s', out).
        Inr (s', [Call16 (Nonblock fd), Call16 (Epoll_add fd True),
                  Call16 (Print (''[ACCEPT] fd='' @ show_int fd @ '' (TLS handshake started)'' @ nl))] @ out)))"

text \<open>The read loop of an established connection; the end of the list is \<^verbatim>\<open>SSL_ERROR_WANT_READ\<close>.\<close>

fun read_loop16 :: "nat \<Rightarrow> int \<Rightarrow> (rd_ans \<times> (int \<Rightarrow> nat \<Rightarrow> wr_ans)) list \<Rightarrow> srv16 \<Rightarrow> srv16 \<times> out16 list" where
  "read_loop16 i fd [] s = (s, [])"
| "read_loop16 i fd ((r, ans) # rs) s =
     (case r of
        Plain buf \<Rightarrow>
          (case broadcast16 i buf ans (conns16 s) of (cs, o1) \<Rightarrow>
             case read_loop16 i fd rs (s\<lparr>conns16 := cs\<rparr>) of (s', o2) \<Rightarrow> (s', o1 @ o2))
      | Rd_want_read \<Rightarrow> (s, [])
      | Rd_want_write \<Rightarrow> (s, [])
      | Rd_zero_return \<Rightarrow> (set_conn16 i CONN_CLOSED s, [])
      | Rd_fatal err \<Rightarrow>
          (set_conn16 i CONN_CLOSED s,
           [Call16 (Eprint (''[SSL_read] fd='' @ show_int fd @ '' error '' @ show_int err @ nl))]))"

datatype ev16 =
    Accept16 "(int \<times> bool \<times> bool) list" bool
  | Conn16 int hs_ans "(rd_ans \<times> (int \<Rightarrow> nat \<Rightarrow> wr_ans)) list"
  | Signal16

definition handshake16 :: "nat \<Rightarrow> int \<Rightarrow> hs_ans \<Rightarrow> srv16 \<Rightarrow> srv16 \<times> out16 list" where
  "handshake16 i fd h s =
     (case h of
        Hs_done \<Rightarrow> (set_conn16 i CONN_ESTABLISHED s,
                   [Call16 (Print (''[HANDSHAKE] fd='' @ show_int fd @ '' established TLS'' @ nl))])
      | Hs_want \<Rightarrow> (s, [])
      | Hs_fatal msg \<Rightarrow> (set_conn16 i CONN_CLOSED s,
                   [Call16 (Eprint (''[HANDSHAKE] fd='' @ show_int fd @ '' error: '' @ msg @ nl))]))"

definition clean16 :: "nat \<Rightarrow> int \<Rightarrow> srv16 \<Rightarrow> srv16 \<times> out16 list" where
  "clean16 i fd s =
     (if state16 (conns16 s ! i) = CONN_CLOSED
      then case remove_connection16 i s of (s', out) \<Rightarrow>
        (s', [Call16 (Print (''[CLOSE] fd='' @ show_int fd @ '' cleaning'' @ nl)), Call16 (Epoll_del fd)] @ out)
      else (s, []))"

definition conn_step16 :: "int \<Rightarrow> hs_ans \<Rightarrow> (rd_ans \<times> (int \<Rightarrow> nat \<Rightarrow> wr_ans)) list \<Rightarrow> srv16 \<Rightarrow> srv16 \<times> out16 list" where
  "conn_step16 fd h rs s =
     (case find_first (\<lambda>c. fd16 c = fd) (conns16 s) (length (conns16 s)) of
        None \<Rightarrow> (s, [Call16 (Epoll_del fd), Call16 (Close fd)])
      | Some i \<Rightarrow>
          (case (if state16 (conns16 s ! i) = CONN_HANDSHAKE then handshake16 i fd h s
                 else if state16 (conns16 s ! i) = CONN_ESTABLISHED then read_loop16 i fd rs s
                 else (s, [])) of (s1, o1) \<Rightarrow>
             case clean16 i fd s1 of (s2, o2) \<Rightarrow> (s2, o1 @ o2)))"

fun step16 :: "srv16 \<Rightarrow> ev16 \<Rightarrow> (srv16 \<times> out16 list) res" where
  "step16 s (Accept16 as eagain) = accept_loop16 as eagain s"
| "step16 s (Conn16 fd h rs) = Inr (conn_step16 fd h rs s)"
| "step16 s Signal16 = Inr (s\<lparr>running16 := False\<rparr>, [])"

text \<open>The end of \<^verbatim>\<open>main\<close>.\<close>

definition shutdown16 :: "srv16 \<Rightarrow> out16 list" where
  "shutdown16 s =
     concat (map (\<lambda>c. [Call16 (Epoll_del (fd16 c)), Ssl_end (fd16 c), Call16 (Close (fd16 c))]) (conns16 s))
     @ [Call16 (Close (listen16 s)), Call16 (Print (''[TLS-EPOLL CHAT] Server exited'' @ nl))]"

text \<open>
  The set-up: the listener, with the results of its calls (and \<open>None\<close> for the listener when it could not
  be made), the SSL context, with the results of the OpenSSL calls that are tested, and the start of
  \<^verbatim>\<open>main\<close> (\<open>None\<close> when it returns 1).
\<close>

definition LISTEN_PORT16 :: int where "LISTEN_PORT16 = 9443"

definition create_listener16 :: "int \<Rightarrow> int \<Rightarrow> int \<Rightarrow> int \<times> sys list" where
  "create_listener16 sfd bind_ret listen_ret =
     (let o1 = [Socket_stream]; o2 = o1 @ [Reuseaddr sfd, Bind sfd LISTEN_PORT16]
      in if sfd < 0 then (-1, o1)
         else if bind_ret < 0 then (-1, o2 @ [Close sfd])
         else if listen_ret < 0 then (-1, o2 @ [Listen sfd 128, Close sfd])
         else (sfd, o2 @ [Listen sfd 128, Nonblock sfd]))"

definition create_ssl_ctx16 :: "bool \<Rightarrow> int \<Rightarrow> int \<Rightarrow> bool \<Rightarrow> bool \<times> sys list" where
  "create_ssl_ctx16 ctx use_cert use_key check =
     (if \<not> ctx then (False, [])
      else if use_cert \<le> 0 then (False, [])
      else if use_key \<le> 0 then (False, [])
      else if \<not> check then (False, [Eprint (''Private key does not match the certificate public key'' @ nl)])
      else (True, []))"

definition setup16 :: "bool \<Rightarrow> int \<times> int \<times> int \<Rightarrow> int \<Rightarrow> srv16 option \<times> sys list" where
  "setup16 ctx ls epfd =
     (case ls of (sfd, bind_ret, listen_ret) \<Rightarrow>
        if \<not> ctx then (None, [Eprint (''Failed to create SSL_CTX'' @ nl), Exit 1])
        else case create_listener16 sfd bind_ret listen_ret of (listen_fd, o1) \<Rightarrow>
          if listen_fd < 0 then (None, o1 @ [Perror ''create_listener'', Exit 1])
          else if epfd < 0 then (None, o1 @ [Epoll_create, Perror ''epoll_create1'', Close listen_fd, Exit 1])
          else (Some \<lparr>listen16 = listen_fd, conns16 = [], running16 = True\<rparr>,
                o1 @ [Epoll_create, Epoll_add listen_fd False,
                      Print (''[TLS-EPOLL CHAT] Listening on port '' @ show_int LISTEN_PORT16 @ '' (TLS)'' @ nl)]))"

text \<open>
  The whole process: the events until a signal clears \<^verbatim>\<open>running\<close> (the test of the loop is made between
  two batches, so the events of a batch still run), then the end of \<^verbatim>\<open>main\<close>.
\<close>

fun batch16 :: "srv16 \<Rightarrow> ev16 list list \<Rightarrow> (srv16 \<times> out16 list) res" where
  "batch16 s [] = Inr (s, [])"
| "batch16 s (es # bs) =
     (if running16 s
      then bindR (run step16 s es) (\<lambda>(s1, o1). bindR (batch16 s1 bs) (\<lambda>(s2, o2). Inr (s2, o1 @ o2)))
      else Inr (s, []))"

section \<open>Writing and broadcasting\<close>

lemma tls_write_Nil [simp]: "tls_write [] ans = ([], Whole)"
  by (simp add: tls_write.simps)

lemma tls_write_prefix:
  "tls_write buf ans = (ws, r) \<Longrightarrow> \<exists>post. buf = concat ws @ post \<and> (r = Whole \<longleftrightarrow> post = [])"
proof (induction buf ans arbitrary: ws r rule: tls_write.induct)
  case (1 buf ans)
  show ?case
  proof (cases "buf = []")
    case True
    with "1.prems" show ?thesis by simp
  next
    case False
    show ?thesis
    proof (cases "ans 0")
      case (Wrote n)
      obtain ws1 r1 where t: "tls_write (drop (Suc n) buf) (\<lambda>k. ans (Suc k)) = (ws1, r1)" by fastforce
      with "1.prems" False Wrote have ws: "ws = take (Suc n) buf # ws1" "r = r1"
        by (simp_all add: tls_write.simps [of buf])
      from "1.IH" [OF False Wrote t] obtain post where "drop (Suc n) buf = concat ws1 @ post" "r1 = Whole \<longleftrightarrow> post = []"
        by blast
      moreover have "buf = take (Suc n) buf @ drop (Suc n) buf" by simp
      ultimately have "buf = concat ws @ post" and "r = Whole \<longleftrightarrow> post = []"
        unfolding ws by (simp_all only: concat.simps append_assoc)
      then show ?thesis by blast
    qed (use "1.prems" False in \<open>auto simp: tls_write.simps [of buf]\<close>)
  qed
qed

text \<open>The plaintext a list of outputs delivers to a descriptor.\<close>

fun plain_to :: "int \<Rightarrow> out16 list \<Rightarrow> string" where
  "plain_to p [] = []"
| "plain_to p (Ssl_write q bs # os) = (if q = p then bs @ plain_to p os else plain_to p os)"
| "plain_to p (_ # os) = plain_to p os"

fun closed16 :: "out16 list \<Rightarrow> int list" where
  "closed16 [] = []"
| "closed16 (Call16 c # os) = closed [c] @ closed16 os"
| "closed16 (_ # os) = closed16 os"

fun writes16 :: "out16 list \<Rightarrow> int set" where
  "writes16 [] = {}"
| "writes16 (Ssl_write q bs # os) = insert q (writes16 os)"
| "writes16 (_ # os) = writes16 os"

lemma plain_to_append [simp]: "plain_to p (as @ bs) = plain_to p as @ plain_to p bs"
  by (induction p as rule: plain_to.induct) auto

lemma closed16_append [simp]: "closed16 (as @ bs) = closed16 as @ closed16 bs"
  by (induction as rule: closed16.induct) auto

lemma writes16_append [simp]: "writes16 (as @ bs) = writes16 as \<union> writes16 bs"
  by (induction as rule: writes16.induct) auto

lemma plain_to_writes [simp]: "plain_to p (map (Ssl_write q) ws) = (if q = p then concat ws else [])"
  by (induction ws) auto

lemma closed16_writes [simp]: "closed16 (map (Ssl_write q) ws) = []"
  by (induction ws) auto

lemma writes16_writes [simp]: "writes16 (map (Ssl_write q) ws) = (if ws = [] then {} else {q})"
  by (induction ws) auto

definition fds16 :: "srv16 \<Rightarrow> int list" where
  "fds16 s = map fd16 (conns16 s)"

lemma deliver16_skip: "\<not> (state16 c = CONN_ESTABLISHED \<and> j \<noteq> i) \<Longrightarrow> deliver16 i buf ans j c = (c, [])"
  unfolding deliver16_def by (rule if_not_P)

lemma deliver16_send:
  "state16 c = CONN_ESTABLISHED \<Longrightarrow> j \<noteq> i \<Longrightarrow> tls_write buf (ans (fd16 c)) = (ws, r) \<Longrightarrow>
     deliver16 i buf ans j c = (if r = Broken then c\<lparr>state16 := CONN_CLOSED\<rparr> else c, map (Ssl_write (fd16 c)) ws)"
  by (simp add: deliver16_def)

lemma deliver16_effect:
  assumes "deliver16 i buf ans j c = (c', out)"
  shows "fd16 c' = fd16 c \<and> closed16 out = [] \<and> (state16 c' = CONN_ESTABLISHED \<longrightarrow> state16 c = CONN_ESTABLISHED)
    \<and> (\<forall>x \<in> writes16 out. x = fd16 c \<and> state16 c = CONN_ESTABLISHED \<and> j \<noteq> i)"
proof (cases "state16 c = CONN_ESTABLISHED \<and> j \<noteq> i")
  case False
  with assms deliver16_skip [of c j i buf ans] show ?thesis by auto
next
  case True
  obtain ws r where "tls_write buf (ans (fd16 c)) = (ws, r)" by fastforce
  with True assms deliver16_send [of c j i buf ans ws r]
  have "c' = (if r = Broken then c\<lparr>state16 := CONN_CLOSED\<rparr> else c)" and "out = map (Ssl_write (fd16 c)) ws" by auto
  with True show ?thesis by simp
qed

lemma deliver16_simps [simp]:
  "fd16 (fst (deliver16 i buf ans j c)) = fd16 c"
  "closed16 (snd (deliver16 i buf ans j c)) = []"
  using deliver16_effect [of i buf ans j c] by (simp_all add: prod_eq_iff)

lemma deliver16_established:
  "state16 (fst (deliver16 i buf ans j c)) = CONN_ESTABLISHED \<Longrightarrow> state16 c = CONN_ESTABLISHED"
  using deliver16_effect [of i buf ans j c] by (simp add: prod_eq_iff)

lemma writes_deliver16:
  "x \<in> writes16 (snd (deliver16 i buf ans j c)) \<Longrightarrow> x = fd16 c \<and> state16 c = CONN_ESTABLISHED \<and> j \<noteq> i"
  using deliver16_effect [of i buf ans j c] by (simp add: prod_eq_iff)

lemma closed16_concat: "closed16 (concat xss) = concat (map closed16 xss)"
  by (induction xss) auto

lemma writes16_concat: "writes16 (concat xss) = (\<Union>xs \<in> set xss. writes16 xs)"
  by (induction xss) auto

lemma broadcast16_facts:
  assumes "broadcast16 i buf ans cs = (cs', out)"
  shows "map fd16 cs' = map fd16 cs" and "length cs' = length cs" and "closed16 out = []"
    and "\<And>j. j < length cs \<Longrightarrow> state16 (cs' ! j) = CONN_ESTABLISHED \<Longrightarrow> state16 (cs ! j) = CONN_ESTABLISHED"
    and "\<And>x. x \<in> writes16 out \<Longrightarrow> \<exists>j < length cs. x = fd16 (cs ! j) \<and> state16 (cs ! j) = CONN_ESTABLISHED \<and> j \<noteq> i"
    and "i < length cs \<Longrightarrow> cs' ! i = cs ! i"
proof -
  have cs': "cs' = map (\<lambda>j. fst (deliver16 i buf ans j (cs ! j))) [0..<length cs]"
    and out: "out = concat (map (\<lambda>j. snd (deliver16 i buf ans j (cs ! j))) [0..<length cs])"
    using assms by (simp_all add: broadcast16_def)
  show len: "length cs' = length cs" by (simp add: cs')
  show "map fd16 cs' = map fd16 cs" by (rule nth_equalityI) (simp_all add: cs')
  show "closed16 out = []" by (simp add: out closed16_concat comp_def)
  show "\<And>j. j < length cs \<Longrightarrow> state16 (cs' ! j) = CONN_ESTABLISHED \<Longrightarrow> state16 (cs ! j) = CONN_ESTABLISHED"
    unfolding cs' by (rule deliver16_established) simp
  show "\<And>x. x \<in> writes16 out \<Longrightarrow> \<exists>j < length cs. x = fd16 (cs ! j) \<and> state16 (cs ! j) = CONN_ESTABLISHED \<and> j \<noteq> i"
    by (auto simp: out writes16_concat dest!: writes_deliver16)
  show "i < length cs \<Longrightarrow> cs' ! i = cs ! i" by (simp add: cs' deliver16_skip)
qed

section \<open>What a step keeps\<close>

text \<open>No connection is established that was not before, and the descriptors stay.\<close>

definition keeps16 :: "srv16 \<Rightarrow> srv16 \<Rightarrow> bool" where
  "keeps16 s s' \<longleftrightarrow> fds16 s' = fds16 s \<and> listen16 s' = listen16 s
     \<and> (\<forall>j < length (conns16 s). state16 (conns16 s' ! j) = CONN_ESTABLISHED \<longrightarrow> state16 (conns16 s ! j) = CONN_ESTABLISHED)"

definition peers16 :: "srv16 \<Rightarrow> int set" where
  "peers16 s = {fd16 c | c. c \<in> set (conns16 s) \<and> state16 c = CONN_ESTABLISHED}"

lemma peers16_nth: "x \<in> peers16 s \<longleftrightarrow> (\<exists>j < length (conns16 s). x = fd16 (conns16 s ! j) \<and> state16 (conns16 s ! j) = CONN_ESTABLISHED)"
  by (auto simp: peers16_def in_set_conv_nth)

lemma keeps16_refl [simp]: "keeps16 s s"
  by (simp add: keeps16_def)

lemma keeps16_length: "keeps16 s s' \<Longrightarrow> length (conns16 s') = length (conns16 s)"
  unfolding keeps16_def fds16_def by (metis length_map)

lemma keeps16_trans: "keeps16 s s1 \<Longrightarrow> keeps16 s1 s2 \<Longrightarrow> keeps16 s s2"
  using keeps16_length [of s s1] by (simp add: keeps16_def)

lemma keeps16_fd: "keeps16 s s' \<Longrightarrow> j < length (conns16 s) \<Longrightarrow> fd16 (conns16 s' ! j) = fd16 (conns16 s ! j)"
  using keeps16_length [of s s'] unfolding keeps16_def fds16_def by (metis nth_map)

lemma keeps16_peers:
  assumes "keeps16 s s'"
  shows "peers16 s' \<subseteq> peers16 s"
proof
  fix x assume "x \<in> peers16 s'"
  then obtain j where "j < length (conns16 s)" "x = fd16 (conns16 s' ! j)" "state16 (conns16 s' ! j) = CONN_ESTABLISHED"
    using keeps16_length [OF assms] by (auto simp: peers16_nth)
  then show "x \<in> peers16 s"
    using keeps16_fd [OF assms] assms unfolding peers16_nth keeps16_def by blast
qed

lemma set_conn16_fds [simp]:
  "i < length (conns16 s) \<Longrightarrow> fds16 (set_conn16 i st s) = fds16 s" "listen16 (set_conn16 i st s) = listen16 s"
  "length (conns16 (set_conn16 i st s)) = length (conns16 s)"
  by (auto simp: set_conn16_def fds16_def map_update intro: list_update_same_conv [THEN iffD2])

lemma set_conn16_keeps: "i < length (conns16 s) \<Longrightarrow> st \<noteq> CONN_ESTABLISHED \<Longrightarrow> keeps16 s (set_conn16 i st s)"
  by (simp add: keeps16_def) (simp add: set_conn16_def nth_list_update)

lemma read_loop16_effect:
  "i < length (conns16 s) \<Longrightarrow> read_loop16 i fd rs s = (s', out) \<Longrightarrow>
     keeps16 s s' \<and> closed16 out = [] \<and> writes16 out \<subseteq> peers16 s"
proof (induction rs arbitrary: s out)
  case Nil
  then show ?case by simp
next
  case (Cons r rs)
  obtain a ans where r: "r = (a, ans)" by (cases r)
  show ?case
  proof (cases a)
    case (Plain buf)
    obtain cs o1 where b: "broadcast16 i buf ans (conns16 s) = (cs, o1)" by fastforce
    note f = broadcast16_facts [OF b]
    let ?s1 = "s\<lparr>conns16 := cs\<rparr>"
    have k: "keeps16 s ?s1" using f(1,4) by (simp add: keeps16_def fds16_def)
    have w: "writes16 o1 \<subseteq> peers16 s" using f(5) by (force simp: peers16_nth)
    obtain o2 where l: "read_loop16 i fd rs ?s1 = (s', o2)" and out: "out = o1 @ o2"
      using Cons.prems(2) r Plain b by (auto split: prod.splits)
    have "i < length (conns16 ?s1)" using Cons.prems(1) f(2) by simp
    note ih = Cons.IH [OF this l]
    with k w f(3) out keeps16_peers [OF k] show ?thesis by (auto intro: keeps16_trans)
  qed (use Cons.prems r set_conn16_keeps [of i s] in auto)
qed

lemma handshake16_effect:
  assumes "i < length (conns16 s)" and "handshake16 i fd h s = (s', out)"
  shows "fds16 s' = fds16 s \<and> listen16 s' = listen16 s \<and> closed16 out = [] \<and> writes16 out = {}
    \<and> peers16 s' \<subseteq> peers16 s \<union> (if h = Hs_done then {fd16 (conns16 s ! i)} else {})"
proof (cases h)
  case Hs_done
  then have s': "s' = set_conn16 i CONN_ESTABLISHED s" using assms(2) by (simp add: handshake16_def)
  have "peers16 s' \<subseteq> insert (fd16 (conns16 s ! i)) (peers16 s)"
    using assms(1) by (auto simp: s' peers16_nth set_conn16_def nth_list_update split: if_splits)
  moreover have "closed16 out = [] \<and> writes16 out = {}" using Hs_done assms(2) by (auto simp: handshake16_def)
  ultimately show ?thesis using Hs_done assms(1) s' by simp
next
  case Hs_want
  with assms show ?thesis by (simp add: handshake16_def)
next
  case (Hs_fatal msg)
  then have s': "s' = set_conn16 i CONN_CLOSED s" using assms(2) by (simp add: handshake16_def)
  have "keeps16 s s'" unfolding s' using assms(1) by (intro set_conn16_keeps) simp_all
  moreover have "closed16 out = [] \<and> writes16 out = {}" using Hs_fatal assms(2) by (auto simp: handshake16_def)
  ultimately show ?thesis using keeps16_peers [of s s'] Hs_fatal by (auto simp: keeps16_def)
qed

lemma clean16_effect:
  assumes "i < length (conns16 s)" and "distinct (fds16 s)" and "\<forall>x \<in> set (fds16 s). 0 \<le> x"
    and "fd = fd16 (conns16 s ! i)" and "clean16 i fd s = (s', out)"
  shows "distinct (fds16 s') \<and> listen16 s' = listen16 s \<and> writes16 out = {} \<and> peers16 s' \<subseteq> peers16 s
    \<and> set (fds16 s') = set (fds16 s) - set (closed16 out) \<and> set (closed16 out) \<subseteq> {fd}"
proof (cases "state16 (conns16 s ! i) = CONN_CLOSED")
  case False
  with assms show ?thesis by (simp add: clean16_def)
next
  case True
  have "fd \<in> set (fds16 s)" using assms(1,4) by (simp add: fds16_def)
  then have nonneg: "0 \<le> fd" using assms(3) by blast
  have s': "conns16 s' = take i (conns16 s) @ drop (Suc i) (conns16 s)" "listen16 s' = listen16 s"
    and out: "closed16 out = [fd]" "writes16 out = {}"
    using True nonneg assms(4,5) by (auto simp: clean16_def remove_connection16_def Let_def)
  have parts: "conns16 s = take i (conns16 s) @ conns16 s ! i # drop (Suc i) (conns16 s)"
    using assms(1) by (rule id_take_nth_drop)
  have f': "fds16 s' = map fd16 (take i (conns16 s)) @ map fd16 (drop (Suc i) (conns16 s))"
    by (simp add: fds16_def s'(1))
  have f0: "fds16 s = map fd16 (take i (conns16 s)) @ fd # map fd16 (drop (Suc i) (conns16 s))"
    using arg_cong [OF parts, of "map fd16"] assms(4) by (simp add: fds16_def)
  have "set (conns16 s') \<subseteq> set (conns16 s)"
    using s'(1) by (auto dest: in_set_takeD in_set_dropD)
  then have "peers16 s' \<subseteq> peers16 s" by (auto simp: peers16_def)
  moreover have "distinct (fds16 s')" using assms(2) unfolding f0 f' by auto
  moreover have "set (fds16 s') = set (fds16 s) - {fd}" using assms(2) unfolding f0 f' by auto
  ultimately show ?thesis using s'(2) out by simp
qed

lemma conn_step16_find:
  assumes "fd \<in> set (fds16 s)"
  obtains i where "find_first (\<lambda>c. fd16 c = fd) (conns16 s) (length (conns16 s)) = Some i"
    and "i < length (conns16 s)" and "fd16 (conns16 s ! i) = fd"
proof (cases "find_first (\<lambda>c. fd16 c = fd) (conns16 s) (length (conns16 s))")
  case None
  then have "\<forall>j < length (conns16 s). fd16 (conns16 s ! j) \<noteq> fd" by (simp add: find_first_None)
  with assms show ?thesis by (auto simp: fds16_def in_set_conv_nth)
next
  case (Some i)
  with find_first_Some [OF Some] that show ?thesis by blast
qed

section \<open>Runs\<close>

definition wf16 :: "srv16 \<Rightarrow> bool" where
  "wf16 s \<longleftrightarrow> distinct (fds16 s) \<and> (\<forall>x \<in> set (fds16 s). 0 \<le> x) \<and> listen16 s \<notin> set (fds16 s)"

text \<open>
  The kernel's side: \<^verbatim>\<open>accept\<close> returns descriptors that are not open, and events come for registered
  descriptors; and the memory for a connection can be had.
\<close>

fun ok16 :: "srv16 \<Rightarrow> ev16 \<Rightarrow> bool" where
  "ok16 s (Accept16 as eagain) \<longleftrightarrow> distinct (map fst as)
     \<and> (\<forall>a \<in> set as. 0 \<le> fst a \<and> fst a \<noteq> listen16 s \<and> fst a \<notin> set (fds16 s) \<and> fst (snd a) \<and> snd (snd a))"
| "ok16 s (Conn16 fd h rs) \<longleftrightarrow> fd \<in> set (fds16 s)"
| "ok16 s Signal16 \<longleftrightarrow> True"

fun accepts16 :: "ev16 \<Rightarrow> int set" where
  "accepts16 (Accept16 as eagain) = fst ` set as"
| "accepts16 _ = {}"

fun handshakes16 :: "ev16 \<Rightarrow> int set" where
  "handshakes16 (Conn16 fd h rs) = (if h = Hs_done then {fd} else {})"
| "handshakes16 _ = {}"

lemma add_connection16_simps [simp]:
  "fds16 (add_connection16 c s) = fd16 c # fds16 s"
  "listen16 (add_connection16 c s) = listen16 s"
  "state16 c \<noteq> CONN_ESTABLISHED \<Longrightarrow> peers16 (add_connection16 c s) = peers16 s"
  by (auto simp: add_connection16_def fds16_def peers16_def)

lemma accept_loop16_effect:
  "\<forall>a \<in> set as. fst (snd a) \<and> snd (snd a) \<Longrightarrow>
     \<exists>s' out. accept_loop16 as eagain s = Inr (s', out) \<and> fds16 s' = rev (map fst as) @ fds16 s
       \<and> listen16 s' = listen16 s \<and> peers16 s' = peers16 s \<and> closed16 out = [] \<and> writes16 out = {}"
proof (induction as arbitrary: s)
  case Nil
  then show ?case by simp
next
  case (Cons a as)
  let ?s = "add_connection16 \<lparr>fd16 = fst a, state16 = CONN_HANDSHAKE\<rparr> s"
  from Cons obtain s' out where "accept_loop16 as eagain ?s = Inr (s', out)" "fds16 s' = rev (map fst as) @ fds16 ?s"
    "listen16 s' = listen16 ?s" "peers16 s' = peers16 ?s" "closed16 out = []" "writes16 out = {}" by fastforce
  with Cons.prems show ?case by (cases a) auto
qed

lemma conn_step16_effect:
  assumes wf: "wf16 s" and mem: "fd \<in> set (fds16 s)" and st: "conn_step16 fd h rs s = (s', out)"
  shows "wf16 s' \<and> listen16 s' = listen16 s \<and> set (fds16 s') = set (fds16 s) - set (closed16 out)
    \<and> set (closed16 out) \<subseteq> {fd} \<and> writes16 out \<subseteq> peers16 s
    \<and> peers16 s' \<subseteq> peers16 s \<union> handshakes16 (Conn16 fd h rs)"
proof -
  from conn_step16_find [OF mem] obtain i where i: "i < length (conns16 s)" "fd16 (conns16 s ! i) = fd"
    and f: "find_first (\<lambda>c. fd16 c = fd) (conns16 s) (length (conns16 s)) = Some i" by blast
  obtain s1 o1 where m: "(if state16 (conns16 s ! i) = CONN_HANDSHAKE then handshake16 i fd h s
      else if state16 (conns16 s ! i) = CONN_ESTABLISHED then read_loop16 i fd rs s else (s, [])) = (s1, o1)"
    by (cases "if state16 (conns16 s ! i) = CONN_HANDSHAKE then handshake16 i fd h s
      else if state16 (conns16 s ! i) = CONN_ESTABLISHED then read_loop16 i fd rs s else (s, [])") blast
  obtain o2 where c: "clean16 i fd s1 = (s', o2)" and out: "out = o1 @ o2"
    using st f m by (auto simp: conn_step16_def split: prod.splits)
  have e1: "fds16 s1 = fds16 s \<and> listen16 s1 = listen16 s \<and> closed16 o1 = [] \<and> writes16 o1 \<subseteq> peers16 s
      \<and> peers16 s1 \<subseteq> peers16 s \<union> handshakes16 (Conn16 fd h rs)"
  proof (cases "state16 (conns16 s ! i)")
    case CONN_HANDSHAKE
    with m have "handshake16 i fd h s = (s1, o1)" by simp
    from handshake16_effect [OF i(1) this] i(2) show ?thesis by auto
  next
    case CONN_ESTABLISHED
    with m have "read_loop16 i fd rs s = (s1, o1)" by simp
    from read_loop16_effect [OF i(1) this] have k: "keeps16 s s1" and "closed16 o1 = []" "writes16 o1 \<subseteq> peers16 s" by auto
    with keeps16_peers [OF k] k show ?thesis by (auto simp: keeps16_def)
  next
    case CONN_CLOSED
    with m show ?thesis by auto
  qed
  then have f1: "fds16 s1 = fds16 s" by blast
  then have "map fd16 (conns16 s1) = map fd16 (conns16 s)" by (simp add: fds16_def)
  then have "length (conns16 s1) = length (conns16 s)" and "fd16 (conns16 s1 ! i) = fd"
    using i by (metis length_map, metis length_map nth_map)
  with i clean16_effect [of i s1 fd s' o2] c wf f1
  have e2: "distinct (fds16 s') \<and> listen16 s' = listen16 s1 \<and> writes16 o2 = {} \<and> peers16 s' \<subseteq> peers16 s1
    \<and> set (fds16 s') = set (fds16 s1) - set (closed16 o2) \<and> set (closed16 o2) \<subseteq> {fd}"
    by (simp add: wf16_def)
  from e1 e2 wf out show ?thesis by (auto simp: wf16_def)
qed

lemma step16_effect:
  assumes wf: "wf16 s" and ok: "ok16 s e"
  obtains s' out where "step16 s e = Inr (s', out)" and "wf16 s'" and "listen16 s' = listen16 s"
    and "set (fds16 s') = (set (fds16 s) \<union> accepts16 e) - set (closed16 out)"
    and "set (closed16 out) \<subseteq> set (fds16 s)" and "writes16 out \<subseteq> peers16 s"
    and "peers16 s' \<subseteq> peers16 s \<union> handshakes16 e"
proof (cases e)
  case (Accept16 as eagain)
  with ok have all: "\<forall>a \<in> set as. fst (snd a) \<and> snd (snd a)" by auto
  from accept_loop16_effect [OF all, of eagain s] obtain s' out where
    "accept_loop16 as eagain s = Inr (s', out)" "fds16 s' = rev (map fst as) @ fds16 s"
    "listen16 s' = listen16 s" "peers16 s' = peers16 s" "closed16 out = []" "writes16 out = {}" by blast
  with Accept16 ok wf show ?thesis by (intro that [of s' out]) (auto simp: wf16_def)
next
  case (Conn16 fd h rs)
  obtain s' out where "conn_step16 fd h rs s = (s', out)" by fastforce
  with Conn16 ok conn_step16_effect [OF wf _ this] show ?thesis by (intro that [of s' out]) auto
next
  case Signal16
  with wf show ?thesis by (intro that [of "s\<lparr>running16 := False\<rparr>" "[]"]) (auto simp: wf16_def fds16_def peers16_def)
qed

lemma peers16_fds: "peers16 s \<subseteq> set (fds16 s)"
  by (auto simp: peers16_def fds16_def)

text \<open>
  A monitor of a run: \<open>H\<close> holds the descriptors whose TLS handshake has succeeded since they were last
  closed, and no plaintext may be written to any other.
\<close>

fun confidential :: "int set \<Rightarrow> srv16 \<Rightarrow> ev16 list \<Rightarrow> bool" where
  "confidential H s [] = True"
| "confidential H s (e # es) =
     (case step16 s e of Inl _ \<Rightarrow> False
      | Inr (s1, o1) \<Rightarrow> writes16 o1 \<subseteq> H \<and> confidential ((H \<union> handshakes16 e) - set (closed16 o1)) s1 es)"

lemma confidential_run:
  "wf16 s \<Longrightarrow> env_run ok16 step16 s es \<Longrightarrow> peers16 s \<subseteq> H \<Longrightarrow> confidential H s es"
proof (induction es arbitrary: s H)
  case Nil
  then show ?case by simp
next
  case (Cons e es)
  then have "ok16 s e" by simp
  obtain s' out where st: "step16 s e = Inr (s', out)" and "wf16 s'" and "listen16 s' = listen16 s"
    and f: "set (fds16 s') = (set (fds16 s) \<union> accepts16 e) - set (closed16 out)"
    and "set (closed16 out) \<subseteq> set (fds16 s)" and "writes16 out \<subseteq> peers16 s"
    and p: "peers16 s' \<subseteq> peers16 s \<union> handshakes16 e"
    by (rule step16_effect [OF Cons.prems(1) \<open>ok16 s e\<close>])
  moreover have "peers16 s' \<subseteq> (H \<union> handshakes16 e) - set (closed16 out)"
    using p f Cons.prems(3) peers16_fds [of s'] by blast
  ultimately show ?case using Cons by auto
qed

lemma run16_effect:
  "wf16 s \<Longrightarrow> env_run ok16 step16 s es \<Longrightarrow>
     \<exists>s' out. run step16 s es = Inr (s', out) \<and> wf16 s' \<and> listen16 s' = listen16 s
       \<and> set (fds16 s) \<union> \<Union> (accepts16 ` set es) = set (fds16 s') \<union> set (closed16 out)"
proof (induction es arbitrary: s)
  case Nil
  then show ?case by simp
next
  case (Cons e es)
  then have "ok16 s e" by simp
  obtain s1 o1 where st: "step16 s e = Inr (s1, o1)" and wf1: "wf16 s1"
    and l: "listen16 s1 = listen16 s" and f: "set (fds16 s1) = (set (fds16 s) \<union> accepts16 e) - set (closed16 o1)"
    and c: "set (closed16 o1) \<subseteq> set (fds16 s)" and "writes16 o1 \<subseteq> peers16 s"
    and "peers16 s1 \<subseteq> peers16 s \<union> handshakes16 e"
    by (rule step16_effect [OF Cons.prems(1) \<open>ok16 s e\<close>])
  from st Cons.prems have "env_run ok16 step16 s1 es" by simp
  from Cons.IH [OF wf1 this] obtain s' o2 where r: "run step16 s1 es = Inr (s', o2)" and "wf16 s'" "listen16 s' = listen16 s1"
    and u: "set (fds16 s1) \<union> \<Union> (accepts16 ` set es) = set (fds16 s') \<union> set (closed16 o2)" by blast
  moreover have "set (fds16 s) \<union> \<Union> (accepts16 ` set (e # es)) = set (fds16 s') \<union> set (closed16 (o1 @ o2))"
    using f c u by auto
  ultimately show ?case using st l by auto
qed

lemma closed16_shutdown: "set (closed16 (shutdown16 s)) = insert (listen16 s) (set (fds16 s))"
  by (auto simp: shutdown16_def closed16_concat fds16_def comp_def)

section \<open>Properties\<close>

text \<open>
  C22: the TLS server over any run. As long as memory can be had it never faults; no descriptor is in
  the list of connections twice; every accepted descriptor is a connection or has been closed, and the
  end of \<^verbatim>\<open>main\<close> closes the rest and the listening socket; and no plaintext is ever written to a
  descriptor whose TLS handshake has not succeeded since it was last closed.
\<close>

theorem tls16_confidential:
  assumes "wf16 s" and "env_run ok16 step16 s es" and "peers16 s \<subseteq> H"
  shows "\<exists>s' out. run step16 s es = Inr (s', out) \<and> wf16 s'
      \<and> set (fds16 s) \<union> \<Union> (accepts16 ` set es) = set (fds16 s') \<union> set (closed16 out)
      \<and> set (closed16 (out @ shutdown16 s')) = set (fds16 s) \<union> \<Union> (accepts16 ` set es) \<union> {listen16 s}
      \<and> confidential H s es"
proof -
  from run16_effect [OF assms(1,2)] obtain s' out where r: "run step16 s es = Inr (s', out)" "wf16 s'" "listen16 s' = listen16 s"
    and u: "set (fds16 s) \<union> \<Union> (accepts16 ` set es) = set (fds16 s') \<union> set (closed16 out)" by blast
  have "set (closed16 (out @ shutdown16 s')) = set (fds16 s) \<union> \<Union> (accepts16 ` set es) \<union> {listen16 s}"
    using u r(3) by (auto simp: closed16_shutdown)
  with r u confidential_run [OF assms] show ?thesis by blast
qed

text \<open>Two clients connect, the first speaks before and after the second has finished its handshake.\<close>

definition demo16 :: "ev16 list" where
  "demo16 = [Accept16 [(5, True, True), (6, True, True)] True, Conn16 5 Hs_done [],
     Conn16 5 Hs_want [(Plain ''early'', \<lambda>_ n. Wrote 99)], Conn16 6 Hs_done [],
     Conn16 5 Hs_want [(Plain ''late'', \<lambda>_ n. Wrote 1), (Rd_zero_return, \<lambda>_ n. Wrote 1)], Signal16]"

definition demo_srv16 :: srv16 where
  "demo_srv16 = \<lparr>listen16 = 3, conns16 = [], running16 = True\<rparr>"

theorem tls16_confidential_witness:
  "\<exists>s' out. run step16 demo_srv16 demo16 = Inr (s', out) \<and> set (closed16 (out @ shutdown16 s')) = {3, 5, 6}
     \<and> confidential {} demo_srv16 demo16"
proof -
  have wf: "wf16 demo_srv16" and p: "peers16 demo_srv16 \<subseteq> {}"
    by (simp_all add: wf16_def demo_srv16_def fds16_def peers16_def)
  have env: "env_run ok16 step16 demo_srv16 demo16" by code_simp
  have "set (fds16 demo_srv16) \<union> \<Union> (accepts16 ` set demo16) \<union> {listen16 demo_srv16} = {3, 5, 6}"
    by (auto simp: demo16_def demo_srv16_def fds16_def)
  with tls16_confidential [OF wf env p] show ?thesis by metis
qed

lemma plain_to_concat:
  "plain_to p (concat (map f js)) = concat (map (\<lambda>j. plain_to p (f j)) js)"
  by (induction js) auto

lemma concat_single:
  "k \<in> set js \<Longrightarrow> distinct js \<Longrightarrow> (\<And>j. j \<in> set js \<Longrightarrow> j \<noteq> k \<Longrightarrow> f j = []) \<Longrightarrow> concat (map f js) = f k"
proof (induction js)
  case Nil
  then show ?case by simp
next
  case (Cons j js)
  show ?case
  proof (cases "j = k")
    case True
    with Cons.prems have "\<forall>i \<in> set js. f i = []" by auto
    with True show ?thesis by (simp add: concat_eq_Nil_conv)
  next
    case False
    with Cons show ?thesis by auto
  qed
qed

lemma plain_to_not_written: "p \<notin> writes16 os \<Longrightarrow> plain_to p os = []"
  by (induction p os rule: plain_to.induct) auto

lemma broadcast16_nth:
  assumes "distinct (map fd16 cs)" and "j < length cs" and "broadcast16 i buf ans cs = (cs', out)"
  shows "cs' ! j = fst (deliver16 i buf ans j (cs ! j))"
    and "plain_to (fd16 (cs ! j)) out = plain_to (fd16 (cs ! j)) (snd (deliver16 i buf ans j (cs ! j)))"
proof -
  have cs': "cs' = map (\<lambda>j. fst (deliver16 i buf ans j (cs ! j))) [0..<length cs]"
    and out: "out = concat (map (\<lambda>j. snd (deliver16 i buf ans j (cs ! j))) [0..<length cs])"
    using assms(3) by (simp_all add: broadcast16_def)
  show "cs' ! j = fst (deliver16 i buf ans j (cs ! j))" using assms(2) by (simp add: cs')
  have "plain_to (fd16 (cs ! j)) (snd (deliver16 i buf ans k (cs ! k))) = []" if "k < length cs" "k \<noteq> j" for k
  proof (rule plain_to_not_written, rule notI)
    assume "fd16 (cs ! j) \<in> writes16 (snd (deliver16 i buf ans k (cs ! k)))"
    then have "fd16 (cs ! j) = fd16 (cs ! k)" by (simp add: writes_deliver16)
    with assms(1,2) that show False by (simp add: distinct_conv_nth)
  qed
  then show "plain_to (fd16 (cs ! j)) out = plain_to (fd16 (cs ! j)) (snd (deliver16 i buf ans j (cs ! j)))"
    unfolding out plain_to_concat by (intro concat_single) (use assms(2) in auto)
qed

text \<open>
  C23: what a message does to each connection of the list, with distinct descriptors. The sender and
  the connections that are not established get nothing and stay as they are. Every other one gets a
  prefix of the plaintext, all of it exactly when the writes went through; it is marked closed when
  a write failed for good; and when a write wants to be retried, the connection is left exactly as
  after a complete delivery: the rest of the message is recorded nowhere, so it is lost, although
  the comment in the code announces a later attempt.
\<close>

theorem tls16_relay:
  assumes "distinct (map fd16 cs)" and "broadcast16 i buf ans cs = (cs', out)" and "j < length cs"
    and "tls_write buf (ans (fd16 (cs ! j))) = (ws, r)"
  shows "if state16 (cs ! j) = CONN_ESTABLISHED \<and> j \<noteq> i
         then \<exists>rest. buf = plain_to (fd16 (cs ! j)) out @ rest \<and> (r = Whole \<longleftrightarrow> rest = [])
              \<and> cs' ! j = (if r = Broken then (cs ! j)\<lparr>state16 := CONN_CLOSED\<rparr> else cs ! j)
         else plain_to (fd16 (cs ! j)) out = [] \<and> cs' ! j = cs ! j"
proof (cases "state16 (cs ! j) = CONN_ESTABLISHED \<and> j \<noteq> i")
  case True
  with broadcast16_nth [OF assms(1,3,2)] deliver16_send [of "cs ! j" j i buf ans ws r] assms(4)
  have "cs' ! j = (if r = Broken then (cs ! j)\<lparr>state16 := CONN_CLOSED\<rparr> else cs ! j)"
    and "plain_to (fd16 (cs ! j)) out = concat ws" by simp_all
  with True tls_write_prefix [OF assms(4)] show ?thesis by auto
next
  case False
  with broadcast16_nth [OF assms(1,3,2)] deliver16_skip [OF False, of buf ans]
  have "cs' ! j = cs ! j" and "plain_to (fd16 (cs ! j)) out = []" by simp_all
  then show ?thesis unfolding if_not_P [OF False] by blast
qed

theorem tls16_relay_witness:
  "\<exists>cs' out rest. broadcast16 0 ''hello'' (\<lambda>_ n. if n = 0 then Wrote 1 else Wr_want)
       [\<lparr>fd16 = 5, state16 = CONN_ESTABLISHED\<rparr>, \<lparr>fd16 = 6, state16 = CONN_ESTABLISHED\<rparr>] = (cs', out)
     \<and> ''hello'' = plain_to 6 out @ rest \<and> rest \<noteq> [] \<and> cs' ! 1 = \<lparr>fd16 = 6, state16 = CONN_ESTABLISHED\<rparr>"
proof -
  let ?ans = "\<lambda>(_::int) n::nat. if n = 0 then Wrote 1 else Wr_want"
  let ?cs = "[\<lparr>fd16 = 5, state16 = CONN_ESTABLISHED\<rparr>, \<lparr>fd16 = 6, state16 = CONN_ESTABLISHED\<rparr>]"
  obtain cs' out where b: "broadcast16 0 ''hello'' ?ans ?cs = (cs', out)" by fastforce
  have "tls_write ''hello'' (?ans (fd16 (?cs ! 1))) = ([''he''], Put_off)" by code_simp
  with tls16_relay [OF _ b, where j = 1 and ws = "[''he'']" and r = Put_off] b show ?thesis by auto
qed

end
