(* ===== verification/Chat16_Main.thy ===== *)
theory Chat16_Main
  imports Chat16_Tls
begin

text \<open>
  \<^verbatim>\<open>03_networking/lab_16_tls_epoll_chat/server.c\<close>, \<^verbatim>\<open>main\<close> from its command line to its end: the files of
  the certificate and the key, the signals, the set-up with its failures, the event loop and the shutdown. The
  theorem says which descriptors the whole process closes.
\<close>

text \<open>The certificate and the key, from the command line or by default.\<close>

definition cert_key16 :: "string list \<Rightarrow> string \<times> string \<times> sys list" where
  "cert_key16 argv =
     (case argv of
        prog # cert # key # rest \<Rightarrow> (cert, key, [])
      | _ \<Rightarrow> (''server.crt'', ''server.key'',
              [Eprint (''Using default cert/key: '' @ ''server.crt'' @ '' '' @ ''server.key'' @ nl)]))"

text \<open>
  \<^verbatim>\<open>set_nonblocking\<close>, with the answers of its two calls of \<^verbatim>\<open>fcntl\<close>; no caller looks at the result.
\<close>

definition set_nonblocking16 :: "int \<Rightarrow> int \<Rightarrow> int \<Rightarrow> int \<times> sys list" where
  "set_nonblocking16 fd flags set_ret = (if flags = -1 then (-1, []) else (set_ret, [Nonblock fd]))"

definition handle_sigint16 :: "srv16 \<Rightarrow> srv16" where
  "handle_sigint16 s = s\<lparr>running16 := False\<rparr>"

text \<open>
  The answers of OpenSSL are functions of the files: whether a context can be made, what loading the
  certificate and the key returns, and whether they match. \<open>wait_fails\<close> tells that \<^verbatim>\<open>epoll_wait\<close> fails after the last
  batch, which ends the loop as a signal does.
\<close>

definition main16 ::
    "string list \<Rightarrow> bool \<Rightarrow> (string \<Rightarrow> int) \<Rightarrow> (string \<Rightarrow> int) \<Rightarrow> (string \<Rightarrow> string \<Rightarrow> bool) \<Rightarrow> int \<times> int \<times> int \<Rightarrow> int \<Rightarrow>
     ev16 list list \<Rightarrow> bool \<Rightarrow> out16 list res" where
  "main16 argv ctx_new use_cert use_key check ls epfd batches wait_fails =
     (case cert_key16 argv of (cert, key, o1) \<Rightarrow>
        case create_ssl_ctx16 ctx_new (use_cert cert) (use_key key) (check cert key) of (ctx, o2) \<Rightarrow>
          case setup16 ctx ls epfd of (srv, o3) \<Rightarrow>
            let o4 = map Call16 (o1 @ [Signal 2 0, Signal 15 0] @ o2 @ o3)
            in case srv of
                 None \<Rightarrow> Inr o4
               | Some s \<Rightarrow>
                   bindR (batch16 s batches) (\<lambda>(s1, o5).
                     Inr (o4 @ o5 @ (if running16 s1 \<and> wait_fails then [Call16 (Perror ''epoll_wait'')] else [])
                          @ shutdown16 s1)))"

section \<open>What the process closes\<close>

lemma handle_sigint16_step: "step16 s Signal16 = Inr (handle_sigint16 s, [])"
  by (simp add: handle_sigint16_def)

lemma closed16_calls [simp]: "closed16 (map Call16 os) = closed os"
  by (induction os rule: closed.induct) auto

text \<open>The loop runs a prefix of its batches.\<close>

lemma batch16_run:
  "wf16 s \<Longrightarrow> env_run ok16 step16 s (concat bs) \<Longrightarrow>
     \<exists>k s' out. batch16 s bs = Inr (s', out) \<and> run step16 s (concat (take k bs)) = Inr (s', out)
       \<and> env_run ok16 step16 s (concat (take k bs))"
proof (induction bs arbitrary: s)
  case Nil
  then show ?case by simp
next
  case (Cons es bs)
  show ?case
  proof (cases "running16 s")
    case False
    then show ?thesis by (intro exI [of _ 0]) simp
  next
    case True
    have pre: "env_run ok16 step16 s es" if "env_run ok16 step16 s (es @ fs)" for fs s
      using that by (induction es arbitrary: s) (auto split: sum.splits)
    have post: "env_run ok16 step16 s1 fs"
      if "env_run ok16 step16 s (es @ fs)" "run step16 s es = Inr (s1, o1)" for fs s s1 o1
      using that by (induction es arbitrary: s o1) (auto simp: run_Cons_Inr simp del: run.simps(2))
    have both: "env_run ok16 step16 s (es @ fs)"
      if "env_run ok16 step16 s es" "run step16 s es = Inr (s1, o1)" "env_run ok16 step16 s1 fs" for fs s s1 o1
      using that by (induction es arbitrary: s o1) (auto simp: run_Cons_Inr simp del: run.simps(2))
    from Cons.prems(2) have e: "env_run ok16 step16 s (es @ concat bs)" by simp
    from run16_effect [OF Cons.prems(1) pre [OF e]] obtain s1 o1 where
      r: "run step16 s es = Inr (s1, o1)" and wf1: "wf16 s1" by blast
    from Cons.IH [OF wf1 post [OF e r]] obtain k s' o2 where
      b: "batch16 s1 bs = Inr (s', o2)" "run step16 s1 (concat (take k bs)) = Inr (s', o2)"
      "env_run ok16 step16 s1 (concat (take k bs))" by blast
    from True r b have "batch16 s (es # bs) = Inr (s', o1 @ o2)" by simp
    moreover from r b(2) have "run step16 s (concat (take (Suc k) (es # bs))) = Inr (s', o1 @ o2)"
      by (auto simp: run_append_Inr)
    moreover from both [OF pre [OF e] r b(3)] have "env_run ok16 step16 s (concat (take (Suc k) (es # bs)))" by simp
    ultimately show ?thesis by blast
  qed
qed

text \<open>
  A process that starts closes, in the end, its listening socket and every connection it accepted, and nothing else; one that
  cannot start returns 1 and has closed the listening socket if it had one.
\<close>

theorem main16_closes:
  assumes "env_run ok16 step16 \<lparr>listen16 = sfd, conns16 = [], running16 = True\<rparr> (concat batches)"
    and "0 \<le> sfd" and "fst (cert_key16 argv) = cert" and "fst (snd (cert_key16 argv)) = key"
  shows "\<exists>out. main16 argv ctx_new use_cert use_key check (sfd, bind_ret, listen_ret) epfd batches w = Inr out
    \<and> (if ctx_new \<and> 0 < use_cert cert \<and> 0 < use_key key \<and> check cert key \<and> 0 \<le> bind_ret \<and> 0 \<le> listen_ret \<and> 0 \<le> epfd
       then \<exists>k. set (closed16 out) = insert sfd (\<Union> (accepts16 ` set (concat (take k batches))))
       else last out = Call16 (Exit 1) \<and> set (closed16 out) \<subseteq> {sfd})"
proof -
  let ?s = "\<lparr>listen16 = sfd, conns16 = [], running16 = True\<rparr>"
  obtain o1 where ck: "cert_key16 argv = (cert, key, o1)" and o1: "closed o1 = []"
    using assms(3,4) by (auto simp: cert_key16_def split: list.splits)
  have wf: "wf16 ?s" by (simp add: wf16_def fds16_def)
  from batch16_run [OF wf assms(1)] obtain k s' out where b: "batch16 ?s batches = Inr (s', out)"
    and r: "run step16 ?s (concat (take k batches)) = Inr (s', out)"
    and e: "env_run ok16 step16 ?s (concat (take k batches))" by blast
  from run16_effect [OF wf e] r have l: "listen16 s' = sfd"
    and u: "set (fds16 s') \<union> set (closed16 out) = \<Union> (accepts16 ` set (concat (take k batches)))"
    by (auto simp: fds16_def)
  have "set (closed16 (out @ shutdown16 s')) = insert sfd (\<Union> (accepts16 ` set (concat (take k batches))))"
    using l u by (auto simp: closed16_shutdown)
  then show ?thesis
    using assms(2) o1 b
    by (auto simp: main16_def ck setup16_def create_ssl_ctx16_def create_listener16_def Let_def intro!: exI [of _ k])
qed

end
