(* ===== verification/Chat15_Queue.thy ===== *)
theory Chat15_Queue
  imports Interfaces
begin

text \<open>
  \<^verbatim>\<open>03_networking/lab_15_threaded_chat_server/server.c\<close>, the data structures: the job queue, a
  singly linked list with head and tail pointers, and the list of clients, unlinked through a
  pointer to a pointer. A heap of cells is a map from addresses to a value and a next pointer; a
  pointer is an address or nothing. Reading or writing an unallocated cell is \<open>Bad_pointer\<close>. Each
  operation runs with its mutex held, so it is one step here; what the threads do between
  the operations is in the theory on the workers.
\<close>

section \<open>Cells and chains\<close>

type_synonym addr = nat
type_synonym ptr = "addr option"
type_synonym cells = "addr \<Rightarrow> (int \<times> ptr) option"

text \<open>\<open>chain h p as\<close>: following the next pointers from \<open>p\<close> visits the cells \<open>as\<close> and ends.\<close>

fun chain :: "cells \<Rightarrow> ptr \<Rightarrow> addr list \<Rightarrow> bool" where
  "chain h p [] = (p = None)"
| "chain h p (a # as) = (p = Some a \<and> (\<exists>v nx. h a = Some (v, nx) \<and> chain h nx as))"

definition vals :: "cells \<Rightarrow> addr list \<Rightarrow> int list" where
  "vals h as = map (\<lambda>a. case h a of Some (v, _) \<Rightarrow> v | None \<Rightarrow> 0) as"

lemma vals_simps [simp]:
  "vals h [] = []"
  "vals h (a # as) = (case h a of Some (v, _) \<Rightarrow> v | None \<Rightarrow> 0) # vals h as"
  "vals h (as @ bs) = vals h as @ vals h bs"
  by (simp_all add: vals_def)

lemma chain_frame: "a \<notin> set as \<Longrightarrow> chain (h(a := x)) p as = chain h p as"
  by (induction as arbitrary: p) auto

lemma vals_frame: "a \<notin> set as \<Longrightarrow> vals (h(a := x)) as = vals h as"
  by (induction as) auto

lemma chain_allocated: "chain h p as \<Longrightarrow> a \<in> set as \<Longrightarrow> h a \<noteq> None"
  by (induction as arbitrary: p) auto

text \<open>Two chains meet: what a chain is made of is determined by its start.\<close>

lemma chain_unique: "chain h p as \<Longrightarrow> chain h p bs \<Longrightarrow> as = bs"
proof (induction as arbitrary: p bs)
  case Nil
  then show ?case by (cases bs) auto
next
  case (Cons a as)
  then show ?case by (cases bs) auto
qed

text \<open>Appending a cell by writing the next pointer of the last one.\<close>

lemma chain_snoc:
  "chain h p (as @ [l]) \<Longrightarrow> distinct (as @ [l]) \<Longrightarrow> b \<notin> set (as @ [l]) \<Longrightarrow> h l = Some (v, nx) \<Longrightarrow>
     chain (h(b \<mapsto> (w, None), l \<mapsto> (v, Some b))) p (as @ [l, b])
     \<and> vals (h(b \<mapsto> (w, None), l \<mapsto> (v, Some b))) (as @ [l, b]) = vals h (as @ [l]) @ [w]"
proof (induction as arbitrary: p)
  case Nil
  then show ?case by auto
next
  case (Cons a as)
  then obtain u nx' where a: "p = Some a" "h a = Some (u, nx')" "chain h nx' (as @ [l])" by auto
  with Cons.IH [of nx'] Cons.prems show ?case by auto
qed

section \<open>The job queue\<close>

record job_queue =
  head :: ptr
  tail :: ptr
  closed_flag :: bool
  jobs15 :: cells

definition jobq_init :: "cells \<Rightarrow> job_queue" where
  "jobq_init h = \<lparr>head = None, tail = None, closed_flag = False, jobs15 = h\<rparr>"

text \<open>
  \<open>m\<close> is the result of \<^verbatim>\<open>malloc\<close>; without a cell the function prints an error and returns.
\<close>

definition jobq_push :: "ptr \<Rightarrow> int \<Rightarrow> job_queue \<Rightarrow> job_queue res" where
  "jobq_push m client_fd q =
     (case m of
        None \<Rightarrow> Inr q
      | Some j \<Rightarrow>
          let h = (jobs15 q)(j \<mapsto> (client_fd, None))
          in case tail q of
               None \<Rightarrow> Inr (q\<lparr>jobs15 := h, head := Some j, tail := Some j\<rparr>)
             | Some t \<Rightarrow>
                 (case h t of
                    None \<Rightarrow> Inl Bad_pointer
                  | Some (v, _) \<Rightarrow> Inr (q\<lparr>jobs15 := h(t \<mapsto> (v, Some j)), tail := Some j\<rparr>)))"

text \<open>
  What a worker that holds the mutex finds: nothing and an open queue (it waits on the
  condition), nothing and a closed one (\<open>-1\<close>), or the first job.
\<close>

datatype popped = Wait_cond | Closed_queue | Job int job_queue

definition jobq_pop :: "job_queue \<Rightarrow> popped res" where
  "jobq_pop q =
     (case head q of
        None \<Rightarrow> Inr (if closed_flag q then Closed_queue else Wait_cond)
      | Some j \<Rightarrow>
          (case jobs15 q j of
             None \<Rightarrow> Inl Bad_pointer
           | Some (fd, nx) \<Rightarrow>
               Inr (Job fd (q\<lparr>head := nx, tail := (if nx = None then None else tail q),
                              jobs15 := (jobs15 q)(j := None)\<rparr>))))"

definition jobq_close :: "job_queue \<Rightarrow> job_queue" where
  "jobq_close q = q\<lparr>closed_flag := True\<rparr>"

text \<open>The queue as a list: a chain without repetition whose last cell is the tail.\<close>

definition jobq_rep :: "job_queue \<Rightarrow> int list \<Rightarrow> bool" where
  "jobq_rep q xs \<longleftrightarrow> (\<exists>as. chain (jobs15 q) (head q) as \<and> distinct as \<and> vals (jobs15 q) as = xs
     \<and> tail q = (if as = [] then None else Some (last as)))"

text \<open>\<^verbatim>\<open>malloc\<close> returns a cell that is not in use.\<close>

definition fresh15 :: "job_queue \<Rightarrow> ptr \<Rightarrow> bool" where
  "fresh15 q m \<longleftrightarrow> (\<exists>j. m = Some j \<and> jobs15 q j = None)"

definition pop15 :: "job_queue \<Rightarrow> (int \<times> job_queue) option res" where
  "pop15 q = bindR (jobq_pop q) (\<lambda>r. Inr (case r of Job fd q1 \<Rightarrow> Some (fd, q1) | _ \<Rightarrow> None))"

lemma jobq_init_rep: "jobq_rep (jobq_init h) []"
  by (auto simp: jobq_rep_def jobq_init_def intro!: exI [of _ "[]"])

lemma jobq_push_rep:
  assumes "jobq_rep q xs" and "jobs15 q j = None"
  shows "\<exists>q1. jobq_push (Some j) fd q = Inr q1 \<and> jobq_rep q1 (xs @ [fd]) \<and> closed_flag q1 = closed_flag q"
proof -
  from assms(1) obtain as where as: "chain (jobs15 q) (head q) as" "distinct as" "vals (jobs15 q) as = xs"
    "tail q = (if as = [] then None else Some (last as))"
    by (auto simp: jobq_rep_def)
  have new: "j \<notin> set as" using as(1) assms(2) by (auto dest: chain_allocated)
  show ?thesis
  proof (cases as rule: rev_cases)
    case Nil
    with as show ?thesis
      by (auto simp: jobq_push_def jobq_rep_def intro!: exI [of _ "[j]"])
  next
    case (snoc bs l)
    then obtain v nx where l: "jobs15 q l = Some (v, nx)"
      using chain_allocated [OF as(1), of l] by auto
    have "l \<noteq> j" using new snoc by auto
    from chain_snoc [of "jobs15 q" "head q" bs l j v nx fd] as snoc new l \<open>l \<noteq> j\<close>
    have "chain ((jobs15 q)(j \<mapsto> (fd, None), l \<mapsto> (v, Some j))) (head q) (bs @ [l, j])"
      and "vals ((jobs15 q)(j \<mapsto> (fd, None), l \<mapsto> (v, Some j))) (bs @ [l, j]) = xs @ [fd]"
      by auto
    with as snoc new l \<open>l \<noteq> j\<close> show ?thesis
      by (auto simp: jobq_push_def jobq_rep_def intro!: exI [of _ "bs @ [l, j]"])
  qed
qed

lemma jobq_pop_rep:
  assumes "jobq_rep q (x # xs)"
  shows "\<exists>q1. jobq_pop q = Inr (Job x q1) \<and> jobq_rep q1 xs \<and> closed_flag q1 = closed_flag q"
proof -
  from assms obtain as where as: "chain (jobs15 q) (head q) as" "distinct as" "vals (jobs15 q) as = x # xs"
    "tail q = (if as = [] then None else Some (last as))"
    by (auto simp: jobq_rep_def)
  then obtain a bs where ab: "as = a # bs" by (cases as) auto
  with as obtain nx where a: "head q = Some a" "jobs15 q a = Some (x, nx)" "chain (jobs15 q) nx bs"
    by auto
  have "nx = None \<longleftrightarrow> bs = []" using a(3) by (cases bs) auto
  with as ab a show ?thesis
    by (auto simp: jobq_pop_def jobq_rep_def chain_frame vals_frame intro!: exI [of _ bs])
qed

lemma jobq_pop_empty:
  "jobq_rep q [] \<Longrightarrow> jobq_pop q = Inr (if closed_flag q then Closed_queue else Wait_cond)"
  by (auto simp: jobq_rep_def jobq_pop_def vals_def)

interpretation jobq: fifo jobq_rep fresh15 jobq_push pop15
proof
  fix q xs m x
  assume "jobq_rep q xs" and "fresh15 q m"
  then show "\<exists>q1. jobq_push m x q = Inr q1 \<and> jobq_rep q1 (xs @ [x])"
    using jobq_push_rep [of q xs _ x] by (auto simp: fresh15_def)
next
  fix q assume "jobq_rep q []"
  then show "pop15 q = Inr None" by (simp add: pop15_def jobq_pop_empty)
next
  fix q x xs assume "jobq_rep q (x # xs)"
  then show "\<exists>q1. pop15 q = Inr (Some (x, q1)) \<and> jobq_rep q1 xs"
    using jobq_pop_rep [of q x xs] by (auto simp: pop15_def)
qed

text \<open>
  C6: the job queue of the threaded server is first-in first-out and memory safe. Any series of
  pushes (with cells that \<^verbatim>\<open>malloc\<close> hands out fresh) and pops from the initial queue runs without
  touching an unallocated cell, and what was popped followed by what is left is what was pushed,
  in order. Closing the queue loses nothing: a worker gets \<open>-1\<close> only when no job is left.
\<close>

theorem jobq_fifo:
  assumes "qfresh fresh15 jobq_push pop15 (jobq_init h) ops"
  shows "\<exists>ys q zs. qrun jobq_push pop15 (jobq_init h) ops = Inr (ys, q) \<and> jobq_rep q zs
    \<and> ys @ zs = pushed ops
    \<and> (jobq_pop (jobq_close q) = Inr Closed_queue \<longleftrightarrow> zs = [])"
proof -
  from jobq.qrun_fifo [OF jobq_init_rep assms] obtain ys q zs where
    r: "qrun jobq_push pop15 (jobq_init h) ops = Inr (ys, q)" and q: "jobq_rep q zs" and e: "ys @ zs = pushed ops"
    by auto
  have "jobq_rep (jobq_close q) zs" using q by (simp add: jobq_rep_def jobq_close_def)
  then have "jobq_pop (jobq_close q) = Inr Closed_queue \<longleftrightarrow> zs = []"
    using jobq_pop_empty [of "jobq_close q"] jobq_pop_rep [of "jobq_close q"]
    by (cases zs) (auto simp: jobq_close_def)
  with r q e show ?thesis by blast
qed

theorem jobq_fifo_witness:
  "\<exists>q zs. qrun jobq_push pop15 (jobq_init (\<lambda>_. None)) [Push (Some 0) 7, Push (Some 1) 8, Pop, Push (Some 2) 9]
     = Inr ([7], q) \<and> jobq_rep q zs \<and> zs = [8, 9]"
proof -
  let ?ops = "[Push (Some 0) 7, Push (Some 1) 8, Pop, Push (Some 2) 9] :: (ptr, int) qop list"
  have fr: "qfresh fresh15 jobq_push pop15 (jobq_init (\<lambda>_. None)) ?ops"
    by (simp add: fresh15_def jobq_init_def jobq_push_def pop15_def jobq_pop_def)
  have run: "\<exists>q. qrun jobq_push pop15 (jobq_init (\<lambda>_. None)) ?ops = Inr ([7], q)"
    by (simp add: jobq_init_def jobq_push_def pop15_def jobq_pop_def)
  from jobq_fifo [OF fr] run show ?thesis by auto
qed

section \<open>The list of clients\<close>

record client_list =
  clients_head :: ptr
  cells15 :: cells

definition add_client :: "ptr \<Rightarrow> int \<Rightarrow> client_list \<Rightarrow> client_list" where
  "add_client m fd cl =
     (case m of
        None \<Rightarrow> cl
      | Some c \<Rightarrow> cl\<lparr>cells15 := (cells15 cl)(c \<mapsto> (fd, clients_head cl)), clients_head := Some c\<rparr>)"

text \<open>
  \<^verbatim>\<open>client_t **pp\<close> points to the list head or to the \<^verbatim>\<open>next\<close> field of a cell. The loop of
  \<^verbatim>\<open>remove_client\<close> follows it until the descriptor is found or the list ends.
\<close>

datatype pptr = Root | Next_of addr

definition load :: "client_list \<Rightarrow> pptr \<Rightarrow> ptr res" where
  "load cl pp =
     (case pp of
        Root \<Rightarrow> Inr (clients_head cl)
      | Next_of a \<Rightarrow> (case cells15 cl a of None \<Rightarrow> Inl Bad_pointer | Some (_, nx) \<Rightarrow> Inr nx))"

definition store :: "client_list \<Rightarrow> pptr \<Rightarrow> ptr \<Rightarrow> client_list res" where
  "store cl pp p =
     (case pp of
        Root \<Rightarrow> Inr (cl\<lparr>clients_head := p\<rparr>)
      | Next_of a \<Rightarrow>
          (case cells15 cl a of
             None \<Rightarrow> Inl Bad_pointer
           | Some (v, _) \<Rightarrow> Inr (cl\<lparr>cells15 := (cells15 cl)(a \<mapsto> (v, p))\<rparr>)))"

text \<open>\<open>None\<close> is a loop that does not end, which the property below excludes.\<close>

partial_function (option) remove_loop :: "client_list \<Rightarrow> pptr \<Rightarrow> int \<Rightarrow> client_list res option" where
  "remove_loop cl pp fd =
     (case load cl pp of
        Inl e \<Rightarrow> Some (Inl e)
      | Inr None \<Rightarrow> Some (Inr cl)
      | Inr (Some a) \<Rightarrow>
          (case cells15 cl a of
             None \<Rightarrow> Some (Inl Bad_pointer)
           | Some (v, nx) \<Rightarrow>
               if v = fd
               then Some (bindR (store cl pp nx) (\<lambda>cl1. Inr (cl1\<lparr>cells15 := (cells15 cl1)(a := None)\<rparr>)))
               else remove_loop cl (Next_of a) fd))"

definition remove_client :: "client_list \<Rightarrow> int \<Rightarrow> client_list res option" where
  "remove_client cl fd = remove_loop cl Root fd"

definition clients_rep :: "client_list \<Rightarrow> int list \<Rightarrow> bool" where
  "clients_rep cl xs \<longleftrightarrow> (\<exists>as. chain (cells15 cl) (clients_head cl) as \<and> distinct as \<and> vals (cells15 cl) as = xs)"

lemma add_client_rep:
  assumes "clients_rep cl xs" and "cells15 cl c = None"
  shows "clients_rep (add_client (Some c) fd cl) (fd # xs)"
proof -
  from assms(1) obtain as where as: "chain (cells15 cl) (clients_head cl) as" "distinct as" "vals (cells15 cl) as = xs"
    by (auto simp: clients_rep_def)
  have "c \<notin> set as" using as(1) assms(2) by (auto dest: chain_allocated)
  with as show ?thesis
    by (auto simp: add_client_def clients_rep_def chain_frame vals_frame intro!: exI [of _ "c # as"])
qed

text \<open>
  \<open>seg h p as q\<close>: the cells \<open>as\<close> lead from \<open>p\<close> to \<open>q\<close>. The pointer the loop looks through holds
  \<open>q\<close>, and storing through it redirects the end of the segment.
\<close>

fun seg :: "cells \<Rightarrow> ptr \<Rightarrow> addr list \<Rightarrow> ptr \<Rightarrow> bool" where
  "seg h p [] q = (p = q)"
| "seg h p (a # as) q = (p = Some a \<and> (\<exists>v nx. h a = Some (v, nx) \<and> seg h nx as q))"

lemma chain_append: "chain h p (as @ bs) \<longleftrightarrow> (\<exists>q. seg h p as q \<and> chain h q bs)"
  by (induction as arbitrary: p) auto

lemma seg_frame: "a \<notin> set as \<Longrightarrow> seg (h(a := x)) p as q = seg h p as q"
  by (induction as arbitrary: p) auto

lemma seg_snoc: "seg h p (as @ [l]) q \<longleftrightarrow> seg h p as (Some l) \<and> (\<exists>v. h l = Some (v, q))"
  by (induction as arbitrary: p) auto

definition loc_of :: "addr list \<Rightarrow> pptr" where
  "loc_of pre = (if pre = [] then Root else Next_of (last pre))"

lemma load_seg: "seg (cells15 cl) (clients_head cl) pre q \<Longrightarrow> load cl (loc_of pre) = Inr q"
  by (cases pre rule: rev_cases) (auto simp: load_def loc_of_def seg_snoc)

lemma store_seg:
  assumes "seg (cells15 cl) (clients_head cl) pre q" and "distinct pre"
  shows "\<exists>cl1. store cl (loc_of pre) q1 = Inr cl1 \<and> seg (cells15 cl1) (clients_head cl1) pre q1
    \<and> vals (cells15 cl1) pre = vals (cells15 cl) pre \<and> (\<forall>a. a \<notin> set pre \<longrightarrow> cells15 cl1 a = cells15 cl a)"
proof (cases pre rule: rev_cases)
  case Nil
  then show ?thesis by (simp add: store_def loc_of_def)
next
  case (snoc bs l)
  with assms show ?thesis by (auto simp: store_def loc_of_def seg_snoc seg_frame vals_frame)
qed

lemma chain_cong: "(\<And>a. a \<in> set as \<Longrightarrow> h a = h1 a) \<Longrightarrow> chain h p as = chain h1 p as"
  by (induction as arbitrary: p) auto

lemma vals_cong: "(\<And>a. a \<in> set as \<Longrightarrow> h a = h1 a) \<Longrightarrow> vals h as = vals h1 as"
  by (simp add: vals_def)

lemma remove_loop_chain:
  assumes "seg (cells15 cl) (clients_head cl) pre q" and "chain (cells15 cl) q as" and "distinct (pre @ as)"
  shows "\<exists>cl1 as1. remove_loop cl (loc_of pre) fd = Some (Inr cl1)
    \<and> chain (cells15 cl1) (clients_head cl1) (pre @ as1) \<and> distinct (pre @ as1)
    \<and> vals (cells15 cl1) pre = vals (cells15 cl) pre
    \<and> vals (cells15 cl1) as1 = remove1 fd (vals (cells15 cl) as)"
  using assms
proof (induction as arbitrary: pre q)
  case Nil
  then have "load cl (loc_of pre) = Inr None" by (simp add: load_seg)
  with Nil show ?case
    by (auto simp: remove_loop.simps chain_append intro!: exI [of _ cl] exI [of _ "[]"])
next
  case (Cons a as)
  then obtain v nx where a: "q = Some a" "cells15 cl a = Some (v, nx)" "chain (cells15 cl) nx as" by auto
  have ld: "load cl (loc_of pre) = Inr (Some a)" using load_seg [OF Cons.prems(1)] a by simp
  show ?case
  proof (cases "v = fd")
    case True
    from store_seg [OF Cons.prems(1), of nx] Cons.prems(3) obtain cl1 where
      st: "store cl (loc_of pre) nx = Inr cl1" and sg: "seg (cells15 cl1) (clients_head cl1) pre nx"
      and vp: "vals (cells15 cl1) pre = vals (cells15 cl) pre"
      and fr: "\<And>a. a \<notin> set pre \<Longrightarrow> cells15 cl1 a = cells15 cl a" by auto
    let ?cl2 = "cl1\<lparr>cells15 := (cells15 cl1)(a := None)\<rparr>"
    have "chain (cells15 cl1) nx as" and "vals (cells15 cl1) as = vals (cells15 cl) as"
      using a(3) chain_cong [of as "cells15 cl1" "cells15 cl"] vals_cong [of as "cells15 cl1" "cells15 cl"]
        fr Cons.prems(3) by auto
    then have "chain (cells15 ?cl2) (clients_head ?cl2) (pre @ as)"
      "vals (cells15 ?cl2) as = vals (cells15 cl) as" "vals (cells15 ?cl2) pre = vals (cells15 cl) pre"
      using sg vp Cons.prems(3) by (auto simp: chain_append seg_frame chain_frame vals_frame)
    with True st ld a Cons.prems(3) show ?thesis
      by (auto simp: remove_loop.simps intro!: exI [of _ as])
  next
    case False
    have "seg (cells15 cl) (clients_head cl) (pre @ [a]) nx"
      using Cons.prems(1) a by (simp add: seg_snoc)
    moreover have "distinct ((pre @ [a]) @ as)" using Cons.prems(3) by simp
    ultimately obtain cl1 as1 where
      r: "remove_loop cl (loc_of (pre @ [a])) fd = Some (Inr cl1)"
      "chain (cells15 cl1) (clients_head cl1) ((pre @ [a]) @ as1)" "distinct ((pre @ [a]) @ as1)"
      "vals (cells15 cl1) (pre @ [a]) = vals (cells15 cl) (pre @ [a])"
      "vals (cells15 cl1) as1 = remove1 fd (vals (cells15 cl) as)"
      using Cons.IH [OF _ a(3)] by blast
    have "remove_loop cl (loc_of pre) fd = remove_loop cl (Next_of a) fd"
      using ld a False by (subst remove_loop.simps) simp
    with r a False show ?thesis
      by (auto simp: loc_of_def intro!: exI [of _ cl1] exI [of _ "a # as1"])
  qed
qed

lemma remove_client_rep:
  assumes "clients_rep cl xs"
  shows "\<exists>cl1. remove_client cl fd = Some (Inr cl1) \<and> clients_rep cl1 (remove1 fd xs)"
proof -
  from assms obtain as where "chain (cells15 cl) (clients_head cl) as" "distinct as" "vals (cells15 cl) as = xs"
    by (auto simp: clients_rep_def)
  with remove_loop_chain [of cl "[]" "clients_head cl" as fd] show ?thesis
    by (auto simp: remove_client_def clients_rep_def loc_of_def)
qed

text \<open>
  \<^verbatim>\<open>remove_client\<close> ends, touches no unallocated cell and removes exactly the first entry with
  that descriptor, wherever it is in the list; together with \<^verbatim>\<open>add_client\<close> it keeps the list a proper
  chain, so removing a client just added restores the old list.
\<close>

theorem client_list_correct:
  assumes "clients_rep cl xs"
  shows "(\<exists>cl1. remove_client cl fd = Some (Inr cl1) \<and> clients_rep cl1 (remove1 fd xs))
    \<and> (cells15 cl c = None \<longrightarrow>
        clients_rep (add_client (Some c) fd cl) (fd # xs) \<and>
        (\<exists>cl2. remove_client (add_client (Some c) fd cl) fd = Some (Inr cl2) \<and> clients_rep cl2 xs))"
  using remove_client_rep [OF assms, of fd] add_client_rep [OF assms, of c fd]
    remove_client_rep [of "add_client (Some c) fd cl" "fd # xs" fd] by auto

theorem client_list_correct_witness:
  "\<exists>cl1. remove_client \<lparr>clients_head = Some 4, cells15 = [4 \<mapsto> (7, Some 2), 2 \<mapsto> (9, None)]\<rparr> 9 = Some (Inr cl1)
     \<and> clients_rep cl1 [7]"
proof -
  have "clients_rep \<lparr>clients_head = Some 4, cells15 = [4 \<mapsto> (7, Some 2), 2 \<mapsto> (9, None)]\<rparr> [7, 9]"
    by (auto simp: clients_rep_def intro!: exI [of _ "[4, 2]"])
  from client_list_correct [OF this, of 9] show ?thesis by simp
qed

end
