(* ===== verification/Chat15_Workers.thy ===== *)
theory Chat15_Workers
  imports Chat15_Queue
begin

text \<open>
  \<^verbatim>\<open>03_networking/lab_15_threaded_chat_server/server.c\<close>, the code that runs between the operations on
  the queue and the client list: \<^verbatim>\<open>send_all\<close> and \<^verbatim>\<open>broadcast_message\<close>, and the frame a worker builds.
\<close>

section \<open>Sending everything\<close>

text \<open>What one call of \<^verbatim>\<open>send\<close> returned: a count, or \<open>-1\<close> with \<^verbatim>\<open>EINTR\<close>, \<^verbatim>\<open>EAGAIN\<close> or another error.\<close>

datatype snd_ans = Sent nat | Snd_EINTR | Snd_EAGAIN | Snd_error

text \<open>
  The loop on the bytes still to be sent, with the answers of its calls: the result, the pieces the
  kernel took, and the answers left. \<open>None\<close>: the answers run out, the call is still blocked.
\<close>

fun send_all :: "string \<Rightarrow> snd_ans list \<Rightarrow> (int \<times> string list \<times> snd_ans list) option" where
  "send_all buf [] = (if buf = [] then Some (1, [], []) else None)"
| "send_all buf (a # as) =
     (if buf = [] then Some (1, [], a # as)
      else case a of
             Sent n \<Rightarrow> (case send_all (drop n buf) as of
                          None \<Rightarrow> None
                        | Some (r, ws, rest) \<Rightarrow> Some (r, take n buf # ws, rest))
           | Snd_EINTR \<Rightarrow> send_all buf as
           | Snd_EAGAIN \<Rightarrow> Some (0, [], as)
           | Snd_error \<Rightarrow> Some (-1, [], as))"

lemma send_all_prefix:
  "send_all buf as = Some (r, ws, rest) \<Longrightarrow>
     (\<exists>post. buf = concat ws @ post \<and> (r = 1 \<longleftrightarrow> post = [])) \<and> r \<in> {1, 0, -1}"
proof (induction buf as arbitrary: r ws rest rule: send_all.induct)
  case (1 buf)
  then show ?case by (auto split: if_splits)
next
  case (2 buf a as)
  show ?case
  proof (cases "buf = []")
    case True
    with "2.prems" show ?thesis by auto
  next
    case False
    show ?thesis
    proof (cases a)
      case (Sent n)
      with 2 False obtain ws' where r: "send_all (drop n buf) as = Some (r, ws', rest)" and ws: "ws = take n buf # ws'"
        by (auto split: option.splits)
      from "2.IH"(1) [OF False Sent r] obtain post where
        "drop n buf = concat ws' @ post" "r = 1 \<longleftrightarrow> post = []" "r \<in> {1, 0, -1}" by blast
      moreover have "buf = take n buf @ drop n buf" by simp
      ultimately have "buf = concat ws @ post" and "(r = 1) = (post = [])" and "r \<in> {1, 0, -1}"
        using ws by (simp_all only: concat.simps append_assoc)
      then show ?thesis by blast
    next
      case Snd_EINTR
      with 2 False show ?thesis by auto
    next
      case Snd_EAGAIN
      with 2 False show ?thesis by auto
    next
      case Snd_error
      with 2 False show ?thesis by auto
    qed
  qed
qed

lemma send_all_Nil [simp]: "send_all [] as = Some (1, [], as)"
  by (cases as) auto

text \<open>Enough calls that make progress end the loop.\<close>

fun progress :: "snd_ans \<Rightarrow> bool" where
  "progress (Sent n) = (0 < n)"
| "progress Snd_EINTR = False"
| "progress Snd_EAGAIN = True"
| "progress Snd_error = True"

lemma send_all_returns: "length buf \<le> length (filter progress as) \<Longrightarrow> \<exists>r. send_all buf as = Some r"
proof (induction buf as rule: send_all.induct)
  case (1 buf)
  then show ?case by simp
next
  case (2 buf a as)
  show ?case
  proof (cases "buf = []")
    case False
    show ?thesis
    proof (cases a)
      case (Sent n)
      have "length (drop n buf) \<le> length (filter progress as)"
        using Sent "2.prems" by (cases n) auto
      with 2 Sent False show ?thesis by fastforce
    qed (use 2 False in auto)
  qed simp
qed

text \<open>
  The walk of \<^verbatim>\<open>broadcast_message\<close> over the list, each client with the answers of its \<^verbatim>\<open>send_all\<close>. The
  result is what every client got; \<open>None\<close>: the walk does not end.
\<close>

partial_function (option) broadcast_loop ::
    "cells \<Rightarrow> ptr \<Rightarrow> int \<Rightarrow> string \<Rightarrow> (int \<Rightarrow> snd_ans list) \<Rightarrow> (int \<times> string) list res option" where
  "broadcast_loop h p sender msg ans =
     (case p of
        None \<Rightarrow> Some (Inr [])
      | Some a \<Rightarrow>
          (case h a of
             None \<Rightarrow> Some (Inl Bad_pointer)
           | Some (fd, nx) \<Rightarrow>
               if fd \<noteq> sender
               then (case send_all msg (ans fd) of
                       None \<Rightarrow> None
                     | Some (r, ws, rest) \<Rightarrow>
                         Option.bind (broadcast_loop h nx sender msg ans)
                           (\<lambda>out. Some (bindR out (\<lambda>os. Inr ((fd, concat ws) # os)))))
               else broadcast_loop h nx sender msg ans))"

definition broadcast_message :: "client_list \<Rightarrow> int \<Rightarrow> string \<Rightarrow> (int \<Rightarrow> snd_ans list) \<Rightarrow> (int \<times> string) list res option" where
  "broadcast_message cl sender msg ans = broadcast_loop (cells15 cl) (clients_head cl) sender msg ans"

definition delivered :: "string \<Rightarrow> snd_ans list \<Rightarrow> string" where
  "delivered msg as = (case send_all msg as of None \<Rightarrow> [] | Some (r, ws, rest) \<Rightarrow> concat ws)"

lemma broadcast_loop_chain:
  assumes "chain h p as" and "\<forall>fd \<in> set (vals h as). fd \<noteq> sender \<longrightarrow> send_all msg (ans fd) \<noteq> None"
  shows "broadcast_loop h p sender msg ans =
     Some (Inr (map (\<lambda>fd. (fd, delivered msg (ans fd))) (filter (\<lambda>fd. fd \<noteq> sender) (vals h as))))"
  using assms
proof (induction as arbitrary: p)
  case Nil
  then show ?case by (simp add: broadcast_loop.simps)
next
  case (Cons a as)
  then obtain fd nx where a: "p = Some a" "h a = Some (fd, nx)" "chain h nx as" by auto
  with Cons have tl: "broadcast_loop h nx sender msg ans =
     Some (Inr (map (\<lambda>fd. (fd, delivered msg (ans fd))) (filter (\<lambda>fd. fd \<noteq> sender) (vals h as))))" by simp
  show ?case
  proof (cases "fd = sender")
    case True
    with a tl show ?thesis by (subst broadcast_loop.simps) simp
  next
    case False
    with Cons.prems a obtain r ws rest where "send_all msg (ans fd) = Some (r, ws, rest)" by auto
    with False a tl show ?thesis by (subst broadcast_loop.simps) (simp add: delivered_def)
  qed
qed

lemma broadcast_loop_targets:
  "chain h p as \<Longrightarrow> broadcast_loop h p sender msg ans = Some (Inr out) \<Longrightarrow>
     map fst out = filter (\<lambda>fd. fd \<noteq> sender) (vals h as)"
proof (induction as arbitrary: p out)
  case Nil
  then show ?case by (simp add: broadcast_loop.simps)
next
  case (Cons a as)
  then obtain fd nx where a: "p = Some a" "h a = Some (fd, nx)" "chain h nx as" by auto
  show ?case
  proof (cases "fd = sender")
    case True
    have "broadcast_loop h nx sender msg ans = Some (Inr out)"
      using Cons.prems(2) a True by (subst (asm) broadcast_loop.simps) simp
    with Cons.IH [OF a(3)] a True show ?thesis by simp
  next
    case False
    obtain os d where "broadcast_loop h nx sender msg ans = Some (Inr os)" "out = (fd, d) # os"
      using Cons.prems(2) a False
      by (subst (asm) broadcast_loop.simps) (auto simp: bindR_eq_Inr bind_eq_Some_conv split: option.splits)
    with Cons.IH [OF a(3)] a False show ?thesis by simp
  qed
qed

section \<open>The frame and the number of threads\<close>

definition BUF_SIZE15 :: nat where "BUF_SIZE15 = 1024"

text \<open>
  The header, then the data, in the buffer \<^verbatim>\<open>out\<close> of \<^verbatim>\<open>BUF_SIZE + 64\<close> bytes; \<open>l\<close> is the length
  \<^verbatim>\<open>snprintf\<close> returns, that of the whole header.
\<close>

definition frame15 :: "int \<Rightarrow> string \<Rightarrow> string" where
  "frame15 client_fd buf =
     (let hdr = ''['' @ show_int client_fd @ ''] ''; l = length hdr; sz = BUF_SIZE15 + 64;
          copy_len = (if l + length buf > sz then sz - l else length buf)
      in snprintf sz hdr @ take copy_len buf)"

lemma length_show_nat: "n < 10 ^ Suc k \<Longrightarrow> length (show_nat n) \<le> Suc k"
proof (induction k arbitrary: n)
  case 0
  then show ?case by (simp add: show_nat.simps)
next
  case (Suc k)
  show ?case
  proof (cases "n < 10")
    case True
    then show ?thesis by (simp add: show_nat.simps)
  next
    case False
    have "n div 10 < 10 ^ Suc k" using Suc.prems by (simp add: less_mult_imp_div_less)
    with Suc.IH False show ?thesis by (subst show_nat.simps) simp
  qed
qed

lemma length_show_int: "int_min \<le> i \<Longrightarrow> i \<le> int_max \<Longrightarrow> length (show_int i) \<le> 11"
proof -
  assume b: "int_min \<le> i" "i \<le> int_max"
  then have "length (show_nat (nat i)) \<le> Suc 9" "length (show_nat (nat (- i))) \<le> Suc 9"
    by (intro length_show_nat; simp add: int_min_def int_max_def nat_less_iff)+
  then show ?thesis by (simp add: show_int_def)
qed

lemma frame15_complete:
  assumes "int_min \<le> fd" and "fd \<le> int_max" and "length buf \<le> BUF_SIZE15"
  shows "frame15 fd buf = ''['' @ show_int fd @ ''] '' @ buf"
  using length_show_int [OF assms(1,2)] assms(3) by (simp add: frame15_def Let_def BUF_SIZE15_def)

text \<open>
  C18: a broadcast of the threaded server ends and touches no unallocated cell as soon as every
  client's \<^verbatim>\<open>send_all\<close> gets enough answers. Every client but the sender gets, once and in list order, a
  prefix of the frame, and the whole of it exactly when its \<^verbatim>\<open>send_all\<close> returns 1; the frame itself is the
  complete header and data, never cut by its buffer.
\<close>

theorem broadcast15_correct:
  assumes "clients_rep cl xs" and "int_min \<le> fd" and "fd \<le> int_max" and "length buf \<le> BUF_SIZE15"
    and "\<forall>c \<in> set xs. length (frame15 fd buf) \<le> length (filter progress (ans c))"
  shows "broadcast_message cl fd (frame15 fd buf) ans =
      Some (Inr (map (\<lambda>c. (c, delivered (frame15 fd buf) (ans c))) (filter (\<lambda>c. c \<noteq> fd) xs)))
    \<and> frame15 fd buf = ''['' @ show_int fd @ ''] '' @ buf
    \<and> (\<forall>c \<in> set xs. \<exists>r ws rest post. send_all (frame15 fd buf) (ans c) = Some (r, ws, rest)
         \<and> frame15 fd buf = delivered (frame15 fd buf) (ans c) @ post \<and> (r = 1 \<longleftrightarrow> post = []))"
proof (intro conjI ballI)
  obtain as where as: "chain (cells15 cl) (clients_head cl) as" "vals (cells15 cl) as = xs"
    using assms(1) by (auto simp: clients_rep_def)
  have ret: "\<exists>r. send_all (frame15 fd buf) (ans c) = Some r" if "c \<in> set xs" for c
    using assms(5) that send_all_returns by blast
  then have "\<forall>c \<in> set (vals (cells15 cl) as). c \<noteq> fd \<longrightarrow> send_all (frame15 fd buf) (ans c) \<noteq> None"
    using as(2) by auto
  from broadcast_loop_chain [OF as(1) this] as(2)
  show "broadcast_message cl fd (frame15 fd buf) ans =
      Some (Inr (map (\<lambda>c. (c, delivered (frame15 fd buf) (ans c))) (filter (\<lambda>c. c \<noteq> fd) xs)))"
    by (simp add: broadcast_message_def)
  show "frame15 fd buf = ''['' @ show_int fd @ ''] '' @ buf" by (rule frame15_complete) fact+
  fix c assume "c \<in> set xs"
  with ret obtain r ws rest where s: "send_all (frame15 fd buf) (ans c) = Some (r, ws, rest)" by (metis surj_pair)
  from send_all_prefix [OF s] s
  show "\<exists>r ws rest post. send_all (frame15 fd buf) (ans c) = Some (r, ws, rest)
         \<and> frame15 fd buf = delivered (frame15 fd buf) (ans c) @ post \<and> (r = 1 \<longleftrightarrow> post = [])"
    by (auto simp: delivered_def)
qed

theorem broadcast15_correct_witness:
  "broadcast_message \<lparr>clients_head = Some 4, cells15 = [4 \<mapsto> (7, Some 2), 2 \<mapsto> (9, None)]\<rparr> 9 (frame15 9 ''hi'')
     (\<lambda>c. [Sent 3, Snd_EINTR, Sent 9] @ replicate 8 Snd_error) = Some (Inr [(7, ''[9] hi'')])"
proof -
  let ?ans = "\<lambda>c :: int. [Sent 3, Snd_EINTR, Sent 9] @ replicate 8 Snd_error"
  have rep: "clients_rep \<lparr>clients_head = Some 4, cells15 = [4 \<mapsto> (7, Some 2), 2 \<mapsto> (9, None)]\<rparr> [7, 9]"
    by (auto simp: clients_rep_def intro!: exI [of _ "[4, 2]"])
  have sh: "show_int 9 = ''9''" by code_simp
  have b: "int_min \<le> 9" "(9 :: int) \<le> int_max" "length ''hi'' \<le> BUF_SIZE15"
    by (simp_all add: int_min_def int_max_def BUF_SIZE15_def)
  have f: "frame15 9 ''hi'' = ''[9] hi''" using frame15_complete [OF b] sh by simp
  have "\<forall>c \<in> set [7, 9]. length (frame15 9 ''hi'') \<le> length (filter progress (?ans c))" by (simp add: f)
  from conjunct1 [OF broadcast15_correct [OF rep b this]]
  show ?thesis by (simp add: f delivered_def)
qed

end
