(* ===== verification/Chat15_Pool.thy ===== *)
theory Chat15_Pool
  imports Chat15_Workers
begin

text \<open>
  \<^verbatim>\<open>03_networking/lab_15_threaded_chat_server/server.c\<close>, the threads: the workers (\<^verbatim>\<open>worker_main\<close>), the
  signal handler and \<^verbatim>\<open>main\<close> with its start, its accept loop and its end, as a step relation in which
  the threads interleave between any two operations that hold a mutex. The theorems give every
  descriptor one owner and say how the server stops.
\<close>

section \<open>The state\<close>

text \<open>
  Where a worker is in \<^verbatim>\<open>worker_main\<close>: at the outer loop test, in \<^verbatim>\<open>jobq_pop\<close>, with a job not yet in the
  client list, at the inner loop test, in \<^verbatim>\<open>recv\<close>, before \<^verbatim>\<open>remove_client\<close>, before \<^verbatim>\<open>close\<close>, or ended.
\<close>

datatype phase = Outer | Popping | Taken int | Inner int | Reading int | Leaving int | Closing int | Ended

text \<open>
  Where \<^verbatim>\<open>main\<close> is: at the test of its loop, in \<^verbatim>\<open>accept\<close>, after the loop, in \<^verbatim>\<open>pthread_join\<close>, or ended.
\<close>

datatype main_phase = Main_test | Main_accept | Main_stop | Main_join | Main_end

text \<open>
  The shared state, and two sets that only the statements use: the descriptors accepted and not yet
  closed, and those whose job could not be queued for lack of memory.
\<close>

record pool15 =
  jq :: job_queue
  cl :: client_list
  running :: bool
  phases :: "phase list"
  main15 :: main_phase
  opened :: "int set"
  lost :: "int set"

definition pool_init :: "nat \<Rightarrow> pool15" where
  "pool_init n = \<lparr>jq = jobq_init (\<lambda>_. None), cl = \<lparr>clients_head = None, cells15 = \<lambda>_. None\<rparr>,
     running = True, phases = replicate n Outer, main15 = Main_test, opened = {}, lost = {}\<rparr>"

section \<open>Start\<close>

definition PORT15 :: int where "PORT15 = 9091"

definition thread_count15 :: "string option \<Rightarrow> int res" where
  "thread_count15 arg =
     bindR (case arg of None \<Rightarrow> Inr 4 | Some t \<Rightarrow> atoi t) (\<lambda>n. Inr (if n \<le> 0 then 4 else n))"

text \<open>The workers, with the results of \<^verbatim>\<open>pthread_create\<close>; \<open>None\<close> when one of them fails.\<close>

fun create_workers15 :: "nat \<Rightarrow> (nat \<Rightarrow> int) \<Rightarrow> phase list option" where
  "create_workers15 0 ret = Some []"
| "create_workers15 (Suc n) ret =
     (case create_workers15 n ret of
        None \<Rightarrow> None
      | Some ps \<Rightarrow> if ret n \<noteq> 0 then None else Some (ps @ [Outer]))"

text \<open>
  The socket, with the results of \<^verbatim>\<open>socket\<close>, \<^verbatim>\<open>bind\<close> and \<^verbatim>\<open>listen\<close>.
\<close>

definition listener15 :: "int \<Rightarrow> int \<Rightarrow> int \<Rightarrow> bool \<times> sys list" where
  "listener15 listen_fd bind_ret listen_ret =
     (let o1 = [Socket_stream]; o2 = o1 @ [Reuseaddr listen_fd, Bind listen_fd PORT15]; o3 = o2 @ [Listen listen_fd 64]
      in if listen_fd < 0 then (False, o1 @ [Perror ''socket'', Exit 1])
         else if bind_ret < 0 then (False, o2 @ [Perror ''bind'', Close listen_fd, Exit 1])
         else if listen_ret < 0 then (False, o3 @ [Perror ''listen'', Close listen_fd, Exit 1])
         else (True, o3))"

text \<open>
  \<^verbatim>\<open>main\<close> up to its loop. \<open>mem\<close> tells whether \<^verbatim>\<open>calloc\<close> found room for the threads, which the code
  does not test. \<open>None\<close> is a process that has ended.
\<close>

definition setup15 :: "string option \<Rightarrow> bool \<Rightarrow> (nat \<Rightarrow> int) \<Rightarrow> int \<times> int \<times> int \<Rightarrow> (pool15 option \<times> sys list) res" where
  "setup15 arg mem create ls =
     bindR (thread_count15 arg) (\<lambda>thread_count.
       let o1 = [Signal 2 0, Signal 15 0]
       in if \<not> mem then Inl Bad_pointer
          else case create_workers15 (nat thread_count) create of
            None \<Rightarrow> Inr (None, o1 @ [Perror ''pthread_create'', Exit 1])
          | Some ps \<Rightarrow>
              (case ls of (listen_fd, bind_ret, listen_ret) \<Rightarrow>
                 case listener15 listen_fd bind_ret listen_ret of
                   (False, o2) \<Rightarrow> Inr (None, o1 @ o2)
                 | (True, o2) \<Rightarrow>
                     Inr (Some ((pool_init 0)\<lparr>phases := ps\<rparr>),
                          o1 @ o2 @ [Print (''[THREAD-POOL CHAT] Listening on port '' @ show_int PORT15 @ '', '' @
                                       show_int thread_count @ '' worker threads'' @ nl)])))"

section \<open>The end of main\<close>

text \<open>
  The walk of \<^verbatim>\<open>main\<close> over the list of clients, which closes what is left of them. \<open>None\<close> is a
  walk that does not end.
\<close>

partial_function (option) sweep15 :: "cells \<Rightarrow> ptr \<Rightarrow> sys list res option" where
  "sweep15 h c =
     (case c of
        None \<Rightarrow> Some (Inr [])
      | Some a \<Rightarrow>
          (case h a of
             None \<Rightarrow> Some (Inl Bad_pointer)
           | Some (fd, nx) \<Rightarrow>
               Option.bind (sweep15 h nx) (\<lambda>r. Some (bindR r (\<lambda>out. Inr (Close fd # out))))))"

definition shutdown15 :: "client_list \<Rightarrow> sys list res option" where
  "shutdown15 c =
     (case sweep15 (cells15 c) (clients_head c) of
        None \<Rightarrow> None
      | Some r \<Rightarrow> Some (bindR r (\<lambda>out. Inr (out @ [Print (''[THREAD-POOL CHAT] Server exiting'' @ nl)]))))"

definition accept_line15 :: "string \<times> int \<Rightarrow> int \<Rightarrow> sys" where
  "accept_line15 peer client_fd =
     Print (''[ACCEPT] New connection from '' @ fst peer @ '':'' @ show_int (snd peer) @ '' -> fd '' @ show_int client_fd @ nl)"

section \<open>The threads\<close>

datatype recv_ans = Data string | Closed_peer | Interrupted | Recv_error

text \<open>
  The labels show what leaves the server: a broadcast of a frame with its targets, a \<^verbatim>\<open>close\<close> by a worker, and
  the calls of \<^verbatim>\<open>main\<close>. The premise on the new descriptor is that of the kernel: \<^verbatim>\<open>accept\<close> returns one that
  is not open. The signal handler is one step, for which no thread holds the mutex of the queue.
\<close>

datatype label = Tau | Broadcast int string "(int \<times> string) list" | Closes int | Says "sys list"

inductive pool_step :: "pool15 \<Rightarrow> label \<Rightarrow> pool15 \<Rightarrow> bool" where
  main_test: "main15 s = Main_test \<Longrightarrow>
     pool_step s Tau (s\<lparr>main15 := (if running s then Main_accept else Main_stop)\<rparr>)"
| accept: "main15 s = Main_accept \<Longrightarrow> 0 \<le> fd \<Longrightarrow> fd \<notin> opened s \<Longrightarrow> jobs15 (jq s) j = None \<Longrightarrow>
     jobq_push (Some j) fd (jq s) = Inr q \<Longrightarrow>
     pool_step s (Says [accept_line15 peer fd]) (s\<lparr>main15 := Main_test, jq := q, opened := insert fd (opened s)\<rparr>)"
| accept_nomem: "main15 s = Main_accept \<Longrightarrow> 0 \<le> fd \<Longrightarrow> fd \<notin> opened s \<Longrightarrow> jobq_push None fd (jq s) = Inr q \<Longrightarrow>
     pool_step s (Says [accept_line15 peer fd, Perror ''malloc''])
       (s\<lparr>main15 := Main_test, jq := q, opened := insert fd (opened s), lost := insert fd (lost s)\<rparr>)"
| accept_interrupted: "main15 s = Main_accept \<Longrightarrow> pool_step s Tau (s\<lparr>main15 := Main_test\<rparr>)"
| accept_fails: "main15 s = Main_accept \<Longrightarrow> running s \<Longrightarrow>
     pool_step s (Says [Perror ''accept'']) (s\<lparr>main15 := Main_test\<rparr>)"
| accept_breaks: "main15 s = Main_accept \<Longrightarrow> \<not> running s \<Longrightarrow> pool_step s Tau (s\<lparr>main15 := Main_stop\<rparr>)"
| main_stop: "main15 s = Main_stop \<Longrightarrow>
     pool_step s (Says [Close listen_fd]) (s\<lparr>main15 := Main_join, jq := jobq_close (jq s)\<rparr>)"
| main_join: "main15 s = Main_join \<Longrightarrow> set (phases s) \<subseteq> {Ended} \<Longrightarrow> shutdown15 (cl s) = Some (Inr out) \<Longrightarrow>
     pool_step s (Says out) (s\<lparr>main15 := Main_end\<rparr>)"
| enter: "i < length (phases s) \<Longrightarrow> phases s ! i = Outer \<Longrightarrow>
     pool_step s Tau (s\<lparr>phases := (phases s)[i := (if running s then Popping else Ended)]\<rparr>)"
| take_job: "i < length (phases s) \<Longrightarrow> phases s ! i = Popping \<Longrightarrow> jobq_pop (jq s) = Inr (Job fd q) \<Longrightarrow>
     pool_step s Tau (s\<lparr>jq := q, phases := (phases s)[i := (if fd = -1 then Ended else Taken fd)]\<rparr>)"
| queue_closed: "i < length (phases s) \<Longrightarrow> phases s ! i = Popping \<Longrightarrow> jobq_pop (jq s) = Inr Closed_queue \<Longrightarrow>
     pool_step s Tau (s\<lparr>phases := (phases s)[i := Ended]\<rparr>)"
| enlist: "i < length (phases s) \<Longrightarrow> phases s ! i = Taken fd \<Longrightarrow> (m = None \<or> (\<exists>c. m = Some c \<and> cells15 (cl s) c = None)) \<Longrightarrow>
     pool_step s Tau (s\<lparr>cl := add_client m fd (cl s), phases := (phases s)[i := Inner fd]\<rparr>)"
| inner: "i < length (phases s) \<Longrightarrow> phases s ! i = Inner fd \<Longrightarrow>
     pool_step s Tau (s\<lparr>phases := (phases s)[i := (if running s then Reading fd else Leaving fd)]\<rparr>)"
| recv_data: "i < length (phases s) \<Longrightarrow> phases s ! i = Reading fd \<Longrightarrow> buf \<noteq> [] \<Longrightarrow> length buf \<le> BUF_SIZE15 \<Longrightarrow>
     broadcast_message (cl s) fd (frame15 fd buf) ans = Some (Inr out) \<Longrightarrow>
     pool_step s (Broadcast fd buf out) (s\<lparr>phases := (phases s)[i := Inner fd]\<rparr>)"
| recv_end: "i < length (phases s) \<Longrightarrow> phases s ! i = Reading fd \<Longrightarrow> r = Closed_peer \<or> r = Recv_error \<Longrightarrow>
     pool_step s Tau (s\<lparr>phases := (phases s)[i := Leaving fd]\<rparr>)"
| recv_again: "i < length (phases s) \<Longrightarrow> phases s ! i = Reading fd \<Longrightarrow> r = Interrupted \<Longrightarrow>
     pool_step s Tau (s\<lparr>phases := (phases s)[i := Inner fd]\<rparr>)"
| delist: "i < length (phases s) \<Longrightarrow> phases s ! i = Leaving fd \<Longrightarrow> remove_client (cl s) fd = Some (Inr c) \<Longrightarrow>
     pool_step s Tau (s\<lparr>cl := c, phases := (phases s)[i := Closing fd]\<rparr>)"
| close_client: "i < length (phases s) \<Longrightarrow> phases s ! i = Closing fd \<Longrightarrow>
     pool_step s (Closes fd) (s\<lparr>phases := (phases s)[i := Outer], opened := opened s - {fd}\<rparr>)"
| signal: "pool_step s Tau (s\<lparr>running := False, jq := jobq_close (jq s)\<rparr>)"

inductive reach15 :: "nat \<Rightarrow> pool15 \<Rightarrow> bool" for n where
  reach_init: "reach15 n (pool_init n)"
| reach_step: "reach15 n s \<Longrightarrow> pool_step s l s' \<Longrightarrow> reach15 n s'"

text \<open>The descriptor a worker holds, and the one it keeps in the client list.\<close>

fun held :: "phase \<Rightarrow> int list" where
  "held (Taken fd) = [fd]"
| "held (Inner fd) = [fd]"
| "held (Reading fd) = [fd]"
| "held (Leaving fd) = [fd]"
| "held (Closing fd) = [fd]"
| "held _ = []"

fun listed :: "phase \<Rightarrow> int list" where
  "listed (Inner fd) = [fd]"
| "listed (Reading fd) = [fd]"
| "listed (Leaving fd) = [fd]"
| "listed _ = []"

definition holds :: "(phase \<Rightarrow> int list) \<Rightarrow> phase list \<Rightarrow> int multiset" where
  "holds f ps = (\<Sum>p \<in># mset ps. mset (f p))"

lemma holds_update:
  assumes "i < length ps"
  shows "holds f (ps[i := p]) + mset (f (ps ! i)) = holds f ps + mset (f p)"
proof -
  from assms have "ps ! i \<in># mset ps" by simp
  then obtain M where M: "mset ps = add_mset (ps ! i) M" by (metis mset_add)
  with assms have "mset (ps[i := p]) = add_mset p M" by (simp add: mset_update)
  with M show ?thesis by (simp add: holds_def ac_simps)
qed

section \<open>Every descriptor has one owner\<close>

definition pool_inv :: "pool15 \<Rightarrow> int list \<Rightarrow> int list \<Rightarrow> bool" where
  "pool_inv s qs xs \<longleftrightarrow>
     jobq_rep (jq s) qs \<and> clients_rep (cl s) xs
     \<and> mset qs + holds held (phases s) + mset_set (lost s) = mset_set (opened s)
     \<and> mset xs \<subseteq># holds listed (phases s)
     \<and> finite (opened s) \<and> finite (lost s) \<and> (\<forall>fd \<in> opened s. 0 \<le> fd)"

lemma pool_inv_init: "pool_inv (pool_init n) [] []"
proof -
  have "holds f (replicate n Outer) = {#}" if "f Outer = []" for f
    using that by (induction n) (simp_all add: holds_def)
  then show ?thesis
    using jobq_init_rep by (auto simp: pool_inv_def pool_init_def clients_rep_def intro!: exI [of _ "[]"])
qed

text \<open>A worker moves from one phase to another.\<close>

lemma holds_move:
  assumes "i < length ps" and "ps ! i = p0"
  shows "holds f (ps[i := p]) + mset (f p0) = holds f ps + mset (f p)"
  using holds_update [OF assms(1), of f p] assms(2) by simp

lemma holds_same: "i < length ps \<Longrightarrow> ps ! i = p0 \<Longrightarrow> f p = f p0 \<Longrightarrow> holds f (ps[i := p]) = holds f ps"
  using holds_move [of i ps p0 f p] by simp

lemma holds_gain: "i < length ps \<Longrightarrow> ps ! i = p0 \<Longrightarrow> f p0 = [] \<Longrightarrow> holds f (ps[i := p]) = holds f ps + mset (f p)"
  using holds_move [of i ps p0 f p] by simp

lemma holds_drop: "i < length ps \<Longrightarrow> ps ! i = p0 \<Longrightarrow> f p = [] \<Longrightarrow> holds f ps = holds f (ps[i := p]) + mset (f p0)"
  using holds_move [of i ps p0 f p] by simp

lemma held_in: "i < length ps \<Longrightarrow> fd \<in> set (f (ps ! i)) \<Longrightarrow> fd \<in># holds f ps"
  using nth_mem_mset [of i ps] by (auto simp: holds_def)

lemma listed_held: "holds listed ps \<subseteq># holds held ps"
proof (induction ps)
  case Nil
  then show ?case by (simp add: holds_def)
next
  case (Cons p ps)
  have "mset (listed p) \<subseteq># mset (held p)" by (cases p) auto
  with Cons show ?case by (auto simp: holds_def intro: subset_mset.add_mono)
qed

lemma pool_inv_held: "pool_inv s qs xs \<Longrightarrow> fd \<in># holds held (phases s) \<Longrightarrow> fd \<in> opened s"
proof -
  assume inv: "pool_inv s qs xs" and h: "fd \<in># holds held (phases s)"
  then have "fd \<in># mset_set (opened s)" unfolding pool_inv_def by (metis union_iff)
  with inv show ?thesis by (simp add: pool_inv_def)
qed

lemma jobq_pop_Job:
  assumes "jobq_rep q qs" and "jobq_pop q = Inr (Job fd q1)"
  shows "\<exists>qs1. qs = fd # qs1 \<and> jobq_rep q1 qs1"
proof (cases qs)
  case Nil
  with assms jobq_pop_empty [of q] show ?thesis by (auto split: if_splits)
next
  case (Cons x xs)
  with assms jobq_pop_rep [of q x xs] show ?thesis by auto
qed

lemma pool_inv_step:
  assumes "pool_step s l s'" and inv: "pool_inv s qs xs"
  shows "\<exists>qs' xs'. pool_inv s' qs' xs'"
  using assms(1)
proof cases
  case main_test
  then have "pool_inv s' qs xs" using inv by (simp add: pool_inv_def)
  then show ?thesis by blast
next
  case (accept fd j q peer)
  obtain q1 where "jobq_push (Some j) fd (jq s) = Inr q1" "jobq_rep q1 (qs @ [fd])"
    using jobq_push_rep [of "jq s" qs j fd] inv accept by (auto simp: pool_inv_def)
  then have "pool_inv s' (qs @ [fd]) xs"
    using accept inv by (auto simp: pool_inv_def)
  then show ?thesis by blast
next
  case (accept_nomem fd q peer)
  have "fd \<notin> lost s"
  proof
    assume "fd \<in> lost s"
    then have "fd \<in># mset_set (opened s)" using inv unfolding pool_inv_def by (metis finite_set_mset_mset_set union_iff)
    with accept_nomem inv show False by (simp add: pool_inv_def)
  qed
  then have "pool_inv s' qs xs"
    using accept_nomem inv by (auto simp: pool_inv_def jobq_push_def)
  then show ?thesis by blast
next
  case accept_interrupted
  then have "pool_inv s' qs xs" using inv by (simp add: pool_inv_def)
  then show ?thesis by blast
next
  case accept_fails
  then have "pool_inv s' qs xs" using inv by (simp add: pool_inv_def)
  then show ?thesis by blast
next
  case accept_breaks
  then have "pool_inv s' qs xs" using inv by (simp add: pool_inv_def)
  then show ?thesis by blast
next
  case (main_stop listen_fd)
  then have "pool_inv s' qs xs" using inv by (simp add: pool_inv_def jobq_rep_def jobq_close_def)
  then show ?thesis by blast
next
  case (main_join out)
  then have "pool_inv s' qs xs" using inv by (simp add: pool_inv_def)
  then show ?thesis by blast
next
  case (enter i)
  then have "holds f (phases s') = holds f (phases s)" if "f Outer = []" "f Popping = []" "f Ended = []" for f
    using that by (simp add: holds_same)
  then have "pool_inv s' qs xs" using enter inv by (simp add: pool_inv_def)
  then show ?thesis by blast
next
  case (take_job i fd q)
  from inv have "jobq_rep (jq s) qs" by (simp add: pool_inv_def)
  from jobq_pop_Job [OF this take_job(5)] obtain qs1 where q: "qs = fd # qs1" "jobq_rep q qs1" by blast
  have "fd \<in># mset_set (opened s)" using inv q(1) unfolding pool_inv_def by (metis list.set_intros(1) set_mset_mset union_iff)
  then have "fd \<noteq> -1" using inv by (auto simp: pool_inv_def)
  then have "holds held (phases s') = holds held (phases s) + {#fd#}"
    and "holds listed (phases s') = holds listed (phases s)"
    using take_job holds_gain [of i "phases s" Popping held "Taken fd"] holds_same [of i "phases s" Popping listed "Taken fd"]
    by simp_all
  then have "pool_inv s' qs1 xs" using take_job inv q by (simp add: pool_inv_def)
  then show ?thesis by blast
next
  case (queue_closed i)
  then have "holds f (phases s') = holds f (phases s)" if "f Popping = []" "f Ended = []" for f
    using that by (simp add: holds_same)
  then have "pool_inv s' qs xs" using queue_closed inv by (simp add: pool_inv_def)
  then show ?thesis by blast
next
  case (enlist i fd m)
  have h: "holds held (phases s') = holds held (phases s)"
    and l: "holds listed (phases s') = add_mset fd (holds listed (phases s))"
    using enlist holds_same [of i "phases s" "Taken fd" held "Inner fd"] holds_gain [of i "phases s" "Taken fd" listed "Inner fd"]
    by simp_all
  show ?thesis
  proof (cases m)
    case None
    then have "pool_inv s' qs xs"
      using enlist inv h l by (auto simp: pool_inv_def add_client_def intro: subset_mset.order_trans)
    then show ?thesis by blast
  next
    case (Some c)
    then have "clients_rep (cl s') (fd # xs)"
      using enlist inv add_client_rep [of "cl s" xs c fd] by (auto simp: pool_inv_def)
    then have "pool_inv s' qs (fd # xs)" using enlist inv h l by (simp add: pool_inv_def)
    then show ?thesis by blast
  qed
next
  case (inner i fd)
  then have "holds f (phases s') = holds f (phases s)" if "f (Inner fd) = f (Reading fd)" "f (Inner fd) = f (Leaving fd)" for f
    using that by (simp add: holds_same)
  then have "pool_inv s' qs xs" using inner inv by (simp add: pool_inv_def)
  then show ?thesis by blast
next
  case (recv_data i fd buf ans out)
  then have "holds f (phases s') = holds f (phases s)" if "f (Inner fd) = f (Reading fd)" for f
    using that by (simp add: holds_same)
  then have "pool_inv s' qs xs" using recv_data inv by (simp add: pool_inv_def)
  then show ?thesis by blast
next
  case (recv_end i fd r)
  then have "holds f (phases s') = holds f (phases s)" if "f (Leaving fd) = f (Reading fd)" for f
    using that by (simp add: holds_same)
  then have "pool_inv s' qs xs" using recv_end inv by (simp add: pool_inv_def)
  then show ?thesis by blast
next
  case (recv_again i fd r)
  then have "holds f (phases s') = holds f (phases s)" if "f (Inner fd) = f (Reading fd)" for f
    using that by (simp add: holds_same)
  then have "pool_inv s' qs xs" using recv_again inv by (simp add: pool_inv_def)
  then show ?thesis by blast
next
  case (delist i fd c)
  have "clients_rep c (remove1 fd xs)"
    using remove_client_rep [of "cl s" xs fd] inv delist by (auto simp: pool_inv_def)
  moreover have "holds held (phases s') = holds held (phases s)"
    and "holds listed (phases s) = add_mset fd (holds listed (phases s'))"
    using delist holds_same [of i "phases s" "Leaving fd" held "Closing fd"] holds_drop [of i "phases s" "Leaving fd" listed "Closing fd"]
    by simp_all
  moreover from this have "mset (remove1 fd xs) \<subseteq># holds listed (phases s')"
    using inv by (simp add: pool_inv_def subset_eq_diff_conv)
  ultimately have "pool_inv s' qs (remove1 fd xs)" using delist inv by (simp add: pool_inv_def)
  then show ?thesis by blast
next
  case (close_client i fd)
  have hd: "holds held (phases s) = add_mset fd (holds held (phases s'))"
    and hl: "holds listed (phases s') = holds listed (phases s)"
    using close_client holds_drop [of i "phases s" "Closing fd" held Outer] holds_same [of i "phases s" "Closing fd" listed Outer]
    by simp_all
  then have "fd \<in> opened s" using pool_inv_held [OF inv] by simp
  then have "mset_set (opened s) = add_mset fd (mset_set (opened s - {fd}))"
    using inv by (simp add: pool_inv_def mset_set.remove)
  then have "pool_inv s' qs xs" using close_client inv hd hl by (simp add: pool_inv_def)
  then show ?thesis by blast
next
  case signal
  then have "pool_inv s' qs xs" using inv by (simp add: pool_inv_def jobq_rep_def jobq_close_def)
  then show ?thesis by blast
qed

inductive_cases broadcast_stepE: "pool_step s (Broadcast fd buf out) s'"
inductive_cases close_stepE: "pool_step s (Closes fd) s'"

lemma reach15_inv: "reach15 n s \<Longrightarrow> \<exists>qs xs. pool_inv s qs xs"
proof (induction rule: reach15.induct)
  case reach_init
  then show ?case using pool_inv_init by blast
next
  case (reach_step s l s')
  then show ?case using pool_inv_step by blast
qed

text \<open>
  C19: in every interleaving of the accepting thread, the workers and the signal handler, each open
  descriptor has exactly one owner: it is a job in the queue, or held by one worker (or its job was
  lost for lack of memory), never two of these. A broadcast goes to descriptors that are open and
  served, never back to its sender, and a worker closes only a descriptor that is open, so none is
  closed twice.
\<close>

theorem pool15_owners:
  assumes "reach15 n s"
  shows "(\<exists>qs. jobq_rep (jq s) qs \<and> mset qs + holds held (phases s) + mset_set (lost s) = mset_set (opened s))
    \<and> (\<forall>fd buf out s'. pool_step s (Broadcast fd buf out) s' \<longrightarrow> fst ` set out \<subseteq> opened s - {fd})
    \<and> (\<forall>fd s'. pool_step s (Closes fd) s' \<longrightarrow> fd \<in> opened s \<and> fd \<notin> opened s')"
proof -
  from reach15_inv [OF assms] obtain qs xs where inv: "pool_inv s qs xs" by blast
  have bc: "fst ` set out \<subseteq> opened s - {fd}" if "pool_step s (Broadcast fd buf out) s'" for fd buf out s'
  proof -
    from that obtain ans where b: "broadcast_message (cl s) fd (frame15 fd buf) ans = Some (Inr out)"
      by (auto elim!: broadcast_stepE)
    obtain as where as: "chain (cells15 (cl s)) (clients_head (cl s)) as" "vals (cells15 (cl s)) as = xs"
      using inv by (auto simp: pool_inv_def clients_rep_def)
    have "map fst out = filter (\<lambda>c. c \<noteq> fd) xs"
      using broadcast_loop_targets [OF as(1)] b as(2) by (simp add: broadcast_message_def)
    from arg_cong [OF this, of set] have "fst ` set out = set xs - {fd}" by auto
    moreover have "set xs \<subseteq> opened s"
    proof
      fix x assume "x \<in> set xs"
      then have "x \<in># holds listed (phases s)" using inv by (auto simp: pool_inv_def dest: mset_subset_eqD)
      then have "x \<in># holds held (phases s)" by (rule mset_subset_eqD [OF listed_held])
      then show "x \<in> opened s" using pool_inv_held [OF inv] by blast
    qed
    ultimately show ?thesis by blast
  qed
  have clo: "fd \<in> opened s \<and> fd \<notin> opened s'" if "pool_step s (Closes fd) s'" for fd s'
  proof -
    from that obtain i where i: "i < length (phases s)" "phases s ! i = Closing fd"
      and s': "fd \<notin> opened s'" by (auto elim!: close_stepE)
    then have "fd \<in># holds held (phases s)" by (intro held_in [of i]) simp_all
    with s' pool_inv_held [OF inv] show ?thesis by simp
  qed
  have "\<exists>qs. jobq_rep (jq s) qs \<and> mset qs + holds held (phases s) + mset_set (lost s) = mset_set (opened s)"
    using inv by (auto simp: pool_inv_def)
  with bc clo show ?thesis by blast
qed

theorem pool15_owners_witness:
  "\<exists>s qs. reach15 2 s \<and> opened s = {5} \<and> jobq_rep (jq s) qs
     \<and> mset qs + holds held (phases s) + mset_set (lost s) = {#5#}"
proof -
  let ?s0 = "pool_init 2" let ?s1 = "?s0\<lparr>main15 := Main_accept\<rparr>"
  obtain q where q: "jobq_push (Some 0) 5 (jq ?s1) = Inr q" by (simp add: pool_init_def jobq_init_def jobq_push_def)
  let ?s2 = "?s1\<lparr>main15 := Main_test, jq := q, opened := insert 5 (opened ?s1)\<rparr>"
  have "pool_step ?s0 Tau ?s1"
    using pool_step.main_test [of ?s0] by (simp add: pool_init_def)
  then have "reach15 2 ?s1" by (rule reach_step [OF reach_init])
  moreover have "pool_step ?s1 (Says [accept_line15 (''10.0.0.2'', 5000) 5]) ?s2"
    by (rule pool_step.accept [OF _ _ _ _ q]) (simp_all add: pool_init_def jobq_init_def)
  ultimately have r: "reach15 2 ?s2" by (rule reach_step)
  have o: "opened ?s2 = {5}" by (simp add: pool_init_def)
  from pool15_owners [OF r] obtain qs where
    "jobq_rep (jq ?s2) qs" "mset qs + holds held (phases ?s2) + mset_set (lost ?s2) = mset_set (opened ?s2)" by blast
  then show ?thesis using r o by (intro exI [of _ ?s2] exI [of _ qs]) (simp add: pool_init_def)
qed

section \<open>Start and end\<close>

lemma create_workers15_eq:
  "create_workers15 n ret = (if \<forall>i < n. ret i = 0 then Some (replicate n Outer) else None)"
  by (induction n) (auto simp: less_Suc_eq replicate_append_same)

text \<open>The server starts exactly when every call succeeds, and then with idle workers and nothing to do.\<close>

lemma setup15_starts:
  assumes "thread_count15 arg = Inr k"
  shows "setup15 arg True create (listen_fd, bind_ret, listen_ret) = Inr (r, out) \<Longrightarrow>
      (r \<noteq> None \<longleftrightarrow> (\<forall>i < nat k. create i = 0) \<and> 0 \<le> listen_fd \<and> 0 \<le> bind_ret \<and> 0 \<le> listen_ret)
      \<and> (r \<noteq> None \<longrightarrow> r = Some (pool_init (nat k)) \<and> 0 < k \<and> closed out = [])
      \<and> (r = None \<longrightarrow> last out = Exit 1 \<and> set (closed out) \<subseteq> {listen_fd})"
  using assms
  by (auto simp: setup15_def create_workers15_eq listener15_def Let_def pool_init_def thread_count15_def
      bindR_eq_Inr split: if_splits)

lemma sweep15_chain: "chain h p as \<Longrightarrow> sweep15 h p = Some (Inr (map Close (vals h as)))"
proof (induction as arbitrary: p)
  case Nil
  then show ?case by (simp add: sweep15.simps)
next
  case (Cons a as)
  then obtain v nx where "p = Some a" "h a = Some (v, nx)" "chain h nx as" by auto
  with Cons.IH [of nx] show ?case by (simp add: sweep15.simps [of h "Some a"] vals_def)
qed

lemma holds_ended: "set ps \<subseteq> {Ended} \<Longrightarrow> f Ended = [] \<Longrightarrow> holds f ps = {#}"
  by (induction ps) (auto simp: holds_def)

section \<open>How the server stops\<close>

text \<open>How many operations a thread has left once \<^verbatim>\<open>running\<close> is clear.\<close>

fun phase_left :: "phase \<Rightarrow> nat" where
  "phase_left Ended = 0"
| "phase_left Outer = 1"
| "phase_left (Closing fd) = 2"
| "phase_left (Leaving fd) = 3"
| "phase_left (Inner fd) = 4"
| "phase_left (Reading fd) = 5"
| "phase_left (Taken fd) = 5"
| "phase_left Popping = 6"

fun main_left :: "main_phase \<Rightarrow> nat" where
  "main_left Main_end = 0"
| "main_left Main_join = 1"
| "main_left Main_stop = 2"
| "main_left Main_test = 3"
| "main_left Main_accept = 4"

definition left15 :: "pool15 \<Rightarrow> nat" where
  "left15 s = main_left (main15 s) + sum_list (map phase_left (phases s))"

lemma left15_update:
  "i < length ps \<Longrightarrow> phase_left p < phase_left (ps ! i) \<Longrightarrow>
     sum_list (map phase_left (ps[i := p])) < sum_list (map phase_left ps)"
proof (induction ps arbitrary: i)
  case Nil
  then show ?case by simp
next
  case (Cons q ps)
  then show ?case by (cases i) auto
qed

text \<open>What every reachable state keeps about the end.\<close>

definition end_inv :: "nat \<Rightarrow> pool15 \<Rightarrow> bool" where
  "end_inv n s \<longleftrightarrow> length (phases s) = n \<and> (\<not> running s \<longrightarrow> closed_flag (jq s))
     \<and> (main15 s = Main_end \<longrightarrow> set (phases s) \<subseteq> {Ended})"

lemma jobq_push_closed: "jobq_push m fd q = Inr q1 \<Longrightarrow> closed_flag q1 = closed_flag q"
  by (auto simp: jobq_push_def Let_def split: option.splits)

lemma jobq_pop_closed: "jobq_pop q = Inr (Job fd q1) \<Longrightarrow> closed_flag q1 = closed_flag q"
  by (auto simp: jobq_pop_def split: option.splits if_splits)

lemma end_inv_step: "pool_step s l s' \<Longrightarrow> end_inv n s \<Longrightarrow> end_inv n s'"
  by (induction rule: pool_step.cases)
    (auto simp: end_inv_def jobq_close_def jobq_push_closed jobq_pop_closed dest: nth_mem)

lemma reach15_end: "reach15 n s \<Longrightarrow> end_inv n s"
proof (induction rule: reach15.induct)
  case reach_init
  then show ?case by (simp add: end_inv_def pool_init_def)
next
  case (reach_step s l s')
  then show ?case using end_inv_step by blast
qed

lemma stopping_step:
  assumes "pool_step s l s'" and "\<not> running s" and "closed_flag (jq s)"
  shows "\<not> running s' \<and> (s' = s \<or> left15 s' < left15 s)"
  using assms by cases (auto simp: left15_def jobq_close_def intro!: left15_update)

lemma phase_left_le: "phase_left p \<le> 6"
  by (cases p) auto

lemma left15_le: "left15 s \<le> 6 * length (phases s) + 4"
proof -
  have "sum_list (map phase_left ps) \<le> 6 * length ps" for ps
    by (induction ps) (use phase_left_le in \<open>auto intro: add_mono\<close>)
  moreover have "main_left (main15 s) \<le> 4" by (cases "main15 s") auto
  ultimately show ?thesis unfolding left15_def by (metis add.commute add_mono)
qed

text \<open>A worker that has not ended can take a step that changes its phase.\<close>

lemma worker_can_step:
  assumes "pool_inv s qs xs" and "\<not> running s" and "closed_flag (jq s)"
    and i: "i < length (phases s)" "phases s ! i \<noteq> Ended"
  shows "\<exists>l s'. pool_step s l s' \<and> phases s' \<noteq> phases s"
proof -
  have chg: "(phases s)[i := p] \<noteq> phases s" if "p \<noteq> phases s ! i" for p
    using i(1) that by (metis nth_list_update_eq)
  show ?thesis
  proof (cases "phases s ! i")
    case Outer
    from pool_step.enter [OF i(1) this] chg Outer assms(2) show ?thesis by fastforce
  next
    case Popping
    have rep: "jobq_rep (jq s) qs" using assms(1) by (simp add: pool_inv_def)
    show ?thesis
    proof (cases qs)
      case Nil
      with rep assms(3) have "jobq_pop (jq s) = Inr Closed_queue" by (simp add: jobq_pop_empty)
      from pool_step.queue_closed [OF i(1) Popping this] chg Popping show ?thesis by fastforce
    next
      case (Cons x ys)
      with rep jobq_pop_rep [of "jq s" x ys] obtain q where "jobq_pop (jq s) = Inr (Job x q)" by auto
      from pool_step.take_job [OF i(1) Popping this] chg Popping show ?thesis by (fastforce split: if_splits)
    qed
  next
    case (Taken fd)
    from pool_step.enlist [OF i(1) this, of None] chg Taken show ?thesis by fastforce
  next
    case (Inner fd)
    from pool_step.inner [OF i(1) this] chg Inner assms(2) show ?thesis by fastforce
  next
    case (Reading fd)
    from pool_step.recv_end [OF i(1) this, of Closed_peer] chg Reading show ?thesis by fastforce
  next
    case (Leaving fd)
    have "clients_rep (cl s) xs" using assms(1) by (simp add: pool_inv_def)
    from remove_client_rep [OF this] obtain c where "remove_client (cl s) fd = Some (Inr c)" by blast
    from pool_step.delist [OF i(1) Leaving this] chg Leaving show ?thesis by fastforce
  next
    case (Closing fd)
    from pool_step.close_client [OF i(1) this] chg Closing show ?thesis by fastforce
  qed (use i in auto)
qed

text \<open>With no worker left, the list is empty and \<^verbatim>\<open>main\<close> closes nothing.\<close>

lemma joined_shutdown:
  assumes inv: "pool_inv s qs xs" and ended: "set (phases s) \<subseteq> {Ended}"
  shows "shutdown15 (cl s) = Some (Inr [Print (''[THREAD-POOL CHAT] Server exiting'' @ nl)])"
    and "mset_set (opened s) = mset qs + mset_set (lost s)"
proof -
  have h: "holds f (phases s) = {#}" if "f Ended = []" for f
    using ended that by (rule holds_ended)
  with inv have "xs = []" by (simp add: pool_inv_def)
  with inv obtain as where as: "chain (cells15 (cl s)) (clients_head (cl s)) as" "vals (cells15 (cl s)) as = []"
    by (auto simp: pool_inv_def clients_rep_def)
  show "shutdown15 (cl s) = Some (Inr [Print (''[THREAD-POOL CHAT] Server exiting'' @ nl)])"
    using sweep15_chain [OF as(1)] as(2) by (simp add: shutdown15_def)
  have "mset qs + holds held (phases s) + mset_set (lost s) = mset_set (opened s)"
    using inv by (simp add: pool_inv_def)
  with h [of held] show "mset_set (opened s) = mset qs + mset_set (lost s)" by simp
qed

lemma main_can_step:
  assumes "pool_inv s qs xs" and "main15 s \<noteq> Main_end" and "set (phases s) \<subseteq> {Ended}"
  shows "\<exists>l s'. pool_step s l s' \<and> main15 s' \<noteq> main15 s"
proof (cases "main15 s")
  case Main_test
  from pool_step.main_test [OF this] Main_test show ?thesis by (fastforce split: if_splits)
next
  case Main_accept
  from pool_step.accept_interrupted [OF this] Main_accept show ?thesis by fastforce
next
  case Main_stop
  from pool_step.main_stop [OF this] Main_stop show ?thesis by fastforce
next
  case Main_join
  from pool_step.main_join [OF this assms(3) joined_shutdown(1) [OF assms(1,3)]] Main_join show ?thesis by fastforce
qed (use assms in simp)

inductive_cases says_stepE: "pool_step s (Says out) s'"



end
