(* ===== verification/Line_Input.thy ===== *)
theory Line_Input
  imports Syscalls
begin

text \<open>
  Programs that are driven by lines of input, and what they do: the lines \<^verbatim>\<open>fgets\<close> delivers, the loop
  that handles them one by one (of the shells and of the clients), and outputs that may contain a
  child process with what the child does.
\<close>

section \<open>The loop over the lines\<close>

text \<open>Whether the loop goes on, leaves by \<^verbatim>\<open>break\<close> or the process exits.\<close>

datatype control = Again | Break | Gone

datatype 'c act = Call sys | Child 'c

text \<open>The lines \<^verbatim>\<open>fgets\<close> reads into a buffer of \<open>m + 2\<close> bytes.\<close>

function lines_of :: "nat \<Rightarrow> string \<Rightarrow> string list" where
  "lines_of m inp = (case fgets (m + 2) inp of None \<Rightarrow> [] | Some (l, rest) \<Rightarrow> l # lines_of m rest)"
  by pat_completeness auto
termination
  by (relation "measure (\<lambda>(m, inp). length inp)") (auto dest: fgets_progress [rotated])

declare lines_of.simps [simp del]

fun repl :: "'o list \<Rightarrow> ('a \<Rightarrow> string \<Rightarrow> 's \<Rightarrow> (control \<times> 's \<times> 'o list) res) \<Rightarrow>
    (nat \<Rightarrow> 'a) \<Rightarrow> 's \<Rightarrow> string list \<Rightarrow> (control \<times> 's \<times> 'o list) res" where
  "repl prompt body ans s [] = Inr (Break, s, prompt)"
| "repl prompt body ans s (l # ls) =
     bindR (body (ans 0) (cstr l) s) (\<lambda>(c, s1, o1).
       if c = Again
       then bindR (repl prompt body (\<lambda>k. ans (Suc k)) s1 ls) (\<lambda>(c2, s2, o2). Inr (c2, s2, prompt @ o1 @ o2))
       else Inr (c, s1, prompt @ o1))"

lemma concat_lines_of: "concat (lines_of m inp) = inp"
proof (induction m inp rule: lines_of.induct)
  case (1 m inp)
  show ?case
  proof (cases "fgets (m + 2) inp")
    case None
    then show ?thesis by (simp add: lines_of.simps [of m inp] fgets_def split: if_splits)
  next
    case (Some p)
    obtain l r where "p = (l, r)" by (cases p)
    with 1 Some show ?thesis by (simp add: lines_of.simps [of m inp] fgets_split)
  qed
qed

text \<open>Lines that fit the buffer are delivered one by one; a longer one is cut into several.\<close>

lemma fgets_line:
  assumes "NL \<notin> set l" and "length l \<le> m"
  shows "fgets (m + 2) (l @ NL # rest) = Some (l @ nl, rest)"
proof -
  have "takeWhile (\<lambda>c. c \<notin> set nl) (l @ NL # rest) = l"
    using assms(1) by (intro takeWhile_stop) (auto simp: nl_def)
  with assms(2) show ?thesis by (simp add: fgets_def strcspn_def nl_def Let_def)
qed

lemma lines_of_lines:
  "\<forall>l \<in> set ls. NL \<notin> set l \<and> length l \<le> m \<Longrightarrow> lines_of m (concat (map (\<lambda>l. l @ nl) ls)) = map (\<lambda>l. l @ nl) ls"
proof (induction ls)
  case Nil
  then show ?case by (simp add: lines_of.simps fgets_def)
next
  case (Cons l ls)
  then have "fgets (m + 2) (l @ NL # concat (map (\<lambda>l. l @ nl) ls)) = Some (l @ nl, concat (map (\<lambda>l. l @ nl) ls))"
    by (intro fgets_line) auto
  with Cons show ?case by (subst lines_of.simps) (simp add: nl_def)
qed

section \<open>Parents and children\<close>

text \<open>The children of a run, in order.\<close>

fun children :: "'c act list \<Rightarrow> 'c list" where
  "children [] = []"
| "children (Child c # os) = c # children os"
| "children (Call _ # os) = children os"

lemma children_append [simp]: "children (as @ bs) = children as @ children bs"
  by (induction as rule: children.induct) auto

lemma children_Calls [simp]: "children (map (\<lambda>x. Call (f x)) xs) = []"
  by (induction xs) auto

text \<open>The calls of the parent, without the children.\<close>

fun calls :: "'c act list \<Rightarrow> sys list" where
  "calls [] = []"
| "calls (Call c # os) = c # calls os"
| "calls (Child c # os) = calls os"

lemma calls_append [simp]: "calls (as @ bs) = calls as @ calls bs"
  by (induction as rule: calls.induct) auto

lemma calls_map_Call [simp]: "calls (map Call cs) = cs" "children (map Call cs) = []"
  by (induction cs) auto

end
