(* ===== verification/Shell_Parse.thy ===== *)
theory Shell_Parse
  imports Syscalls
begin

text \<open>
  The command-line readers of the shells under \<^verbatim>\<open>01_processes\<close> (labs 04, 05, 06, 07, 12): token loops
  over \<^verbatim>\<open>strtok\<close> that store into fixed arrays. An array of \<^verbatim>\<open>char *\<close> is a list with \<open>None\<close> for the
  null pointer and \<open>Some\<close> of the string pointed to; its former contents are a parameter, since the
  shells reuse their arrays from line to line. Stores are checked against the declared length.
\<close>

section \<open>Token loops\<close>

type_synonym cursor = "string option \<times> string"

text \<open>A call of \<^verbatim>\<open>strtok\<close>: the token, and the text the next call goes on from.\<close>

definition next_tok :: "string \<Rightarrow> string \<Rightarrow> cursor" where
  "next_tok ds s = (case strtok ds s of None \<Rightarrow> (None, []) | Some (t, r) \<Rightarrow> (Some t, r))"

text \<open>\<^verbatim>\<open>while (token && i < lim) { arr[i++] = token; token = strtok(NULL, ds); }\<close>\<close>

function collect_tokens ::
    "string \<Rightarrow> nat \<Rightarrow> string option list \<Rightarrow> nat \<Rightarrow> cursor \<Rightarrow> (string option list \<times> nat) res" where
  "collect_tokens ds lim arr i (None, r) = Inr (arr, i)"
| "collect_tokens ds lim arr i (Some t, r) =
     (if i < lim
      then bindR (arr_set arr i (Some t)) (\<lambda>arr'. collect_tokens ds lim arr' (Suc i) (next_tok ds r))
      else Inr (arr, i))"
  by pat_completeness auto
termination
  by (relation "measure (\<lambda>(ds, lim, arr, i, c). lim - i)") auto

lemma next_tok_words:
  "next_tok ds s = (None, []) \<and> words ds s = []
   \<or> (\<exists>t r. next_tok ds s = (Some t, r) \<and> words ds s = t # words ds r)"
proof (cases "strtok ds s")
  case None
  moreover from this have "words ds s = []" by (simp only: strtok_None)
  ultimately show ?thesis by (simp add: next_tok_def)
next
  case (Some p)
  obtain t r where "p = (t, r)" by (cases p)
  with Some show ?thesis using strtok_Some [of ds s t r] by (simp add: next_tok_def)
qed

text \<open>The loop stores the words one after the other, up to its limit, and leaves the rest of the array.\<close>

lemma collect_tokens_words:
  "lim \<le> length arr \<Longrightarrow> i \<le> lim \<Longrightarrow>
     collect_tokens ds lim arr i (next_tok ds s) =
       (let ws = take (lim - i) (words ds s)
        in Inr (take i arr @ map Some ws @ drop (i + length ws) arr, i + length ws))"
proof (induction "lim - i" arbitrary: arr i s)
  case 0
  then have "i = lim" by simp
  with next_tok_words [of ds s] show ?case by auto
next
  case (Suc k)
  then have lt: "i < lim" and k: "k = lim - Suc i" by auto
  from next_tok_words [of ds s] show ?case
  proof (elim disjE exE conjE)
    assume "next_tok ds s = (None, [])" and "words ds s = []"
    then show ?thesis by simp
  next
    fix t r assume n: "next_tok ds s = (Some t, r)" and w: "words ds s = t # words ds r"
    let ?ws = "take k (words ds r)"
    have "collect_tokens ds lim arr i (next_tok ds s)
        = collect_tokens ds lim (arr[i := Some t]) (Suc i) (next_tok ds r)"
      using n lt Suc.prems by (simp add: arr_set_def)
    also have "\<dots> = Inr (take (Suc i) (arr[i := Some t]) @ map Some ?ws
        @ drop (Suc i + length ?ws) (arr[i := Some t]), Suc i + length ?ws)"
      using Suc.hyps(1) [of "Suc i" "arr[i := Some t]" r] k lt Suc.prems by (simp add: Let_def)
    also have "take (Suc i) (arr[i := Some t]) = take i arr @ [Some t]"
      using lt Suc.prems by (simp add: take_Suc_conv_app_nth)
    also have "drop (Suc i + length ?ws) (arr[i := Some t]) = drop (Suc i + length ?ws) arr"
      by simp
    finally show ?thesis using w lt k Suc.hyps(2) by (simp add: Let_def take_Suc_Cons flip: Suc.hyps(2))
  qed
qed

text \<open>The argument vector an \<^verbatim>\<open>exec\<close> reads: the entries before the first null pointer.\<close>

definition argv :: "string option list \<Rightarrow> string list" where
  "argv args = map the (takeWhile (\<lambda>a. a \<noteq> None) args)"

lemma argv_terminated [simp]: "argv (map Some ws @ None # rest) = ws"
proof -
  have "takeWhile (\<lambda>a. a \<noteq> None) (map Some ws @ None # rest) = map Some ws"
    by (rule takeWhile_stop) auto
  then show ?thesis by (simp add: argv_def comp_def)
qed

section \<open>Words into an argument vector: labs 04, 05 and 06\<close>

definition parse_args :: "nat \<Rightarrow> string \<Rightarrow> string option list \<Rightarrow> string option list res" where
  "parse_args max_args input args =
     bindR (collect_tokens blanks (max_args - 1) args 0 (next_tok blanks input))
       (\<lambda>(args', i). arr_set args' i None)"

definition parse_input04 :: "string \<Rightarrow> string option list \<Rightarrow> string option list res" where
  "parse_input04 input args = parse_args 10 input args"

definition parse_command05 :: "string \<Rightarrow> string option list \<Rightarrow> string option list res" where
  "parse_command05 cmd args = parse_args 10 cmd args"

definition parse_command06 :: "string \<Rightarrow> string option list \<Rightarrow> string option list res" where
  "parse_command06 line args = parse_args 20 line args"

lemma list_update_mid: "length ws = n \<Longrightarrow> n < length args \<Longrightarrow>
    (ws @ drop n args)[n := v] = ws @ v # drop (Suc n) args"
  by (metis Cons_nth_drop_Suc list_update_length)

lemma parse_args_words:
  assumes "0 < n" and "length args = n"
  shows "parse_args n input args =
     (let ws = take (n - 1) (words blanks input) in Inr (map Some ws @ None # drop (Suc (length ws)) args))"
proof -
  let ?ws = "take (n - 1) (words blanks input)"
  have lt: "length ?ws < length args" using assms by auto
  have "collect_tokens blanks (n - 1) args 0 (next_tok blanks input)
      = Inr (map Some ?ws @ drop (length ?ws) args, length ?ws)"
    using collect_tokens_words [of "n - 1" args 0 blanks input] assms by (simp add: Let_def)
  then show ?thesis
    using list_update_mid [of "map Some ?ws" "length ?ws" args None] lt
    by (simp add: parse_args_def arr_set_def Let_def)
qed

section \<open>Pieces of a pipeline: labs 05 and 12\<close>

definition MAX_CMDS05 :: nat where "MAX_CMDS05 = 5"

definition split_pipeline05 :: "string \<Rightarrow> string option list \<Rightarrow> (string option list \<times> nat) res" where
  "split_pipeline05 line commands =
     bindR (collect_tokens ''|'' MAX_CMDS05 commands 0 (next_tok ''|'' line))
       (\<lambda>(cmds, i). bindR (arr_set cmds i None) (\<lambda>cmds'. Inr (cmds', i)))"

definition MAX_CMDS12 :: nat where "MAX_CMDS12 = 8"

text \<open>Lab 12 skips the spaces before a piece and stores no null pointer after the last one.\<close>

definition trim_left :: "string \<Rightarrow> string" where
  "trim_left t = dropWhile (\<lambda>c. c = CHR '' '') t"

function collect_trimmed ::
    "nat \<Rightarrow> string option list \<Rightarrow> nat \<Rightarrow> cursor \<Rightarrow> (string option list \<times> nat) res" where
  "collect_trimmed lim arr i (None, r) = Inr (arr, i)"
| "collect_trimmed lim arr i (Some t, r) =
     (if i < lim
      then bindR (arr_set arr i (Some (trim_left t)))
             (\<lambda>arr'. collect_trimmed lim arr' (Suc i) (next_tok ''|'' r))
      else Inr (arr, i))"
  by pat_completeness auto
termination
  by (relation "measure (\<lambda>(lim, arr, i, c). lim - i)") auto

definition parse_pipeline12 :: "string \<Rightarrow> string option list \<Rightarrow> (string option list \<times> nat) res" where
  "parse_pipeline12 line commands = collect_trimmed MAX_CMDS12 commands 0 (next_tok ''|'' line)"

lemma collect_trimmed_words:
  "lim \<le> length arr \<Longrightarrow> i \<le> lim \<Longrightarrow>
     collect_trimmed lim arr i (next_tok ''|'' s) =
       (let ws = map trim_left (take (lim - i) (words ''|'' s))
        in Inr (take i arr @ map Some ws @ drop (i + length ws) arr, i + length ws))"
proof (induction "lim - i" arbitrary: arr i s)
  case 0
  then have "i = lim" by simp
  with next_tok_words [of "''|''" s] show ?case by auto
next
  case (Suc k)
  then have lt: "i < lim" and k: "k = lim - Suc i" by auto
  from next_tok_words [of "''|''" s] show ?case
  proof (elim disjE exE conjE)
    assume "next_tok ''|'' s = (None, [])" and "words ''|'' s = []"
    then show ?thesis by simp
  next
    fix t r assume n: "next_tok ''|'' s = (Some t, r)" and w: "words ''|'' s = t # words ''|'' r"
    let ?ws = "map trim_left (take k (words ''|'' r))" and ?arr = "arr[i := Some (trim_left t)]"
    have "collect_trimmed lim arr i (next_tok ''|'' s) = collect_trimmed lim ?arr (Suc i) (next_tok ''|'' r)"
      using n lt Suc.prems by (simp add: arr_set_def)
    also have "\<dots> = Inr (take (Suc i) ?arr @ map Some ?ws @ drop (Suc i + length ?ws) ?arr, Suc i + length ?ws)"
      using Suc.hyps(1) [of "Suc i" ?arr r] k lt Suc.prems by (simp add: Let_def)
    also have "take (Suc i) ?arr = take i arr @ [Some (trim_left t)]"
      using lt Suc.prems by (simp add: take_Suc_conv_app_nth)
    also have "drop (Suc i + length ?ws) ?arr = drop (Suc i + length ?ws) arr"
      by simp
    finally show ?thesis using w lt k Suc.hyps(2) by (simp add: Let_def take_Suc_Cons flip: Suc.hyps(2))
  qed
qed

section \<open>The background mark: labs 07, 10, 11 and 12\<close>

text \<open>
  Lab 07 ends the loop at a token \<^verbatim>\<open>&\<close>. The flag is written through the pointer \<^verbatim>\<open>bg\<close>.
\<close>

function collect07 :: "nat \<Rightarrow> string option list \<Rightarrow> nat \<Rightarrow> cursor \<Rightarrow> (string option list \<times> nat \<times> bool) res" where
  "collect07 lim arr i (None, r) = Inr (arr, i, False)"
| "collect07 lim arr i (Some t, r) =
     (if i < lim
      then if t = ''&'' then Inr (arr, i, True)
           else bindR (arr_set arr i (Some t)) (\<lambda>arr'. collect07 lim arr' (Suc i) (next_tok blanks r))
      else Inr (arr, i, False))"
  by pat_completeness auto
termination
  by (relation "measure (\<lambda>(lim, arr, i, c). lim - i)") auto

definition MAX_ARGS07 :: nat where "MAX_ARGS07 = 20"

definition parse_command07 :: "string \<Rightarrow> string option list \<Rightarrow> (string option list \<times> bool) res" where
  "parse_command07 line args =
     bindR (collect07 (MAX_ARGS07 - 1) args 0 (next_tok blanks line))
       (\<lambda>(args', i, bg). bindR (arr_set args' i None) (\<lambda>args''. Inr (args'', bg)))"

lemma collect07_words:
  "lim \<le> length arr \<Longrightarrow> i \<le> lim \<Longrightarrow>
     collect07 lim arr i (next_tok blanks s) =
       (let ws = takeWhile (\<lambda>w. w \<noteq> ''&'') (take (lim - i) (words blanks s))
        in Inr (take i arr @ map Some ws @ drop (i + length ws) arr, i + length ws,
                ''&'' \<in> set (take (lim - i) (words blanks s))))"
proof (induction "lim - i" arbitrary: arr i s)
  case 0
  then have "i = lim" by simp
  with next_tok_words [of blanks s] show ?case by auto
next
  case (Suc k)
  then have lt: "i < lim" and k: "k = lim - Suc i" by auto
  from next_tok_words [of blanks s] show ?case
  proof (elim disjE exE conjE)
    assume "next_tok blanks s = (None, [])" and "words blanks s = []"
    then show ?thesis by simp
  next
    fix t r assume n: "next_tok blanks s = (Some t, r)" and w: "words blanks s = t # words blanks r"
    have take: "take (lim - i) (words blanks s) = t # take k (words blanks r)"
      using w by (simp flip: Suc.hyps(2))
    show ?thesis
    proof (cases "t = ''&''")
      case True
      with n lt take show ?thesis by simp
    next
      case False
      let ?ws = "takeWhile (\<lambda>w. w \<noteq> ''&'') (take k (words blanks r))" and ?arr = "arr[i := Some t]"
      have "collect07 lim arr i (next_tok blanks s) = collect07 lim ?arr (Suc i) (next_tok blanks r)"
        using n lt Suc.prems False by (simp add: arr_set_def)
      also have "\<dots> = Inr (take (Suc i) ?arr @ map Some ?ws @ drop (Suc i + length ?ws) ?arr,
          Suc i + length ?ws, ''&'' \<in> set (take k (words blanks r)))"
        using Suc.hyps(1) [of "Suc i" ?arr r] k lt Suc.prems by (simp add: Let_def)
      also have "take (Suc i) ?arr = take i arr @ [Some t]"
        using lt Suc.prems by (simp add: take_Suc_conv_app_nth)
      also have "drop (Suc i + length ?ws) ?arr = drop (Suc i + length ?ws) arr"
        by simp
      finally show ?thesis using False take by (simp add: Let_def)
    qed
  qed
qed

text \<open>
  Labs 10, 11 and 12 look at the last character of the line, which is not empty, and cut it off.
\<close>

definition background_mark :: "string \<Rightarrow> (string \<times> bool) res" where
  "background_mark line =
     bindR (arr_get_int line (int (length line) - 1)) (\<lambda>c.
       if c = CHR ''&'' then Inr (take (length line - 1) line, True) else Inr (line, False))"

lemma background_mark_append: "c \<noteq> CHR ''&'' \<Longrightarrow> background_mark (line @ [c]) = Inr (line @ [c], False)"
  "background_mark (line @ ''&'') = Inr (line, True)"
  by (simp_all add: background_mark_def arr_get_int_def arr_get_def)

section \<open>Properties\<close>

text \<open>
  C7: the tokenizers of labs 04, 05 and 06 stay inside their argument array, whatever it held
  before, and leave in it the words of the line, cut to one less than the array's length and
  followed by a null pointer; a line that joins clean words by blanks is parsed back into them.
\<close>

theorem parse_args_correct:
  assumes "length args = 10" and "length args06 = 20"
  shows "parse_input04 input args = Inr (map Some (take 9 (words blanks input))
             @ None # drop (Suc (min 9 (length (words blanks input)))) args)
         \<and> parse_command05 input args = parse_input04 input args
         \<and> parse_command06 input args06 = Inr (map Some (take 19 (words blanks input))
             @ None # drop (Suc (min 19 (length (words blanks input)))) args06)
         \<and> (length ws \<le> 9 \<longrightarrow> (\<forall>w \<in> set ws. w \<noteq> [] \<and> set w \<inter> set blanks = {}) \<longrightarrow>
             (\<exists>a. parse_input04 (join_with CHR '' '' ws) args = Inr a \<and> argv a = ws))"
proof (intro conjI impI)
  show p4: "parse_input04 input args = Inr (map Some (take 9 (words blanks input))
      @ None # drop (Suc (min 9 (length (words blanks input)))) args)" for input
    using parse_args_words [of 10 args input] assms by (simp add: parse_input04_def Let_def min.commute)
  show "parse_command05 input args = parse_input04 input args"
    by (simp add: parse_command05_def parse_input04_def)
  show "parse_command06 input args06 = Inr (map Some (take 19 (words blanks input))
      @ None # drop (Suc (min 19 (length (words blanks input)))) args06)"
    using parse_args_words [of 20 args06 input] assms by (simp add: parse_command06_def Let_def min.commute)
  assume "\<forall>w \<in> set ws. w \<noteq> [] \<and> set w \<inter> set blanks = {}" and "length ws \<le> 9"
  then show "\<exists>a. parse_input04 (join_with CHR '' '' ws) args = Inr a \<and> argv a = ws"
    using p4 words_join_with [of "CHR '' ''" blanks ws] by (simp add: blanks_def)
qed

theorem parse_args_correct_witness:
  "parse_input04 (''ls  -l'' @ nl) (replicate 10 None) = Inr ([Some ''ls'', Some ''-l'', None] @ replicate 7 None)
   \<and> (\<exists>a. parse_input04 (join_with CHR '' '' [''wc'', ''-l'']) (replicate 10 None) = Inr a \<and> argv a = [''wc'', ''-l''])"
  using parse_args_correct [of "replicate 10 None" "replicate 20 None" "''ls  -l'' @ nl" "[''wc'', ''-l'']"]
  by (simp add: words_def blanks_def nl_def numeral_eq_Suc)

text \<open>
  C8: the pipeline splitter of lab 05 is correct below its limit and writes outside its array at
  it: with fewer than five pieces it stores exactly the pieces and a null pointer; with five or more,
  a number the program announces as supported, its final store goes to \<^verbatim>\<open>commands[5]\<close>.
\<close>

theorem split_pipeline05_correct:
  assumes "length commands = MAX_CMDS05"
  shows "split_pipeline05 line commands =
    (let ps = words ''|'' line
     in if length ps < MAX_CMDS05
        then Inr (map Some ps @ None # drop (Suc (length ps)) commands, length ps)
        else Inl Out_of_bounds)"
proof -
  let ?ps = "words ''|'' line"
  have c: "collect_tokens ''|'' MAX_CMDS05 commands 0 (next_tok ''|'' line)
      = Inr (map Some (take MAX_CMDS05 ?ps) @ drop (min MAX_CMDS05 (length ?ps)) commands, min MAX_CMDS05 (length ?ps))"
    using collect_tokens_words [of MAX_CMDS05 commands 0 "''|''" line] assms by (simp add: Let_def min.commute)
  show ?thesis
  proof (cases "length ?ps < MAX_CMDS05")
    case True
    then show ?thesis
      using c list_update_mid [of "map Some ?ps" "length ?ps" commands None] assms
      by (simp add: split_pipeline05_def arr_set_def Let_def)
  next
    case False
    then show ?thesis using c assms by (simp add: split_pipeline05_def arr_set_def Let_def min_absorb1)
  qed
qed

theorem split_pipeline05_correct_witness:
  "split_pipeline05 ''a|b|c|d|e'' (replicate 5 None) = Inl Out_of_bounds
   \<and> split_pipeline05 ''ls -l | wc'' (replicate 5 None) = Inr ([Some ''ls -l '', Some '' wc'', None, None, None], 2)"
  using split_pipeline05_correct [of "replicate 5 None" "''a|b|c|d|e''"]
    split_pipeline05_correct [of "replicate 5 None" "''ls -l | wc''"]
  by (simp add: words_def MAX_CMDS05_def numeral_eq_Suc)

text \<open>
  The pipeline parser of lab 12 never writes outside its array of eight and returns the first
  eight pieces without their leading spaces; further pieces are dropped.
\<close>

theorem parse_pipeline12_correct:
  assumes "length commands = MAX_CMDS12"
  shows "\<exists>cmds n. parse_pipeline12 line commands = Inr (cmds, n) \<and> n = min 8 (length (words ''|'' line))
    \<and> length cmds = MAX_CMDS12 \<and> take n cmds = map (Some \<circ> trim_left) (take 8 (words ''|'' line))
    \<and> (\<forall>t \<in> set (take n cmds). \<exists>u. t = Some u \<and> (u = [] \<or> hd u \<noteq> CHR '' ''))"
proof -
  let ?ps = "words ''|'' line"
  let ?ws = "map trim_left (take 8 ?ps)"
  have p: "parse_pipeline12 line commands = Inr (map Some ?ws @ drop (length ?ws) commands, length ?ws)"
    using collect_trimmed_words [of 8 commands 0 line] assms
    by (simp add: parse_pipeline12_def MAX_CMDS12_def Let_def)
  have trim: "trim_left u = [] \<or> hd (trim_left u) \<noteq> CHR '' ''" for u
    unfolding trim_left_def using hd_dropWhile [of "\<lambda>c. c = CHR '' ''" u] by blast
  let ?cmds = "map Some ?ws @ drop (length ?ws) commands"
  have tk: "take (length ?ws) ?cmds = map Some ?ws" by simp
  have "length ?ws = min 8 (length ?ps)" by simp
  moreover have "length ?cmds = MAX_CMDS12" using assms by (simp add: MAX_CMDS12_def)
  moreover have "map Some ?ws = map (Some \<circ> trim_left) (take 8 ?ps)" by simp
  moreover have "\<forall>t \<in> set (map Some ?ws). \<exists>u. t = Some u \<and> (u = [] \<or> hd u \<noteq> CHR '' '')"
    using trim by (auto simp del: take_map)
  ultimately show ?thesis using p tk
    by (intro exI [of _ ?cmds] exI [of _ "length ?ws"]) (simp only: simp_thms)
qed

theorem parse_pipeline12_correct_witness:
  "\<exists>cmds. parse_pipeline12 ''ls | wc -l'' (replicate 8 None) = Inr (cmds, 2)
     \<and> take 2 cmds = [Some ''ls '', Some ''wc -l'']"
  using parse_pipeline12_correct [of "replicate 8 None" "''ls | wc -l''"]
  by (auto simp: words_def MAX_CMDS12_def trim_left_def numeral_2_eq_2)

text \<open>
  The parser of lab 07 stays inside its array, passes on the words before a token \<^verbatim>\<open>&\<close> and
  reports the background mark exactly when that token is among the first nineteen words: after
  nineteen arguments a final \<^verbatim>\<open>&\<close> is not seen and the command runs in the foreground.
\<close>

theorem parse_command07_correct:
  assumes "length args = MAX_ARGS07"
  shows "\<exists>args' bg. parse_command07 line args = Inr (args', bg)
    \<and> argv args' = takeWhile (\<lambda>w. w \<noteq> ''&'') (take 19 (words blanks line))
    \<and> (bg \<longleftrightarrow> ''&'' \<in> set (take 19 (words blanks line)))"
proof -
  let ?ws = "takeWhile (\<lambda>w. w \<noteq> ''&'') (take 19 (words blanks line))"
  let ?bg = "''&'' \<in> set (take 19 (words blanks line))"
  have c: "collect07 19 args 0 (next_tok blanks line) = Inr (map Some ?ws @ drop (length ?ws) args, length ?ws, ?bg)"
    using collect07_words [of 19 args 0 line] assms by (simp add: MAX_ARGS07_def Let_def)
  have "length ?ws \<le> 19"
    using length_takeWhile_le [of "\<lambda>w. w \<noteq> ''&''" "take 19 (words blanks line)"] by simp
  then have lt: "length ?ws < length args" using assms by (simp add: MAX_ARGS07_def)
  have "parse_command07 line args = Inr (map Some ?ws @ None # drop (Suc (length ?ws)) args, ?bg)"
    using c lt list_update_mid [of "map Some ?ws" "length ?ws" args None]
    by (simp add: parse_command07_def arr_set_def MAX_ARGS07_def)
  then show ?thesis by (metis argv_terminated)
qed

theorem parse_command07_correct_witness:
  "\<exists>args'. parse_command07 ''sleep 9 &'' (replicate 20 None) = Inr (args', True) \<and> argv args' = [''sleep'', ''9'']"
  using parse_command07_correct [of "replicate 20 None" "''sleep 9 &''"]
  by (auto simp: words_def MAX_ARGS07_def blanks_def)

end
