(* ===== verification/Fd_Table.thy ===== *)
theory Fd_Table
  imports Prelude_C
begin

text \<open>
  Descriptor tables, for the programs whose point is how descriptors are wired: the table of a
  process maps a descriptor to an open file, \<^verbatim>\<open>open\<close> and \<^verbatim>\<open>pipe\<close> take the lowest free descriptors
  below the limit, \<^verbatim>\<open>dup2\<close> and \<^verbatim>\<open>close\<close> change one entry, \<^verbatim>\<open>fork\<close> copies the table and \<^verbatim>\<open>exec\<close> keeps it.
  This is the documented behaviour of those calls; the programs are in the theories that import this
  one.
\<close>

datatype omode = Rdonly | Wronly | Rdwr | Wr_create_trunc | Wr_create_append

datatype ofile = Tty | Pipe_rd nat | Pipe_wr nat | Path string omode

type_synonym fdt = "nat \<Rightarrow> ofile option"

definition OPEN_MAX :: nat where "OPEN_MAX = 1024"

definition lowest :: "fdt \<Rightarrow> nat option" where
  "lowest t = find (\<lambda>i. t i = None) [0..<OPEN_MAX]"

definition open_file :: "ofile \<Rightarrow> fdt \<Rightarrow> (nat \<times> fdt) option" where
  "open_file f t = (case lowest t of None \<Rightarrow> None | Some i \<Rightarrow> Some (i, t(i \<mapsto> f)))"

definition close_fd :: "nat \<Rightarrow> fdt \<Rightarrow> fdt" where
  "close_fd i t = t(i := None)"

definition dup2 :: "nat \<Rightarrow> nat \<Rightarrow> fdt \<Rightarrow> fdt" where
  "dup2 old new t = (if t old = None then t else t(new := t old))"

text \<open>\<^verbatim>\<open>pipe\<close> number \<open>k\<close> of the program: read end first.\<close>

definition pipe_call :: "nat \<Rightarrow> fdt \<Rightarrow> ((nat \<times> nat) \<times> fdt) option" where
  "pipe_call k t =
     (case open_file (Pipe_rd k) t of
        None \<Rightarrow> None
      | Some (r, t1) \<Rightarrow>
          (case open_file (Pipe_wr k) t1 of None \<Rightarrow> None | Some (w, t2) \<Rightarrow> Some ((r, w), t2)))"

section \<open>Lowest free descriptor\<close>

lemma lowest_Some: "lowest t = Some i \<Longrightarrow> t i = None \<and> i < OPEN_MAX \<and> (\<forall>j < i. t j \<noteq> None)"
  by (auto simp: lowest_def find_Some_iff)

lemma lowest_eqI:
  assumes "i < OPEN_MAX" and "t i = None" and "\<And>j. j < i \<Longrightarrow> t j \<noteq> None"
  shows "lowest t = Some i"
  unfolding lowest_def find_Some_iff using assms by (intro exI [of _ i]) simp

lemma lowest_bounded:
  assumes "\<forall>e \<ge> k. t e = None" and "k < OPEN_MAX"
  shows "\<exists>i \<le> k. lowest t = Some i"
proof (cases "lowest t")
  case None
  then have "\<forall>i < OPEN_MAX. t i \<noteq> None" unfolding lowest_def find_None_iff by auto
  with assms have False by blast
  then show ?thesis ..
next
  case (Some i)
  from lowest_Some [OF this] assms(1) have "i \<le> k" by (metis linorder_not_le order_refl)
  with Some show ?thesis by blast
qed

lemma open_file_Some:
  "open_file f t = Some (i, t1) \<Longrightarrow> t i = None \<and> i < OPEN_MAX \<and> t1 = t(i \<mapsto> f)"
  by (auto simp: open_file_def dest: lowest_Some split: option.splits)

lemma open_file_bounded:
  "\<forall>e \<ge> k. t e = None \<Longrightarrow> k < OPEN_MAX \<Longrightarrow>
     \<exists>i t1. open_file f t = Some (i, t1) \<and> (\<forall>e \<ge> Suc k. t1 e = None)"
  using lowest_bounded [of k t] by (auto simp: open_file_def)

lemma pipe_call_Some:
  "pipe_call k t = Some ((r, w), t1) \<Longrightarrow>
     t r = None \<and> t w = None \<and> r \<noteq> w \<and> t1 = t(r \<mapsto> Pipe_rd k, w \<mapsto> Pipe_wr k)"
  by (auto simp: pipe_call_def dest!: open_file_Some split: option.splits if_splits)

lemma pipe_call_bounded:
  assumes "\<forall>e \<ge> b. t e = None" and "Suc b < OPEN_MAX"
  shows "\<exists>p t1. pipe_call k t = Some (p, t1) \<and> (\<forall>e \<ge> b + 2. t1 e = None)"
proof -
  from open_file_bounded [OF assms(1), of "Pipe_rd k"] assms(2) obtain r t1
    where r: "open_file (Pipe_rd k) t = Some (r, t1)" and b1: "\<forall>e \<ge> Suc b. t1 e = None" by auto
  from open_file_bounded [OF b1 assms(2), of "Pipe_wr k"] r show ?thesis
    by (auto simp: pipe_call_def)
qed

section \<open>A row of pipes\<close>

text \<open>
  The loop that creates \<open>m\<close> pipes, numbered from \<open>k\<close>; \<open>None\<close> when one of the calls fails.
\<close>

fun make_pipes :: "nat \<Rightarrow> nat \<Rightarrow> fdt \<Rightarrow> ((nat \<times> nat) list \<times> fdt) option" where
  "make_pipes k 0 t = Some ([], t)"
| "make_pipes k (Suc m) t =
     (case pipe_call k t of
        None \<Rightarrow> None
      | Some (p, t1) \<Rightarrow>
          (case make_pipes (Suc k) m t1 of None \<Rightarrow> None | Some (ps, t2) \<Rightarrow> Some (p # ps, t2)))"

definition ends :: "(nat \<times> nat) list \<Rightarrow> nat set" where
  "ends ps = fst ` set ps \<union> snd ` set ps"

definition close_all :: "(nat \<times> nat) list \<Rightarrow> fdt \<Rightarrow> fdt" where
  "close_all ps t = fold (\<lambda>(r, w) t. close_fd w (close_fd r t)) ps t"

lemma close_all_apply: "close_all ps t e = (if e \<in> ends ps then None else t e)"
proof (induction ps arbitrary: t)
  case Nil
  then show ?case by (simp add: close_all_def ends_def)
next
  case (Cons p ps)
  obtain r w where p: "p = (r, w)" by (cases p)
  have "close_all (p # ps) t = close_all ps (close_fd w (close_fd r t))"
    by (simp add: close_all_def p)
  then show ?case using Cons.IH by (auto simp: p ends_def close_fd_def)
qed

definition pipes_in :: "nat \<Rightarrow> (nat \<times> nat) list \<Rightarrow> fdt \<Rightarrow> fdt \<Rightarrow> bool" where
  "pipes_in k ps t t1 \<longleftrightarrow>
     (\<forall>e \<in> ends ps. t e = None) \<and> (\<forall>e. e \<notin> ends ps \<longrightarrow> t1 e = t e)
     \<and> (\<forall>j < length ps. t1 (fst (ps ! j)) = Some (Pipe_rd (k + j)) \<and> t1 (snd (ps ! j)) = Some (Pipe_wr (k + j)))"

lemma make_pipes_in: "make_pipes k m t = Some (ps, t1) \<Longrightarrow> length ps = m \<and> pipes_in k ps t t1"
proof (induction k m t arbitrary: ps t1 rule: make_pipes.induct)
  case (1 k t)
  then show ?case by (simp add: pipes_in_def ends_def)
next
  case (2 k m t)
  then obtain r w ta qs where p: "pipe_call k t = Some ((r, w), ta)"
    and q: "make_pipes (Suc k) m ta = Some (qs, t1)" and ps: "ps = (r, w) # qs"
    by (auto split: option.splits)
  from "2.IH" [OF p refl q] have len: "length qs = m" and pin: "pipes_in (Suc k) qs ta t1" by auto
  note pc = pipe_call_Some [OF p]
  have "r \<notin> ends qs" and "w \<notin> ends qs" using pin pc by (auto simp: pipes_in_def)
  then have rw: "t1 r = Some (Pipe_rd k)" "t1 w = Some (Pipe_wr k)"
    using pin pc by (auto simp: pipes_in_def)
  have e: "ends ps = insert r (insert w (ends qs))" by (auto simp: ps ends_def)
  have nth: "t1 (fst (ps ! j)) = Some (Pipe_rd (k + j)) \<and> t1 (snd (ps ! j)) = Some (Pipe_wr (k + j))"
    if "j < length ps" for j
    using that pin rw by (cases j) (auto simp: ps pipes_in_def)
  have fr: "\<forall>e \<in> ends ps. t e = None"
    using pin pc by (auto simp: e pipes_in_def split: if_splits)
  have "\<forall>x. x \<notin> ends ps \<longrightarrow> t1 x = t x"
    using pin pc by (auto simp: e pipes_in_def)
  with nth fr len show ?case by (auto simp: ps pipes_in_def)
qed

lemma make_pipes_succeeds:
  "\<forall>e \<ge> b. t e = None \<Longrightarrow> b + 2 * m \<le> OPEN_MAX \<Longrightarrow> \<exists>ps t1. make_pipes k m t = Some (ps, t1)"
proof (induction m arbitrary: k t b)
  case 0
  then show ?case by simp
next
  case (Suc m)
  from Suc.prems(2) have "Suc b < OPEN_MAX" by simp
  from pipe_call_bounded [OF Suc.prems(1) this, of k] obtain p ta
    where p: "pipe_call k t = Some (p, ta)" and b: "\<forall>e \<ge> b + 2. ta e = None" by blast
  from Suc.IH [OF b, of "Suc k"] Suc.prems(2) obtain ps t1 where "make_pipes (Suc k) m ta = Some (ps, t1)"
    by auto
  with p show ?case by simp
qed

section \<open>Wiring a child between two pipes\<close>

text \<open>
  What the child number \<open>i\<close> of \<open>n\<close> does before \<^verbatim>\<open>exec\<close>: standard input from the previous pipe,
  standard output to the next one, and every pipe descriptor closed. \<open>wired\<close> is the table it is
  meant to end with.
\<close>

definition connect :: "nat \<Rightarrow> nat \<Rightarrow> (nat \<times> nat) list \<Rightarrow> fdt \<Rightarrow> fdt" where
  "connect n i ps t =
     (let t1 = (if 0 < i then dup2 (fst (ps ! (i - 1))) 0 t else t);
          t2 = (if i < n - 1 then dup2 (snd (ps ! i)) 1 t1 else t1)
      in close_all ps t2)"

definition wired :: "nat \<Rightarrow> nat \<Rightarrow> fdt \<Rightarrow> fdt" where
  "wired n i t =
     t(0 := (if i = 0 then t 0 else Some (Pipe_rd (i - 1))),
       1 := (if i = n - 1 then t 1 else Some (Pipe_wr i)))"

lemma pipes_in_ends: "pipes_in k ps t t1 \<Longrightarrow> j < length ps \<Longrightarrow> fst (ps ! j) \<in> ends ps \<and> snd (ps ! j) \<in> ends ps"
  by (simp add: ends_def)

lemma parent_table: "pipes_in k ps t t1 \<Longrightarrow> close_all ps t1 = t"
  by (auto simp: fun_eq_iff close_all_apply pipes_in_def)

lemma connect_wired:
  assumes "pipes_in 0 ps t t1" and "length ps = n - 1" and "i < n" and "t 0 \<noteq> None" and "t 1 \<noteq> None"
  shows "connect n i ps t1 = wired n i t"
proof -
  have std: "0 \<notin> ends ps" "1 \<notin> ends ps" using assms by (auto simp: pipes_in_def)
  let ?t2 = "if 0 < i then dup2 (fst (ps ! (i - 1))) 0 t1 else t1"
  let ?t3 = "if i < n - 1 then dup2 (snd (ps ! i)) 1 ?t2 else ?t2"
  have t2: "?t2 = t1(0 := (if i = 0 then t 0 else Some (Pipe_rd (i - 1))))"
    using assms std by (auto simp: dup2_def pipes_in_def fun_eq_iff)
  have "i < n - 1 \<Longrightarrow> snd (ps ! i) \<noteq> 0 \<and> t1 (snd (ps ! i)) = Some (Pipe_wr i)"
    using assms std(1) pipes_in_ends [OF assms(1), of i] unfolding pipes_in_def
    by (metis add_0)
  then have t3: "?t3 = t1(0 := (if i = 0 then t 0 else Some (Pipe_rd (i - 1))),
      1 := (if i = n - 1 then t 1 else Some (Pipe_wr i)))"
    unfolding t2 using assms std by (auto simp: dup2_def pipes_in_def fun_eq_iff)
  have "connect n i ps t1 = close_all ps ?t3" by (simp add: connect_def Let_def)
  also have "\<dots> = wired n i t"
    unfolding t3 using std assms(1)
    by (auto simp: fun_eq_iff close_all_apply wired_def pipes_in_def)
  finally show ?thesis .
qed

end
