(* ===== verification/Wait_Status.thy ===== *)
theory Wait_Status
  imports Prelude_C
begin

text \<open>
  The status word of \<^verbatim>\<open>waitpid\<close> and the macros of \<^verbatim>\<open>sys/wait.h\<close> that read it, on 32-bit words as the
  header defines them, with the encoding of what can happen to a child. The shells branch on these
  macros; the lemmas say that the macros tell the cases apart and recover the exit code or signal.
\<close>

unbundle bit_operations_syntax

type_synonym status = "32 word"

definition WEXITSTATUS :: "status \<Rightarrow> status" where
  "WEXITSTATUS st = drop_bit 8 (st AND 0xff00)"

definition WTERMSIG :: "status \<Rightarrow> status" where
  "WTERMSIG st = st AND 0x7f"

definition WIFEXITED :: "status \<Rightarrow> bool" where
  "WIFEXITED st \<longleftrightarrow> WTERMSIG st = 0"

definition WIFSIGNALED :: "status \<Rightarrow> bool" where
  "WIFSIGNALED st \<longleftrightarrow> 0 < sint (ucast ((st AND 0x7f) + 1) :: 8 word) div 2"

definition WIFSTOPPED :: "status \<Rightarrow> bool" where
  "WIFSTOPPED st \<longleftrightarrow> st AND 0xff = 0x7f"

definition WIFCONTINUED :: "status \<Rightarrow> bool" where
  "WIFCONTINUED st \<longleftrightarrow> st = 0xffff"

text \<open>What the kernel reports of a child: the exit code, or the signal (and a core dump).\<close>

datatype child_event = Exited nat | Signaled nat bool | Stopped_by nat | Continued

fun event_ok :: "child_event \<Rightarrow> bool" where
  "event_ok (Exited c) = (c < 256)"
| "event_ok (Signaled s core) = (0 < s \<and> s < 127)"
| "event_ok (Stopped_by s) = (0 < s \<and> s < 127)"
| "event_ok Continued = True"

fun encode :: "child_event \<Rightarrow> status" where
  "encode (Exited c) = push_bit 8 (word_of_nat c)"
| "encode (Signaled s core) = word_of_nat s OR (if core then 0x80 else 0)"
| "encode (Stopped_by s) = push_bit 8 (word_of_nat s) OR 0x7f"
| "encode Continued = 0xffff"

lemma masks: "(0x7f :: status) = mask 7" "(0xff :: status) = mask 8" "(0xff00 :: status) = push_bit 8 (mask 8)"
  "(0x80 :: status) = push_bit 7 1"
  by (simp_all add: mask_eq_exp_minus_1 push_bit_eq_mult)

lemma bit_small: "c < 2 ^ k \<Longrightarrow> k \<le> 32 \<Longrightarrow> bit (word_of_nat c :: status) n \<Longrightarrow> n < k"
proof -
  assume "c < 2 ^ k" and "k \<le> 32" and b: "bit (word_of_nat c :: status) n"
  from b have "bit c n" by (auto simp: bit_of_nat_iff)
  then have "bit (take_bit k c) n" using \<open>c < 2 ^ k\<close> by (simp add: take_bit_nat_eq_self)
  then show "n < k" by (simp add: bit_take_bit_iff)
qed

lemma low_bits_shifted: "push_bit 8 x AND mask 7 = (0 :: status)" "push_bit 8 x AND mask 8 = (0 :: status)"
  by (auto intro!: bit_eqI simp: bit_simps)

lemma low_bits_small: "c < 2 ^ 7 \<Longrightarrow> word_of_nat c AND mask 7 = (word_of_nat c :: status)"
proof (rule bit_eqI)
  fix n assume "c < 2 ^ 7"
  then show "bit (word_of_nat c AND mask 7 :: status) n = bit (word_of_nat c :: status) n"
    using bit_small [of c 7 n] by (auto simp: bit_simps)
qed

lemma exit_bits: "c < 256 \<Longrightarrow> WEXITSTATUS (push_bit 8 (word_of_nat c)) = word_of_nat c"
proof (rule bit_eqI)
  fix n assume c: "c < 256"
  show "bit (WEXITSTATUS (push_bit 8 (word_of_nat c))) n = bit (word_of_nat c :: status) n"
    using c bit_small [of c 8 n] unfolding WEXITSTATUS_def masks
    by (auto simp: bit_simps simp del: push_bit_mask_eq)
qed

lemma small_word_eq: "a < 2 ^ 32 \<Longrightarrow> b < 2 ^ 32 \<Longrightarrow> (word_of_nat a :: status) = word_of_nat b \<longleftrightarrow> a = b"
  by (simp add: word_of_nat_eq_iff take_bit_nat_eq_self)

lemma signaled_test:
  assumes "s < 128"
  shows "0 < sint (ucast (word_of_nat s + 1 :: status) :: 8 word) div 2 \<longleftrightarrow> 0 < s \<and> s < 127"
proof -
  have "unat (word_of_nat (Suc s) :: status) = Suc s"
    using assms by (simp only: unsigned_of_nat) (simp add: take_bit_nat_eq_self)
  then have "ucast (word_of_nat (Suc s) :: status) = (word_of_nat (Suc s) :: 8 word)"
    by (metis of_nat_unat)
  then have "ucast (word_of_nat s + 1 :: status) = (word_of_nat (Suc s) :: 8 word)"
    by (simp add: add.commute)
  note uc = this
  show ?thesis
  proof (cases "s = 127")
    case True
    then show ?thesis by simp
  next
    case False
    have "sint (word_of_nat (Suc s) :: 8 word) = int s + 1"
      using assms False by (simp add: signed_of_nat signed_take_bit_int_eq_self del: of_nat_Suc)
    then show ?thesis using uc assms False by auto
  qed
qed


text \<open>The macros on an encoded event.\<close>

lemma termsig_encode:
  "event_ok ev \<Longrightarrow> encode ev AND 0x7f =
     (case ev of Exited c \<Rightarrow> 0 | Signaled s core \<Rightarrow> word_of_nat s | _ \<Rightarrow> 0x7f)"
proof (cases ev)
  case (Signaled s core)
  assume "event_ok ev"
  then have "(word_of_nat s AND mask 7 :: status) = word_of_nat s" using Signaled by (simp add: low_bits_small)
  moreover have "0x80 AND 0x7f = (0 :: status)" by simp
  ultimately show ?thesis using Signaled by (simp add: bit.conj_disj_distrib2 masks(1) [symmetric])
next
  case (Exited c)
  then show ?thesis by (simp add: masks(1) low_bits_shifted)
next
  case (Stopped_by s)
  then show ?thesis by (simp add: masks(1) low_bits_shifted bit.conj_disj_distrib2)
next
  case Continued
  then show ?thesis by simp
qed

lemma WIFSTOPPED_low: "WIFSTOPPED st \<Longrightarrow> st AND 0x7f = 0x7f"
proof -
  assume "WIFSTOPPED st"
  then have "(st AND 0xff) AND 0x7f = (0x7f :: status)" by (simp add: WIFSTOPPED_def)
  then show ?thesis by (simp add: and.assoc)
qed

lemma decode_stopped: "event_ok ev \<Longrightarrow> WIFSTOPPED (encode ev) \<longleftrightarrow> (\<exists>s. ev = Stopped_by s)"
proof
  assume ok: "event_ok ev" and st: "WIFSTOPPED (encode ev)"
  note low = WIFSTOPPED_low [OF st] termsig_encode [OF ok]
  show "\<exists>s. ev = Stopped_by s"
  proof (cases ev)
    case (Exited c)
    with low show ?thesis by simp
  next
    case (Signaled s core)
    with low have "(word_of_nat s :: status) = word_of_nat 127" by simp
    then have "s = 127" using ok Signaled by (subst (asm) small_word_eq) auto
    with ok Signaled show ?thesis by simp
  next
    case Continued
    with st show ?thesis by (simp add: WIFSTOPPED_def)
  qed simp
next
  assume "\<exists>s. ev = Stopped_by s"
  then show "WIFSTOPPED (encode ev)"
    by (auto simp: WIFSTOPPED_def masks(2) low_bits_shifted bit.conj_disj_distrib2) (simp add: masks(2) [symmetric])
qed

lemma decode_continued: "event_ok ev \<Longrightarrow> WIFCONTINUED (encode ev) \<longleftrightarrow> ev = Continued"
proof
  assume ok: "event_ok ev" and c: "WIFCONTINUED (encode ev)"
  then have low: "encode ev AND 0x7f = 0x7f" by (simp add: WIFCONTINUED_def)
  show "ev = Continued"
  proof (cases ev)
    case (Exited c)
    with low termsig_encode [OF ok] show ?thesis by simp
  next
    case (Signaled s core)
    with low termsig_encode [OF ok] have "(word_of_nat s :: status) = word_of_nat 127" by simp
    then have "s = 127" using ok Signaled by (subst (asm) small_word_eq) auto
    with ok Signaled show ?thesis by simp
  next
    case (Stopped_by s)
    with ok decode_stopped [OF ok] have "encode ev AND 0xff = 0x7f" by (simp add: WIFSTOPPED_def)
    with c show ?thesis by (simp add: WIFCONTINUED_def)
  qed
qed (simp add: WIFCONTINUED_def)

lemma decode_exited: "event_ok ev \<Longrightarrow> WIFEXITED (encode ev) \<longleftrightarrow> (\<exists>c. ev = Exited c)"
proof -
  assume ok: "event_ok ev"
  have "(word_of_nat s :: status) \<noteq> word_of_nat 0" if "0 < s" "s < 127" for s
    using that by (subst small_word_eq) auto
  with ok termsig_encode [OF ok] show ?thesis
    by (cases ev) (auto simp: WIFEXITED_def WTERMSIG_def)
qed

lemma decode_signaled: "event_ok ev \<Longrightarrow> WIFSIGNALED (encode ev) \<longleftrightarrow> (\<exists>s core. ev = Signaled s core)"
proof -
  assume ok: "event_ok ev"
  have t: "WIFSIGNALED (encode ev) \<longleftrightarrow> 0 < s \<and> s < 127" if "encode ev AND 0x7f = word_of_nat s" "s < 128" for s
    unfolding WIFSIGNALED_def that(1) by (rule signaled_test [OF that(2)])
  show ?thesis
    using ok termsig_encode [OF ok] t [of 0] t [of 127] t
    by (cases ev) auto
qed

lemmas decode = decode_stopped decode_continued decode_exited decode_signaled

lemma exit_code: "c < 256 \<Longrightarrow> unat (WEXITSTATUS (encode (Exited c))) = c"
proof -
  assume c: "c < 256"
  then have "WEXITSTATUS (encode (Exited c)) = word_of_nat c" by (simp add: exit_bits)
  moreover have "take_bit 32 c = c" using c by (simp add: take_bit_nat_eq_self)
  ultimately show ?thesis by (simp add: unsigned_of_nat)
qed

end
