(* ===== verification/Shell_Pipes.thy ===== *)
theory Shell_Pipes
  imports Line_Input Shell_Parse Fd_Table Wait_Status
begin

text \<open>
  The shells of labs 04 (one command), 05 (pipelines) and 06 (redirection) under \<^verbatim>\<open>01_processes\<close>. A
  shell is a loop over the lines \<^verbatim>\<open>fgets\<close> delivers; the model follows the parent and records, at
  each \<^verbatim>\<open>fork\<close> that succeeds, what the new child does up to its \<^verbatim>\<open>exec\<close>. The results of the system
  calls of one line are an argument of its step.
\<close>

section \<open>Lab 04: one command at a time\<close>

record ans04 =
  fork04 :: int
  status04 :: status

definition child04 :: "string option list \<Rightarrow> sys list" where
  "child04 args = [Exec (argv args), Perror ''execvp failed'', Exit 1]"

definition body04 :: "ans04 \<Rightarrow> string \<Rightarrow> string option list \<Rightarrow>
    (control \<times> string option list \<times> sys list act list) res" where
  "body04 a input args =
     (if strncmp_eq input ''exit'' 4 then Inr (Break, args, [])
      else bindR (parse_input04 input args) (\<lambda>args'.
        case args' ! 0 of
          None \<Rightarrow> Inr (Again, args', [])
        | Some cmd \<Rightarrow>
            if fork04 a < 0 then Inr (Again, args', [Call Fork, Call (Perror ''fork failed'')])
            else Inr (Again, args',
              [Call Fork, Child (child04 args'), Call (Wait (fork04 a)),
               Call (Print (''[Parent] Command '' @ [CHR 0x27] @ cmd @ [CHR 0x27] @ '' exited with status ''
                 @ show_int (uint (WEXITSTATUS (status04 a))) @ nl))])))"

definition shell04 :: "string option list \<Rightarrow> (nat \<Rightarrow> ans04) \<Rightarrow> string \<Rightarrow> sys list act list res" where
  "shell04 args ans inp =
     bindR (repl [Call (Print ''mini-shell> ''), Call Flush] body04 ans args (lines_of 126 inp))
       (\<lambda>(c, s, out). Inr (
          [Call (Print (''=== '' @ [CHR 0xF0, CHR 0x9F, CHR 0xA7, CHR 0xAA] @ '' Lab 04: Chained Exec Simulation ==='' @ nl)),
           Call (Print (''Type a command (like '' @ [CHR 0x27] @ ''ls'' @ [CHR 0x27] @ '', '' @ [CHR 0x27] @ ''pwd''
             @ [CHR 0x27] @ '', or '' @ [CHR 0x27] @ ''echo hello'' @ [CHR 0x27] @ '')'' @ nl)),
           Call (Print (''Type '' @ [CHR 0x27] @ ''exit'' @ [CHR 0x27] @ '' to quit.'' @ nl @ nl))]
          @ out @ [Call (Print (''Exiting mini-shell. Goodbye!'' @ nl))]))"

definition argv04 :: "string \<Rightarrow> string list" where
  "argv04 line = take 9 (words blanks line)"

lemma parse_input04_words:
  "length args = 10 \<Longrightarrow> parse_input04 input args
     = Inr (map Some (argv04 input) @ None # drop (Suc (length (argv04 input))) args)"
  using parse_args_words [of 10 args input] by (simp add: parse_input04_def argv04_def Let_def)

lemma length_parse04: "length args = 10 \<Longrightarrow> parse_input04 input args = Inr args' \<Longrightarrow> length args' = 10"
  by (auto simp: parse_input04_words argv04_def)

text \<open>One line in an array that may hold anything from the lines before.\<close>

lemma body04_line:
  assumes "length args = 10" and "\<not> strncmp_eq line ''exit'' 4" and "0 < fork04 a"
  shows "\<exists>args' out. body04 a line args = Inr (Again, args', out) \<and> length args' = 10
     \<and> children out = (if argv04 line = [] then [] else [[Exec (argv04 line), Perror ''execvp failed'', Exit 1]])"
proof (cases "argv04 line")
  case Nil
  then show ?thesis using assms by (simp add: body04_def parse_input04_words)
next
  case (Cons w ws)
  have "length (argv04 line) \<le> 9" by (simp add: argv04_def)
  then show ?thesis
    using assms Cons argv_terminated [of "argv04 line"]
    by (simp add: body04_def parse_input04_words child04_def)
qed

lemma repl04:
  assumes "length args = 10" and "\<forall>l \<in> set ls. \<not> strncmp_eq (cstr l) ''exit'' 4" and "\<forall>k. 0 < fork04 (ans k)"
  shows "\<exists>args' out. repl p body04 ans args ls = Inr (Break, args', out) \<and>
     children out = concat (map (\<lambda>l. children p @ (if argv04 (cstr l) = [] then []
       else [[Exec (argv04 (cstr l)), Perror ''execvp failed'', Exit 1]])) ls) @ children p"
  using assms
proof (induction ls arbitrary: args ans)
  case Nil
  then show ?case by simp
next
  case (Cons l ls)
  then obtain a1 o1 where b: "body04 (ans 0) (cstr l) args = Inr (Again, a1, o1)" and len: "length a1 = 10"
    and c: "children o1 = (if argv04 (cstr l) = [] then []
      else [[Exec (argv04 (cstr l)), Perror ''execvp failed'', Exit 1]])"
    using body04_line [of args "cstr l" "ans 0"] by auto
  from Cons.IH [OF len, of "\<lambda>k. ans (Suc k)"] Cons.prems obtain a2 o2 where
    "repl p body04 (\<lambda>k. ans (Suc k)) a1 ls = Inr (Break, a2, o2)"
    "children o2 = concat (map (\<lambda>l. children p @ (if argv04 (cstr l) = [] then []
       else [[Exec (argv04 (cstr l)), Perror ''execvp failed'', Exit 1]])) ls) @ children p" by auto
  with b c show ?case by simp
qed

text \<open>
  C9: the shell of lab 04 run on a script of lines that fit its buffer creates one child per
  non-blank line, in order, and each executes exactly the words of its line (the first nine):
  nothing of an earlier line is left in the reused argument array, and the shell ends at the end of
  its input.
\<close>

theorem shell04_script:
  assumes "length args = 10" and "\<forall>k. 0 < fork04 (ans k)"
    and "\<forall>l \<in> set ls. NL \<notin> set l \<and> NUL \<notin> set l \<and> length l \<le> 126 \<and> \<not> strncmp_eq (l @ nl) ''exit'' 4"
  shows "\<exists>out. shell04 args ans (concat (map (\<lambda>l. l @ nl) ls)) = Inr out \<and>
    children out = map (\<lambda>ws. [Exec ws, Perror ''execvp failed'', Exit 1])
      (filter (\<lambda>ws. ws \<noteq> []) (map (\<lambda>l. take 9 (words blanks (l @ nl))) ls))"
proof -
  let ?p = "[Call (Print ''mini-shell> ''), Call Flush] :: sys list act list"
  have lines: "lines_of 126 (concat (map (\<lambda>l. l @ nl) ls)) = map (\<lambda>l. l @ nl) ls"
    using assms(3) by (intro lines_of_lines) auto
  have c: "cstr (l @ nl) = l @ nl" if "l \<in> set ls" for l
    using assms(3) that by (intro cstr_id) (auto simp: nl_def)
  obtain args' out where r: "repl ?p body04 ans args (map (\<lambda>l. l @ nl) ls) = Inr (Break, args', out)"
    and o: "children out = concat (map (\<lambda>l. if argv04 (cstr l) = [] then []
       else [[Exec (argv04 (cstr l)), Perror ''execvp failed'', Exit 1]]) (map (\<lambda>l. l @ nl) ls))"
    using repl04 [OF assms(1) _ assms(2), of "map (\<lambda>l. l @ nl) ls" ?p] assms(3) c by auto
  have "concat (map (\<lambda>l. if argv04 (cstr l) = [] then []
       else [[Exec (argv04 (cstr l)), Perror ''execvp failed'', Exit 1]]) (map (\<lambda>l. l @ nl) ls))
     = map (\<lambda>ws. [Exec ws, Perror ''execvp failed'', Exit 1])
         (filter (\<lambda>ws. ws \<noteq> []) (map (\<lambda>l. take 9 (words blanks (l @ nl))) ls))"
    using c by (induction ls) (simp_all add: argv04_def)
  with r o lines show ?thesis by (simp add: shell04_def)
qed

theorem shell04_script_witness:
  "\<exists>out. shell04 (replicate 10 None) (\<lambda>k. \<lparr>fork04 = 7, status04 = 0\<rparr>) (''ls -l'' @ nl @ '' '' @ nl @ ''pwd'' @ nl) = Inr out
     \<and> children out = map (\<lambda>ws. [Exec ws, Perror ''execvp failed'', Exit 1]) [[''ls'', ''-l''], [''pwd'']]"
  using shell04_script [of "replicate 10 None" "\<lambda>k. \<lparr>fork04 = 7, status04 = 0\<rparr>" "[''ls -l'', '' '', ''pwd'']"]
  by (simp add: nl_def blanks_def words_def strncmp_eq_def)

section \<open>Lab 05: pipelines\<close>

text \<open>
  The state between lines: the array of pieces and the descriptor table of the shell. The child's
  copy of the argument array may hold anything, \<open>args\<close>.
\<close>

record sh05 =
  cmds05 :: "string option list"
  tab05 :: fdt

type_synonym proc05 = "(fdt \<times> string list) res"

definition child05 :: "nat \<Rightarrow> nat \<Rightarrow> (nat \<times> nat) list \<Rightarrow> fdt \<Rightarrow> string \<Rightarrow> string option list \<Rightarrow> proc05" where
  "child05 n i ps t cmd args =
     bindR (parse_command05 cmd args) (\<lambda>args'.
       case args' ! 0 of
         None \<Rightarrow> Inl Bad_pointer \<comment> \<open>\<^verbatim>\<open>execvp(NULL, ...)\<close>\<close>
       | Some _ \<Rightarrow> Inr (connect n i ps t, argv args'))"

text \<open>The loop of \<^verbatim>\<open>fork\<close> calls, with their results \<open>rs\<close>; a failure ends the shell.\<close>

fun launch05 :: "string option list \<Rightarrow> string option list \<Rightarrow> nat \<Rightarrow> (nat \<times> nat) list \<Rightarrow> fdt \<Rightarrow> nat \<Rightarrow>
    int list \<Rightarrow> proc05 act list \<times> bool" where
  "launch05 cmds args n ps t i [] = ([], True)"
| "launch05 cmds args n ps t i (r # rs) =
     (if r < 0 then ([Call Fork, Call (Perror ''fork failed''), Call (Exit 1)], False)
      else case launch05 cmds args n ps t (Suc i) rs of (out, ok) \<Rightarrow>
        (Call Fork # Child (child05 n i ps t (the (cmds ! i)) args) # out, ok))"

definition body05 :: "string option list \<Rightarrow> int list \<Rightarrow> string \<Rightarrow> sh05 \<Rightarrow>
    (control \<times> sh05 \<times> proc05 act list) res" where
  "body05 args forks line s =
     (if strncmp_eq line ''exit'' 4 then Inr (Break, s, [])
      else bindR (split_pipeline05 line (cmds05 s)) (\<lambda>(cmds, n).
        let s1 = s\<lparr>cmds05 := cmds\<rparr>
        in if n = 0 then Inr (Again, s1, [])
           else case make_pipes 0 (n - 1) (tab05 s) of
             None \<Rightarrow> Inr (Gone, s1, [Call (Perror ''pipe failed''), Call (Exit 1)])
           | Some (ps, t1) \<Rightarrow>
               (case launch05 cmds args n ps t1 0 (take n forks) of (out, ok) \<Rightarrow>
                  if ok then Inr (Again, s1\<lparr>tab05 := close_all ps t1\<rparr>, out @ map (\<lambda>i. Call (Wait (-1))) [0..<n])
                  else Inr (Gone, s1\<lparr>tab05 := t1\<rparr>, out))))"

definition shell05 :: "string option list \<Rightarrow> sh05 \<Rightarrow> (nat \<Rightarrow> int list) \<Rightarrow> string \<Rightarrow>
    (control \<times> sh05 \<times> proc05 act list) res" where
  "shell05 args s ans inp =
     bindR (repl [Call (Print ''pipe-shell> ''), Call Flush] (body05 args) ans s (lines_of 254 inp))
       (\<lambda>(c, s', out). Inr (c, s',
          [Call (Print (''=== '' @ [CHR 0xF0, CHR 0x9F, CHR 0xA7, CHR 0xAA] @ '' Lab 05: Command Pipeline Shell ==='' @ nl)),
           Call (Print (''Supports up to '' @ show_int 5 @ '' piped commands.'' @ nl)),
           Call (Print (''Example: ls -l | grep .c | wc -l'' @ nl)),
           Call (Print (''Type '' @ [CHR 0x27] @ ''exit'' @ [CHR 0x27] @ '' to quit.'' @ nl @ nl))]
          @ out @ (if c = Gone then [] else [Call (Print (''Exiting pipeline shell. Goodbye!'' @ nl))])))"

lemma launch05_all:
  "\<forall>r \<in> set rs. 0 \<le> r \<Longrightarrow>
     launch05 cmds args n ps t i rs =
       (concat (map (\<lambda>j. [Call Fork, Child (child05 n j ps t (the (cmds ! j)) args)]) [i..<i + length rs]), True)"
proof (induction rs arbitrary: i)
  case Nil
  then show ?case by simp
next
  case (Cons r rs)
  have "[i..<i + length (r # rs)] = i # [Suc i..<Suc i + length rs]" by (simp add: upt_rec)
  with Cons show ?case by (simp del: upt_Suc)
qed

lemma children_concat: "children (concat xss) = concat (map children xss)"
  by (induction xss) auto

definition argv05 :: "string \<Rightarrow> string list" where
  "argv05 piece = take 9 (words blanks piece)"

lemma child05_wired:
  assumes "pipes_in 0 ps t t1" and "length ps = n - 1" and "i < n" and "t 0 \<noteq> None" and "t 1 \<noteq> None"
    and "length args = 10"
  shows "child05 n i ps t1 cmd args =
     (if argv05 cmd = [] then Inl Bad_pointer else Inr (wired n i t, argv05 cmd))"
proof -
  have p: "parse_command05 cmd args
      = Inr (map Some (argv05 cmd) @ None # drop (Suc (length (argv05 cmd))) args)"
    using parse_args_words [of 10 args cmd] assms(6) by (simp add: parse_command05_def argv05_def Let_def)
  have hd: "(map Some ws @ None # rest) ! 0 = (if ws = [] then None else Some (hd ws))" for ws :: "string list" and rest
    by (cases ws) auto
  show ?thesis
    using connect_wired [OF assms(1-5)] by (simp add: child05_def p hd split: if_splits)
qed

text \<open>
  C10: the pipeline shell of lab 05 wires every pipeline of up to four commands as documented. Child
  \<open>i\<close> executes the words of piece \<open>i\<close> with its standard input on pipe \<open>i - 1\<close> and its standard output
  on pipe \<open>i\<close> (the first and last keep those of the shell), no child keeps another pipe end, and the
  shell's own table is afterwards what it was, so every reader sees end of file when its writer
  ends; a piece without a word makes its child pass a null pointer to \<^verbatim>\<open>execvp\<close>.
\<close>

theorem pipeline05_wired:
  assumes "length (cmds05 s) = 5" and "length args = 10" and "\<not> strncmp_eq line ''exit'' 4"
    and "words ''|'' line \<noteq> []" and "length (words ''|'' line) < 5"
    and "length forks = length (words ''|'' line)" and "\<forall>r \<in> set forks. 0 < r"
    and "tab05 s 0 \<noteq> None" and "tab05 s 1 \<noteq> None" and "\<forall>e \<ge> 1000. tab05 s e = None"
  shows "\<exists>s' out. body05 args forks line s = Inr (Again, s', out) \<and> tab05 s' = tab05 s \<and>
    (let ps = words ''|'' line
     in children out = map (\<lambda>i. if argv05 (ps ! i) = [] then Inl Bad_pointer
          else Inr (wired (length ps) i (tab05 s), argv05 (ps ! i))) [0..<length ps])"
proof -
  let ?ps = "words ''|'' line" and ?t = "tab05 s"
  let ?n = "length ?ps"
  let ?cmds = "map Some ?ps @ None # drop (Suc ?n) (cmds05 s)"
  have c: "collect_tokens ''|'' 5 (cmds05 s) 0 (next_tok ''|'' line)
      = Inr (map Some ?ps @ drop ?n (cmds05 s), ?n)"
    using collect_tokens_words [of 5 "cmds05 s" 0 "''|''" line] assms(1,5) by (simp add: Let_def)
  have split: "split_pipeline05 line (cmds05 s) = Inr (?cmds, ?n)"
    using c list_update_mid [of "map Some ?ps" ?n "cmds05 s" None] assms(1,5)
    by (simp add: split_pipeline05_def arr_set_def MAX_CMDS05_def)
  obtain es t1 where mk: "make_pipes 0 (?n - 1) ?t = Some (es, t1)"
  proof -
    have "1000 + 2 * (?n - 1) \<le> OPEN_MAX" using assms(5) by (simp add: OPEN_MAX_def)
    from make_pipes_succeeds [OF assms(10) this] that show ?thesis by blast
  qed
  note pin = make_pipes_in [OF mk]
  let ?out = "concat (map (\<lambda>j. [Call Fork, Child (child05 ?n j es t1 (the (?cmds ! j)) args)]) [0..<?n])"
  have "\<forall>r \<in> set forks. 0 \<le> r" using assms(7) by auto
  then have "launch05 ?cmds args ?n es t1 0 (take ?n forks) = (?out, True)"
    using launch05_all [of forks ?cmds args ?n es t1 0] assms(6) by simp
  moreover have "close_all es t1 = ?t" using pin parent_table by blast
  ultimately have b: "body05 args forks line s
      = Inr (Again, s\<lparr>cmds05 := ?cmds, tab05 := ?t\<rparr>, ?out @ map (\<lambda>i. Call (Wait (-1))) [0..<?n])"
    using assms(3,4) split mk by (simp add: body05_def Let_def)
  have "child05 ?n j es t1 (the (?cmds ! j)) args = (if argv05 (?ps ! j) = [] then Inl Bad_pointer
      else Inr (wired ?n j ?t, argv05 (?ps ! j)))" if "j < ?n" for j
    using child05_wired [of es ?t t1 ?n j args] pin that assms(2,8,9) by (simp add: nth_append)
  then have "children ?out = map (\<lambda>j. if argv05 (?ps ! j) = [] then Inl Bad_pointer
      else Inr (wired ?n j ?t, argv05 (?ps ! j))) [0..<?n]"
    by (simp add: children_concat comp_def cong: map_cong)
  with b show ?thesis by (simp add: Let_def)
qed

definition std_table :: fdt where
  "std_table e = (if e < 3 then Some Tty else None)"

theorem pipeline05_wired_witness:
  "\<exists>s' out. body05 (replicate 10 None) [7, 8] (''ls -l | wc'' @ nl) \<lparr>cmds05 = replicate 5 None, tab05 = std_table\<rparr>
     = Inr (Again, s', out) \<and> tab05 s' = std_table
     \<and> children out = [Inr (std_table(1 \<mapsto> Pipe_wr 0), [''ls'', ''-l'']), Inr (std_table(0 \<mapsto> Pipe_rd 0), [''wc''])]"
proof -
  let ?s = "\<lparr>cmds05 = replicate 5 None, tab05 = std_table\<rparr>"
  have w: "words ''|'' (''ls -l | wc'' @ nl) = [''ls -l '', '' wc'' @ nl]"
    by (simp add: words_def nl_def)
  have a: "argv05 ''ls -l '' = [''ls'', ''-l'']" "argv05 ('' wc'' @ nl) = [''wc'']"
    by (simp_all add: argv05_def words_def nl_def blanks_def)
  have wi: "wired 2 0 std_table = std_table(1 \<mapsto> Pipe_wr 0)" "wired 2 1 std_table = std_table(0 \<mapsto> Pipe_rd 0)"
    by (simp_all add: wired_def fun_eq_iff)
  have "[0..<2] = [0, 1 :: nat]" by (simp add: upt_rec)
  then show ?thesis
    using pipeline05_wired [of ?s "replicate 10 None" "''ls -l | wc'' @ nl" "[7, 8]"] w a wi
    by (simp add: std_table_def strncmp_eq_def numeral_2_eq_2)
qed

section \<open>Lab 06: redirection\<close>

text \<open>An operator: how the file is opened, and the descriptor it replaces.\<close>

definition operator06 :: "string \<Rightarrow> (omode \<times> nat) option" where
  "operator06 w =
     (if w = ''>'' then Some (Wr_create_trunc, 1)
      else if w = ''>>'' then Some (Wr_create_append, 1)
      else if w = ''<'' then Some (Rdonly, 0)
      else None)"

datatype redirected = Ready "string option list" fdt | Failed_open string

text \<open>
  One redirection, for the operator \<open>w\<close> at index \<open>i\<close>. The file system is the parameter \<open>can\<close>, which
  tells whether a file can be opened in a mode; \<^verbatim>\<open>open\<close> of a null pointer fails.
\<close>

definition apply06 :: "(string \<Rightarrow> omode \<Rightarrow> bool) \<Rightarrow> string \<Rightarrow> omode \<Rightarrow> nat \<Rightarrow> string option list \<Rightarrow> nat \<Rightarrow>
    fdt \<Rightarrow> redirected res" where
  "apply06 can w md std args i t =
     bindR (arr_get args (Suc i)) (\<lambda>fname.
       case fname of
         None \<Rightarrow> Inr (Failed_open (''open for '' @ w))
       | Some f \<Rightarrow>
           (case open_file (Path f md) t of
              None \<Rightarrow> Inr (Failed_open (''open for '' @ w))
            | Some (fd, t1) \<Rightarrow>
                if can f md then Inr (Ready (args[i := None]) (close_fd fd (dup2 fd std t1)))
                else Inr (Failed_open (''open for '' @ w))))"

function handle_redirection :: "(string \<Rightarrow> omode \<Rightarrow> bool) \<Rightarrow> string option list \<Rightarrow> nat \<Rightarrow> fdt \<Rightarrow> redirected res" where
  "handle_redirection can args i t =
     (if i < length args
      then case args ! i of
             None \<Rightarrow> Inr (Ready args t)
           | Some w \<Rightarrow>
               (case operator06 w of
                  None \<Rightarrow> handle_redirection can args (Suc i) t
                | Some (md, std) \<Rightarrow> apply06 can w md std args i t)
      else Inl Out_of_bounds)"
  by pat_completeness auto
termination
  by (relation "measure (\<lambda>(can, args, i, t). length args - i)") auto

declare handle_redirection.simps [simp del]

type_synonym proc06 = "(fdt \<times> string list) option res"

text \<open>The child: \<open>None\<close> when it exits because a file cannot be opened.\<close>

definition child06 :: "(string \<Rightarrow> omode \<Rightarrow> bool) \<Rightarrow> string option list \<Rightarrow> fdt \<Rightarrow> proc06" where
  "child06 can args t =
     bindR (handle_redirection can args 0 t) (\<lambda>r.
       case r of
         Failed_open msg \<Rightarrow> Inr None
       | Ready args' t' \<Rightarrow>
           (case args' ! 0 of None \<Rightarrow> Inl Bad_pointer | Some _ \<Rightarrow> Inr (Some (t', argv args'))))"

definition body06 :: "fdt \<Rightarrow> (int \<times> (string \<Rightarrow> omode \<Rightarrow> bool)) \<Rightarrow> string \<Rightarrow> string option list \<Rightarrow>
    (control \<times> string option list \<times> proc06 act list) res" where
  "body06 t a line args =
     (if strncmp_eq line ''exit'' 4 then Inr (Break, args, [])
      else bindR (parse_command06 line args) (\<lambda>args'.
        case args' ! 0 of
          None \<Rightarrow> Inr (Again, args', [])
        | Some _ \<Rightarrow>
            if fst a < 0 then Inr (Again, args', [Call Fork, Call (Perror ''fork'')])
            else Inr (Again, args', [Call Fork, Child (child06 (snd a) args' t), Call (Wait (-1))])))"

definition shell06 :: "fdt \<Rightarrow> string option list \<Rightarrow> (nat \<Rightarrow> int \<times> (string \<Rightarrow> omode \<Rightarrow> bool)) \<Rightarrow> string \<Rightarrow>
    proc06 act list res" where
  "shell06 t args ans inp =
     bindR (repl [Call (Print ''redir-shell> ''), Call Flush] (body06 t) ans args (lines_of 254 inp))
       (\<lambda>(c, s', out). Inr (
          [Call (Print (''=== '' @ [CHR 0xF0, CHR 0x9F, CHR 0xA7, CHR 0xAA] @ '' Lab 06: I/O Redirection Shell ==='' @ nl)),
           Call (Print (''Supports: input (<), output (>), and append (>>)'' @ nl)),
           Call (Print (''Example: cat < input.txt > output.txt'' @ nl @ nl))]
          @ out @ [Call (Print (''Exiting redirection shell.'' @ nl))]))"

lemma handle_redirection_plain:
  assumes "\<forall>w \<in> set pre. operator06 w = None"
  shows "handle_redirection can (front @ map Some pre @ rest) (length front) t
       = handle_redirection can (front @ map Some pre @ rest) (length front + length pre) t"
  using assms
proof (induction pre arbitrary: front)
  case Nil
  then show ?case by simp
next
  case (Cons w ws)
  have "handle_redirection can (front @ map Some (w # ws) @ rest) (length front) t
      = handle_redirection can (front @ map Some (w # ws) @ rest) (Suc (length front)) t"
    using Cons.prems by (subst handle_redirection.simps) (simp add: nth_append)
  also have "\<dots> = handle_redirection can ((front @ [Some w]) @ map Some ws @ rest) (length (front @ [Some w])) t"
    by simp
  also have "\<dots> = handle_redirection can ((front @ [Some w]) @ map Some ws @ rest) (length (front @ [Some w]) + length ws) t"
    using Cons.prems by (intro Cons.IH) simp
  finally show ?case by simp
qed

lemma redirect_none:
  "\<forall>w \<in> set ws. operator06 w = None \<Longrightarrow>
     handle_redirection can (map Some ws @ None # rest) 0 t = Inr (Ready (map Some ws @ None # rest) t)"
  using handle_redirection_plain [of ws can "[]" "None # rest" t]
  by (simp add: handle_redirection.simps [of can _ "length ws"] nth_append)

lemma redirect_first:
  assumes "\<forall>w \<in> set pre. operator06 w = None" and "operator06 op = Some (md, std)"
    and "can f md" and "t std \<noteq> None" and "open_file (Path f md) t = Some (fd, t1)"
  shows "handle_redirection can (map Some pre @ Some op # Some f # rest) 0 t
       = Inr (Ready (map Some pre @ None # Some f # rest) (t(std \<mapsto> Path f md)))"
proof -
  let ?a = "map Some pre @ Some op # Some f # rest"
  have fd: "t fd = None" "t1 = t(fd \<mapsto> Path f md)" using open_file_Some [OF assms(5)] by auto
  then have "fd \<noteq> std" using assms(4) by auto
  then have tab: "close_fd fd (dup2 fd std t1) = t(std \<mapsto> Path f md)"
    using fd by (auto simp: close_fd_def dup2_def fun_eq_iff)
  have up: "?a[length pre := None] = map Some pre @ None # Some f # rest"
    using list_update_length [of "map Some pre"] by simp
  have "handle_redirection can ?a 0 t = handle_redirection can ?a (length pre) t"
    using handle_redirection_plain [of pre can "[]" "Some op # Some f # rest" t] assms(1) by simp
  also have "\<dots> = apply06 can op md std ?a (length pre) t"
    using assms(2) by (subst handle_redirection.simps) (simp add: nth_append)
  also have "\<dots> = Inr (Ready (map Some pre @ None # Some f # rest) (t(std \<mapsto> Path f md)))"
    using assms(3,5) tab up by (simp add: apply06_def arr_get_def nth_append)
  finally show ?thesis .
qed

text \<open>
  C11: the child of lab 06 executes the words before the first redirection operator, with exactly
  that operator's descriptor replaced by the file and no extra descriptor left open. Whatever stands
  after the first file name is neither an argument nor a redirection: of
  \<^verbatim>\<open>cat < in > out\<close>, the example the program prints, only the first half takes effect.
\<close>

theorem redirection06_first_only:
  assumes "length args = 20" and "words blanks line = pre @ op # f # post" and "length (words blanks line) \<le> 19"
    and "pre \<noteq> []" and "\<forall>w \<in> set pre. operator06 w = None" and "operator06 op = Some (md, std)"
    and "\<not> strncmp_eq line ''exit'' 4" and "0 < pid" and "can f md"
    and "tab std \<noteq> None" and "open_file (Path f md) tab \<noteq> None"
  shows "\<exists>args' out. body06 tab (pid, can) line args = Inr (Again, args', out)
    \<and> children out = [Inr (Some (tab(std \<mapsto> Path f md), pre))]"
proof -
  let ?ws = "words blanks line"
  let ?rest = "drop (Suc (length ?ws)) args"
  have p: "parse_command06 line args = Inr (map Some ?ws @ None # ?rest)"
    using parse_args_words [of 20 args line] assms(1,3) by (simp add: parse_command06_def Let_def)
  have e: "map Some ?ws @ None # ?rest = map Some pre @ Some op # Some f # (map Some post @ None # ?rest)"
    using assms(2) by simp
  obtain fd t1 where o: "open_file (Path f md) tab = Some (fd, t1)" using assms(11) by auto
  obtain w ws where pre: "pre = w # ws" using assms(4) by (cases pre) auto
  have "child06 can (map Some ?ws @ None # ?rest) tab = Inr (Some (tab(std \<mapsto> Path f md), pre))"
    unfolding child06_def e redirect_first [where t = tab and can = can and f = f, OF assms(5,6,9,10) o]
    using argv_terminated [of pre] by (simp add: pre)
  then show ?thesis
    using p assms(2,7,8) pre by (simp add: body06_def)
qed

theorem redirection06_first_only_witness:
  "\<exists>args' out. body06 std_table (7, \<lambda>f m. True) (''cat < in > out'' @ nl) (replicate 20 None) = Inr (Again, args', out)
    \<and> children out = [Inr (Some (std_table(0 \<mapsto> Path ''in'' Rdonly), [''cat'']))]
    \<and> (std_table(0 \<mapsto> Path ''in'' Rdonly)) 1 = Some Tty"
proof -
  have w: "words blanks (''cat < in > out'' @ nl) = [''cat''] @ ''<'' # ''in'' # [''>'', ''out'']"
    by (simp add: words_def nl_def blanks_def)
  have "open_file (Path ''in'' Rdonly) std_table \<noteq> None"
    using open_file_bounded [of 3 std_table "Path ''in'' Rdonly"] by (auto simp: std_table_def OPEN_MAX_def)
  then show ?thesis
    using redirection06_first_only [OF _ w, of "replicate 20 None" Rdonly 0 7 "\<lambda>f m. True" std_table] w
    by (simp add: operator06_def std_table_def strncmp_eq_def)
qed

end
