(* ===== verification/Jobs11.thy ===== *)
theory Jobs11
  imports Shell_Parse Wait_Status Counted_Table
begin

text \<open>
  \<^verbatim>\<open>01_processes/lab11_advanced_job_control/src/main.c\<close>: the shell with a job table, \<^verbatim>\<open>fg\<close> and \<^verbatim>\<open>bg\<close>.
  \<open>sh11\<close> holds the globals. The handler of \<^verbatim>\<open>SIGCHLD\<close> can run at the prompt (event \<open>Chld11\<close>) and, while
  a line is executed, before the new job is entered and while the shell waits for the foreground
  job; the answers of a line carry the statuses the handler collects at these points. A status that
  the \<^verbatim>\<open>waitpid\<close> of the foreground wait returns is not among them: the program discards it.
\<close>

section \<open>The model\<close>

datatype job_state = RUNNING | STOPPED | DONE

record job11 =
  pid11 :: int
  cmd11 :: string       \<comment> \<open>all the bytes of the field\<close>
  state11 :: job_state

record sh11 =
  jobs11 :: "job11 list"
  count11 :: nat
  pgid11 :: int

definition MAX_JOBS11 :: nat where "MAX_JOBS11 = 64"
definition SIGCONT :: int where "SIGCONT = 18"

definition find_job11 :: "sh11 \<Rightarrow> int \<Rightarrow> nat option" where
  "find_job11 s pid = find_first (\<lambda>j. pid11 j = pid) (jobs11 s) (count11 s)"

definition pad :: "nat \<Rightarrow> string \<Rightarrow> string" where
  "pad n t = t @ replicate (n - length t) CHR '' ''"

definition state_name :: "job_state \<Rightarrow> string" where
  "state_name st = (if st = RUNNING then ''Running'' else if st = STOPPED then ''Stopped'' else ''Done'')"

definition print_jobs11 :: "sh11 \<Rightarrow> sys list" where
  "print_jobs11 s =
     Print (nl @ pad 5 ''ID'' @ '' '' @ pad 8 ''PID'' @ '' '' @ pad 10 ''STATE'' @ '' CMD'' @ nl)
     # map (\<lambda>i. Print (''['' @ show_int (int i + 1) @ ''] '' @ pad 8 (show_int (pid11 (jobs11 s ! i))) @ '' ''
              @ pad 10 (state_name (state11 (jobs11 s ! i))) @ '' '' @ cstr (cmd11 (jobs11 s ! i)) @ nl))
         [0..<count11 s]"

definition add_job11 :: "int \<Rightarrow> string \<Rightarrow> job_state \<Rightarrow> sh11 \<Rightarrow> sh11" where
  "add_job11 pid cmd st s =
     (if count11 s < MAX_JOBS11
      then s\<lparr>jobs11 := (jobs11 s)[count11 s :=
               \<lparr>pid11 = pid, cmd11 = strncpy (cmd11 (jobs11 s ! count11 s)) cmd 127, state11 = st\<rparr>],
             count11 := count11 s + 1\<rparr>
      else s)"

definition set_state11 :: "nat \<Rightarrow> job_state \<Rightarrow> sh11 \<Rightarrow> sh11" where
  "set_state11 i st s = s\<lparr>jobs11 := (jobs11 s)[i := (jobs11 s ! i)\<lparr>state11 := st\<rparr>]\<rparr>"

text \<open>One round of the handler's loop, for the pid and status \<^verbatim>\<open>waitpid\<close> returned.\<close>

definition report11 :: "int \<Rightarrow> status \<Rightarrow> sh11 \<Rightarrow> sh11 \<times> sys list" where
  "report11 pid st s =
     (case find_job11 s pid of
        None \<Rightarrow> (s, [])
      | Some i \<Rightarrow>
          let about = (\<lambda>t. [Print (nl @ t @ cstr (cmd11 (jobs11 s ! i)) @ '' (PID='' @ show_int pid @ '')'' @ nl), Flush])
          in if WIFSTOPPED st then (set_state11 i STOPPED s, about ''[!] Job stopped: '')
             else if WIFCONTINUED st then (set_state11 i RUNNING s, about ''[+] Job continued: '')
             else if WIFEXITED st \<or> WIFSIGNALED st then (set_state11 i DONE s, about ''[x] Job done: '')
             else (s, [Flush]))"

fun sigchld11 :: "(int \<times> status) list \<Rightarrow> sh11 \<Rightarrow> sh11 \<times> sys list" where
  "sigchld11 [] s = (s, [])"
| "sigchld11 ((pid, st) # rs) s =
     (case report11 pid st s of (s1, o1) \<Rightarrow> case sigchld11 rs s1 of (s2, o2) \<Rightarrow> (s2, o1 @ o2))"

record ans11 =
  fork11 :: int
  early11 :: "(int \<times> status) list"   \<comment> \<open>collected by the handler before the job is entered\<close>
  during11 :: "(int \<times> status) list"  \<comment> \<open>collected by the handler during a foreground wait\<close>

definition bring_to_foreground11 :: "ans11 \<Rightarrow> nat \<Rightarrow> sh11 \<Rightarrow> sh11 \<times> sys list" where
  "bring_to_foreground11 a i s =
     (let pid = pid11 (jobs11 s ! i)
      in if state11 (jobs11 s ! i) = DONE
         then (s, [Print (''Job ['' @ show_int (int i + 1) @ ''] already finished'' @ nl)])
         else case sigchld11 (during11 a) (set_state11 i RUNNING s) of (s', out) \<Rightarrow>
           (s', [Tcsetpgrp pid, Kill (- pid) SIGCONT, Wait pid] @ out @ [Tcsetpgrp (pgid11 s)]))"

definition continue_in_background11 :: "nat \<Rightarrow> sh11 \<Rightarrow> sh11 \<times> sys list" where
  "continue_in_background11 i s =
     (let pid = pid11 (jobs11 s ! i)
      in if state11 (jobs11 s ! i) = DONE
         then (s, [Print (''Job ['' @ show_int (int i + 1) @ ''] already finished'' @ nl)])
         else (set_state11 i RUNNING s,
           [Kill (- pid) SIGCONT,
            Print (''[BG] Continued '' @ [CHR 0x27] @ cstr (cmd11 (jobs11 s ! i)) @ [CHR 0x27] @ '' (PID=''
              @ show_int pid @ '')'' @ nl)]))"

text \<open>\<^verbatim>\<open>int id = atoi(line + 3) - 1; if (id >= 0 && id < job_count)\<close>\<close>

definition job_id11 :: "string \<Rightarrow> sh11 \<Rightarrow> nat option res" where
  "job_id11 line s =
     bindR (atoi (drop 3 line)) (\<lambda>v.
       if v = int_min then Inl Int_overflow
       else Inr (if 1 \<le> v \<and> v - 1 < int (count11 s) then Some (nat (v - 1)) else None))"

definition invalid_id :: "sys list" where
  "invalid_id = [Print (''Invalid job id'' @ nl)]"

text \<open>The child of a line, up to its \<^verbatim>\<open>exec\<close>; \<open>self\<close> is its own pid.\<close>

definition child11 :: "int \<Rightarrow> string \<Rightarrow> bool \<Rightarrow> sys list" where
  "child11 self cmd background =
     [Setpgid 0 0] @ (if background then [] else [Tcsetpgrp self])
     @ [Exec [''sh'', ''-c'', cmd], Perror ''exec failed'', Exit 1]"

definition execute11 :: "ans11 \<Rightarrow> string \<Rightarrow> sh11 \<Rightarrow> (sh11 \<times> sys list) res" where
  "execute11 a line s =
     bindR (background_mark line) (\<lambda>(cmd, background).
       if fork11 a < 0 then Inr (s, [Fork])
       else case sigchld11 (early11 a) s of (s0, o0) \<Rightarrow>
         let pid = fork11 a; s1 = add_job11 pid cmd RUNNING s0; o1 = [Spawn (child11 pid cmd background), Setpgid pid pid] @ o0
         in if background
            then Inr (s1, o1 @ [Print (''[BG] Started '' @ [CHR 0x27] @ cmd @ [CHR 0x27] @ '' (PID='' @ show_int pid @ '')'' @ nl)])
            else case sigchld11 (during11 a) s1 of (s2, o2) \<Rightarrow>
              Inr (s2, o1 @ [Tcsetpgrp pid, Wait pid] @ o2 @ [Tcsetpgrp (pgid11 s)]))"

text \<open>\<open>None\<close> is the line \<^verbatim>\<open>exit\<close>.\<close>

definition line11 :: "ans11 \<Rightarrow> string \<Rightarrow> sh11 \<Rightarrow> (sh11 \<times> sys list) option res" where
  "line11 a input s =
     (let line = chop nl (cstr input)
      in if line = [] then Inr (Some (s, []))
         else if line = ''exit'' then Inr None
         else if line = ''jobs'' then Inr (Some (s, print_jobs11 s))
         else if strncmp_eq line ''fg '' 3 then
           bindR (job_id11 line s) (\<lambda>r. Inr (Some (case r of
             Some i \<Rightarrow> bring_to_foreground11 a i s | None \<Rightarrow> (s, invalid_id))))
         else if strncmp_eq line ''bg '' 3 then
           bindR (job_id11 line s) (\<lambda>r. Inr (Some (case r of
             Some i \<Rightarrow> continue_in_background11 i s | None \<Rightarrow> (s, invalid_id))))
         else bindR (execute11 a line s) (\<lambda>r. Inr (Some r)))"

text \<open>What happens to the shell before it leaves: a line is read, or the handler runs at the prompt.\<close>

datatype ev11 = Line11 ans11 string | Chld11 "(int \<times> status) list"

fun step11 :: "sh11 \<Rightarrow> ev11 \<Rightarrow> (sh11 \<times> sys list) res" where
  "step11 s (Chld11 rs) = Inr (sigchld11 rs s)"
| "step11 s (Line11 a input) =
     bindR (line11 a input s) (\<lambda>r. Inr (case r of
       None \<Rightarrow> (s, [Print (''MiniShell exiting...'' @ nl)])
     | Some (s', out) \<Rightarrow> (s', out @ [Print ''mini-shell> '', Flush])))"

definition start11 :: "int \<Rightarrow> sh11 \<times> sys list" where
  "start11 self =
     (\<lparr>jobs11 = replicate MAX_JOBS11 \<lparr>pid11 = 0, cmd11 = replicate 128 NUL, state11 = RUNNING\<rparr>,
       count11 = 0, pgid11 = self\<rparr>,
      [Setpgid self self, Tcsetpgrp self, Sigaction 17,
       Print (''MiniShell Advanced Job Control started (Lab 11)'' @ nl), Print ''mini-shell> '', Flush])"

section \<open>The table of jobs\<close>

definition wf11 :: "sh11 \<Rightarrow> bool" where
  "wf11 s \<longleftrightarrow> tbl_inv pid11 MAX_JOBS11 (count11 s) (jobs11 s)
     \<and> (\<forall>j \<in> set (jobs11 s). length (cmd11 j) = 128 \<and> cmd11 j ! 127 = NUL)"

definition tab11 :: "sh11 \<Rightarrow> int \<Rightarrow> job11 option" where
  "tab11 s = tbl pid11 (count11 s) (jobs11 s)"

lemma wf11_start: "wf11 (fst (start11 self))"
  by (simp add: wf11_def start11_def)

lemma set_state11_effect:
  assumes "wf11 s" and "i < count11 s"
  shows "wf11 (set_state11 i st s)
    \<and> tab11 (set_state11 i st s) = (tab11 s)(pid11 (jobs11 s ! i) \<mapsto> (jobs11 s ! i)\<lparr>state11 := st\<rparr>)"
proof -
  have inv: "tbl_inv pid11 MAX_JOBS11 (count11 s) (jobs11 s)" using assms by (simp add: wf11_def)
  have "jobs11 s ! i \<in> set (jobs11 s)" using assms inv by (auto simp: tbl_inv_def)
  then have "\<forall>j \<in> set ((jobs11 s)[i := (jobs11 s ! i)\<lparr>state11 := st\<rparr>]). length (cmd11 j) = 128 \<and> cmd11 j ! 127 = NUL"
    using assms(1) set_update_subset_insert [of "jobs11 s" i] by (fastforce simp: wf11_def)
  then show ?thesis
    using tbl_inv_update [OF inv assms(2), of "(jobs11 s ! i)\<lparr>state11 := st\<rparr>"]
      tbl_update [OF inv assms(2), of "(jobs11 s ! i)\<lparr>state11 := st\<rparr>"]
    by (simp add: wf11_def tab11_def set_state11_def)
qed

lemma set_state11_simps [simp]:
  "count11 (set_state11 i st s) = count11 s" "pgid11 (set_state11 i st s) = pgid11 s"
  by (simp_all add: set_state11_def)

text \<open>The state a job has after an event.\<close>

fun after :: "child_event \<Rightarrow> job_state" where
  "after (Exited c) = DONE"
| "after (Signaled sg core) = DONE"
| "after (Stopped_by sg) = STOPPED"
| "after Continued = RUNNING"

lemma find_job11_tab:
  "wf11 s \<Longrightarrow> find_job11 s pid = None \<longleftrightarrow> tab11 s pid = None"
  "wf11 s \<Longrightarrow> find_job11 s pid = Some i \<Longrightarrow> i < count11 s \<and> pid11 (jobs11 s ! i) = pid \<and> tab11 s pid = Some (jobs11 s ! i)"
  using find_first_tbl [of pid11 MAX_JOBS11 "count11 s" "jobs11 s" pid]
  by (auto simp: find_job11_def tab11_def wf11_def)

lemma report11_effect:
  assumes "wf11 s" and "event_ok ev"
  shows "wf11 (fst (report11 pid (encode ev) s))
    \<and> tab11 (fst (report11 pid (encode ev) s))
        = (tab11 s)(pid := map_option (\<lambda>j. j\<lparr>state11 := after ev\<rparr>) (tab11 s pid))
    \<and> count11 (fst (report11 pid (encode ev) s)) = count11 s"
proof (cases "find_job11 s pid")
  case None
  then have "tab11 s pid = None" using find_job11_tab(1) [OF assms(1)] by blast
  with None assms show ?thesis by (auto simp: report11_def fun_eq_iff)
next
  case (Some i)
  note i = find_job11_tab(2) [OF assms(1) Some]
  have "fst (report11 pid (encode ev) s) = set_state11 i (after ev) s"
    using Some decode [OF assms(2)] by (cases ev) (auto simp: report11_def Let_def)
  with set_state11_effect [OF assms(1), of i "after ev"] i show ?thesis by simp
qed

text \<open>Several reports: each job ends in the state of the last one about it.\<close>

fun last_state :: "int \<Rightarrow> (int \<times> child_event) list \<Rightarrow> job_state \<Rightarrow> job_state" where
  "last_state p [] st = st"
| "last_state p ((q, ev) # evs) st = last_state p evs (if q = p then after ev else st)"

lemma sigchld11_Cons:
  "fst (sigchld11 ((pid, st) # rs) s) = fst (sigchld11 rs (fst (report11 pid st s)))"
  by (simp split: prod.split)

lemma sigchld11_effect:
  "wf11 s \<Longrightarrow> \<forall>r \<in> set evs. event_ok (snd r) \<Longrightarrow>
     wf11 (fst (sigchld11 (map (\<lambda>(p, ev). (p, encode ev)) evs) s)) \<and>
     tab11 (fst (sigchld11 (map (\<lambda>(p, ev). (p, encode ev)) evs) s)) p
       = map_option (\<lambda>j. j\<lparr>state11 := last_state p evs (state11 j)\<rparr>) (tab11 s p)"
proof (induction evs arbitrary: s)
  case Nil
  then show ?case by (simp add: option.map_ident)
next
  case (Cons r evs)
  obtain q ev where r: "r = (q, ev)" by (cases r)
  with Cons.prems have ok: "event_ok ev" "\<forall>r \<in> set evs. event_ok (snd r)" by auto
  note e = report11_effect [OF Cons.prems(1) ok(1), of q]
  have "tab11 (fst (sigchld11 (map (\<lambda>(p, ev). (p, encode ev)) (r # evs)) s)) p
      = map_option (\<lambda>j. j\<lparr>state11 := last_state p evs (state11 j)\<rparr>) (tab11 (fst (report11 q (encode ev) s)) p)"
    using Cons.IH [OF conjunct1 [OF e] ok(2)] r by (simp add: sigchld11_Cons del: sigchld11.simps)
  also have "\<dots> = map_option (\<lambda>j. j\<lparr>state11 := last_state p (r # evs) (state11 j)\<rparr>) (tab11 s p)"
    using e r by (cases "tab11 s p") auto
  finally show ?case
    using Cons.IH [OF conjunct1 [OF e] ok(2)] r by (simp add: sigchld11_Cons del: sigchld11.simps)
qed

section \<open>Jobs nobody reports\<close>

definition alive11 :: "sh11 \<Rightarrow> int \<Rightarrow> bool" where
  "alive11 s p \<longleftrightarrow> (\<exists>i < count11 s. pid11 (jobs11 s ! i) = p \<and> state11 (jobs11 s ! i) \<noteq> DONE)"

definition size_ok11 :: "sh11 \<Rightarrow> bool" where
  "size_ok11 s \<longleftrightarrow> length (jobs11 s) = MAX_JOBS11 \<and> count11 s \<le> MAX_JOBS11"

fun reported11 :: "ev11 \<Rightarrow> int set" where
  "reported11 (Chld11 rs) = fst ` set rs"
| "reported11 (Line11 a input) = fst ` set (early11 a) \<union> fst ` set (during11 a)"

lemma alive_set_state11:
  "size_ok11 s \<Longrightarrow> i < count11 s \<Longrightarrow> alive11 s p \<Longrightarrow> pid11 (jobs11 s ! i) \<noteq> p \<or> st \<noteq> DONE \<Longrightarrow>
     alive11 (set_state11 i st s) p \<and> size_ok11 (set_state11 i st s)"
  by (auto simp: alive11_def size_ok11_def set_state11_def nth_list_update)

lemma size_set_state11 [simp]: "size_ok11 (set_state11 i st s) = size_ok11 s"
  by (simp add: size_ok11_def set_state11_def)

lemma report11_cases:
  obtains "fst (report11 pid st s) = s"
  | i st' where "i < count11 s" "pid11 (jobs11 s ! i) = pid" "fst (report11 pid st s) = set_state11 i st' s"
proof (cases "find_job11 s pid")
  case None
  then show ?thesis using that(1) by (simp add: report11_def)
next
  case (Some i)
  then have "i < count11 s" "pid11 (jobs11 s ! i) = pid" by (auto simp: find_job11_def dest: find_first_Some)
  moreover have "fst (report11 pid st s) = s \<or> (\<exists>st'. fst (report11 pid st s) = set_state11 i st' s)"
    using Some by (auto simp: report11_def Let_def)
  ultimately show ?thesis using that by blast
qed

lemma alive_sigchld11:
  "size_ok11 s \<Longrightarrow> sigchld11 rs s = (s', out) \<Longrightarrow>
     size_ok11 s' \<and> count11 s' = count11 s \<and> (alive11 s p \<longrightarrow> p \<notin> fst ` set rs \<longrightarrow> alive11 s' p)"
proof (induction rs arbitrary: s out)
  case Nil
  then show ?case by simp
next
  case (Cons r rs)
  obtain q st where r: "r = (q, st)" by (cases r)
  obtain s1 o1 where s1: "report11 q st s = (s1, o1)" by fastforce
  have "size_ok11 s1 \<and> count11 s1 = count11 s \<and> (alive11 s p \<longrightarrow> q \<noteq> p \<longrightarrow> alive11 s1 p)"
    using report11_cases [of q st s] s1 alive_set_state11 [OF Cons.prems(1)] Cons.prems(1)
    by (metis fst_conv set_state11_simps(1) size_set_state11)
  moreover obtain s2 o2 where "sigchld11 rs s1 = (s2, o2)" by fastforce
  ultimately show ?case using Cons r s1 by (auto split: prod.splits)
qed

lemma alive_add_job11:
  "size_ok11 s \<Longrightarrow> size_ok11 (add_job11 pid cmd st s) \<and> (alive11 s p \<longrightarrow> alive11 (add_job11 pid cmd st s) p)
     \<and> (st \<noteq> DONE \<longrightarrow> count11 s < MAX_JOBS11 \<longrightarrow> alive11 (add_job11 pid cmd st s) pid)"
proof (cases "count11 s < MAX_JOBS11")
  case False
  then show "size_ok11 s \<Longrightarrow> ?thesis" by (simp add: add_job11_def)
next
  case True
  let ?s = "add_job11 pid cmd st s"
  assume sz: "size_ok11 s"
  then have old: "jobs11 ?s ! i = jobs11 s ! i" if "i < count11 s" for i
    using that True by (simp add: add_job11_def size_ok11_def)
  have new: "pid11 (jobs11 ?s ! count11 s) = pid" "state11 (jobs11 ?s ! count11 s) = st" "count11 ?s = Suc (count11 s)"
    using True sz by (simp_all add: add_job11_def size_ok11_def)
  have "alive11 s p \<longrightarrow> alive11 ?s p"
    unfolding alive11_def new(3) using old by (metis less_Suc_eq)
  moreover have "st \<noteq> DONE \<longrightarrow> alive11 ?s pid"
    unfolding alive11_def using new by (metis lessI)
  moreover have "size_ok11 ?s" using True sz by (simp add: add_job11_def size_ok11_def)
  ultimately show ?thesis by blast
qed

lemma alive_fg11:
  assumes "size_ok11 s" and "i < count11 s" and "bring_to_foreground11 a i s = (s', out)"
  shows "size_ok11 s' \<and> (alive11 s p \<longrightarrow> p \<notin> fst ` set (during11 a) \<longrightarrow> alive11 s' p)"
proof (cases "state11 (jobs11 s ! i) = DONE")
  case True
  with assms show ?thesis by (simp add: bring_to_foreground11_def)
next
  case False
  obtain s1 o1 where "sigchld11 (during11 a) (set_state11 i RUNNING s) = (s1, o1)" by fastforce
  with False assms alive_sigchld11 [of "set_state11 i RUNNING s" "during11 a" s1 o1 p]
    alive_set_state11 [of s i p RUNNING]
  show ?thesis by (auto simp: bring_to_foreground11_def Let_def)
qed

lemma alive_execute11:
  assumes "size_ok11 s" and "execute11 a line s = Inr (s', out)"
  shows "size_ok11 s' \<and> (alive11 s p \<longrightarrow> p \<notin> fst ` set (early11 a) \<longrightarrow> p \<notin> fst ` set (during11 a) \<longrightarrow> alive11 s' p)"
proof -
  obtain cmd bg where b: "background_mark line = Inr (cmd, bg)"
    using assms(2) by (cases "background_mark line") (auto simp: execute11_def)
  obtain s0 o0 where s0: "sigchld11 (early11 a) s = (s0, o0)" by fastforce
  obtain s2 o2 where s2: "sigchld11 (during11 a) (add_job11 (fork11 a) cmd RUNNING s0) = (s2, o2)" by fastforce
  note f0 = alive_sigchld11 [OF assms(1) s0, of p]
  then have "size_ok11 s0" by simp
  note f1 = alive_add_job11 [OF this, of "fork11 a" cmd RUNNING p]
  then have "size_ok11 (add_job11 (fork11 a) cmd RUNNING s0)" by simp
  note f2 = alive_sigchld11 [OF this s2, of p]
  show ?thesis
    using assms b s0 s2 f0 f1 f2 by (auto simp: execute11_def Let_def split: if_splits)
qed

lemma job_id11_lt: "job_id11 line s = Inr (Some i) \<Longrightarrow> i < count11 s"
  by (auto simp: job_id11_def bindR_eq_Inr split: if_splits)

lemma alive_line11:
  assumes "size_ok11 s" and "line11 a input s = Inr (Some (s', out))"
  shows "size_ok11 s' \<and> (alive11 s p \<longrightarrow> p \<notin> reported11 (Line11 a input) \<longrightarrow> alive11 s' p)"
proof -
  have bg: "i < count11 s \<Longrightarrow> continue_in_background11 i s = (s', out) \<Longrightarrow> size_ok11 s' \<and> (alive11 s p \<longrightarrow> alive11 s' p)" for i
    using assms(1) alive_set_state11 [of s i p RUNNING]
    by (auto simp: continue_in_background11_def Let_def split: if_splits)
  show ?thesis
    using assms alive_fg11 [OF assms(1)] bg alive_execute11 [OF assms(1), of a "chop nl (cstr input)" s' out p]
    by (auto simp: line11_def Let_def bindR_eq_Inr dest!: job_id11_lt split: if_splits option.splits)
qed

interpretation jobs11: job_shell step11 alive11 reported11 size_ok11
proof
  fix s s' e out p
  assume inv: "size_ok11 s" and st: "step11 s e = Inr (s', out)"
  have "size_ok11 s' \<and> (alive11 s p \<longrightarrow> p \<notin> reported11 e \<longrightarrow> alive11 s' p)" for p
  proof (cases e)
    case (Chld11 rs)
    then have "sigchld11 rs s = (s', out)" using st by simp
    with alive_sigchld11 [OF inv this, of p] Chld11 show ?thesis by simp
  next
    case (Line11 a input)
    with st obtain r where "line11 a input s = Inr r" by (auto simp: bindR_eq_Inr)
    with st Line11 inv alive_line11 [OF inv, of a input s' _ p] show ?thesis
      by (cases r) auto
  qed
  then show "size_ok11 s'" and "p \<notin> reported11 e \<Longrightarrow> alive11 s p \<Longrightarrow> alive11 s' p" by blast+
qed

lemma kills_sigchld11 [simp]: "sigchld11 rs s = (s', out) \<Longrightarrow> kills out = []"
proof (induction rs arbitrary: s out)
  case Nil
  then show ?case by simp
next
  case (Cons r rs)
  obtain q st where r: "r = (q, st)" by (cases r)
  obtain s1 o1 where s1: "report11 q st s = (s1, o1)" by fastforce
  then have "kills o1 = []" by (auto simp: report11_def Let_def split: option.splits if_splits)
  with Cons r s1 show ?case by (auto split: prod.splits)
qed

section \<open>Properties\<close>

text \<open>
  C12: the \<^verbatim>\<open>SIGCHLD\<close> handler of lab 11 keeps the job table in step with the children. For any list of
  reports, in the encoding of the status word the kernel uses, every job ends in the state of the
  last report about it (done after an exit or a signal, stopped, running again), jobs without a
  report and processes that are no jobs change nothing, and the table stays well formed.
\<close>

theorem jobs11_track:
  assumes "wf11 s" and "\<forall>r \<in> set evs. event_ok (snd r)"
    and "sigchld11 (map (\<lambda>(p, ev). (p, encode ev)) evs) s = (s', out)"
  shows "wf11 s' \<and> kills out = []
    \<and> tab11 s' p = map_option (\<lambda>j. j\<lparr>state11 := last_state p evs (state11 j)\<rparr>) (tab11 s p)"
  using sigchld11_effect [OF assms(1,2), of p] assms(3) by simp

definition demo11 :: sh11 where
  "demo11 = add_job11 7 ''sleep 9'' RUNNING (fst (start11 1))"

lemma demo11_wf: "wf11 demo11" and demo11_tab: "tab11 demo11 7 = Some (jobs11 demo11 ! 0)"
  and demo11_state: "state11 (jobs11 demo11 ! 0) = RUNNING" "pid11 (jobs11 demo11 ! 0) = 7" "count11 demo11 = 1"
proof -
  have t: "tbl_inv pid11 MAX_JOBS11 (count11 demo11) (jobs11 demo11)"
    by (simp add: demo11_def start11_def add_job11_def MAX_JOBS11_def tbl_inv_def live_def numeral_eq_Suc)
  moreover have "\<forall>j \<in> set (jobs11 demo11). length (cmd11 j) = 128 \<and> cmd11 j ! 127 = NUL"
    by (auto simp: demo11_def start11_def add_job11_def MAX_JOBS11_def numeral_eq_Suc strncpy_def)
  ultimately show "wf11 demo11" by (simp add: wf11_def)
  show st: "state11 (jobs11 demo11 ! 0) = RUNNING" "pid11 (jobs11 demo11 ! 0) = 7" "count11 demo11 = 1"
    by (simp_all add: demo11_def start11_def add_job11_def MAX_JOBS11_def)
  show "tab11 demo11 7 = Some (jobs11 demo11 ! 0)"
    using tbl_nth [OF t, of 0] st by (simp add: tab11_def)
qed

theorem jobs11_track_witness:
  "map_option state11 (tab11 (fst (sigchld11 [(7, 0x137f), (9, 0), (7, 0xffff), (7, 0x300)] demo11)) 7) = Some DONE"
proof -
  let ?evs = "[(7 :: int, Stopped_by 19), (9, Exited 0), (7, Continued), (7, Exited 3)]"
  have e: "map (\<lambda>(p, ev). (p, encode ev)) ?evs = [(7, 0x137f), (9, 0), (7, 0xffff), (7, 0x300)]"
    by simp
  obtain s' out where r: "sigchld11 (map (\<lambda>(p, ev). (p, encode ev)) ?evs) demo11 = (s', out)" by fastforce
  have ok: "\<forall>r \<in> set ?evs. event_ok (snd r)" by simp
  from jobs11_track [OF demo11_wf ok r, of 7] demo11_tab have "map_option state11 (tab11 s' 7) = Some DONE"
    by simp
  with r show ?thesis by (simp only: e fst_conv)
qed

text \<open>
  C13: \<^verbatim>\<open>bg n\<close> and \<^verbatim>\<open>fg n\<close> of lab 11 act on job \<open>n\<close> only. A job that is done is left alone and gets no
  signal; any other is marked running and its process group, and nothing else, gets \<^verbatim>\<open>SIGCONT\<close>; a
  number outside the table is refused without effect. \<^verbatim>\<open>fg\<close> also gives the terminal to the group
  and takes it back.
\<close>

theorem job_commands11:
  assumes "wf11 s" and "int_min < n" and "n \<le> int_max"
  shows "if 1 \<le> n \<and> n \<le> int (count11 s)
    then let j = jobs11 s ! nat (n - 1) in
      \<exists>s' out sf outf. line11 a (''bg '' @ show_int n @ nl) s = Inr (Some (s', out))
        \<and> line11 (a\<lparr>during11 := []\<rparr>) (''fg '' @ show_int n @ nl) s = Inr (Some (sf, outf))
        \<and> (if state11 j = DONE then s' = s \<and> sf = s \<and> kills out = [] \<and> kills outf = []
           else tab11 s' = (tab11 s)(pid11 j \<mapsto> j\<lparr>state11 := RUNNING\<rparr>) \<and> wf11 s' \<and> sf = s'
             \<and> kills out = [(- pid11 j, SIGCONT)]
             \<and> outf = [Tcsetpgrp (pid11 j), Kill (- pid11 j) SIGCONT, Wait (pid11 j), Tcsetpgrp (pgid11 s)])
    else line11 a (''bg '' @ show_int n @ nl) s = Inr (Some (s, invalid_id))
      \<and> line11 a (''fg '' @ show_int n @ nl) s = Inr (Some (s, invalid_id))"
proof -
  have lb: "chop nl (cstr (''bg '' @ show_int n @ nl)) = ''bg '' @ show_int n"
    and lf: "chop nl (cstr (''fg '' @ show_int n @ nl)) = ''fg '' @ show_int n"
    using chop_line [of "''bg '' @ show_int n"] chop_line [of "''fg '' @ show_int n"] by simp_all
  have at: "atoi (show_int n) = Inr n" using assms by (intro atoi_show_int) auto
  have id: "job_id11 (c @ show_int n) s = Inr (if 1 \<le> n \<and> n \<le> int (count11 s) then Some (nat (n - 1)) else None)"
    if "length c = 3" for c
    using that assms(2) at by (auto simp: job_id11_def)
  have b: "line11 a (''bg '' @ show_int n @ nl) s = Inr (Some (if 1 \<le> n \<and> n \<le> int (count11 s)
      then continue_in_background11 (nat (n - 1)) s else (s, invalid_id)))"
    unfolding line11_def lb Let_def using id [of "''bg ''"] by (simp add: strncmp_eq_def)
  have f: "line11 a1 (''fg '' @ show_int n @ nl) s = Inr (Some (if 1 \<le> n \<and> n \<le> int (count11 s)
      then bring_to_foreground11 a1 (nat (n - 1)) s else (s, invalid_id)))" for a1
    unfolding line11_def lf Let_def using id [of "''fg ''"] by (simp add: strncmp_eq_def)
  show ?thesis
  proof (cases "1 \<le> n \<and> n \<le> int (count11 s)")
    case True
    then have "nat (n - 1) < count11 s" by auto
    note e = set_state11_effect [OF assms(1) this, of RUNNING]
    show ?thesis
      using True e unfolding b f
      by (auto simp: continue_in_background11_def bring_to_foreground11_def Let_def)
  next
    case False
    show ?thesis unfolding b f if_not_P [OF False] by simp
  qed
qed

theorem job_commands11_witness:
  "\<exists>s' out. line11 \<lparr>fork11 = 0, early11 = [], during11 = []\<rparr> (''bg 1'' @ nl) demo11 = Inr (Some (s', out))
     \<and> kills out = [(- 7, SIGCONT)]
     \<and> line11 \<lparr>fork11 = 0, early11 = [], during11 = []\<rparr> (''fg 2'' @ nl) demo11 = Inr (Some (demo11, invalid_id))"
proof -
  have n: "int_min < 1 \<and> (1::int) \<le> int_max \<and> int_min < 2 \<and> (2::int) \<le> int_max" by (simp add: int_min_def int_max_def)
  have sh: "show_int 1 = ''1''" "show_int 2 = ''2''"
    by code_simp+
  show ?thesis
    using job_commands11 [OF demo11_wf, of 1 "\<lparr>fork11 = 0, early11 = [], during11 = []\<rparr>"]
      job_commands11 [OF demo11_wf, of 2 "\<lparr>fork11 = 0, early11 = [], during11 = []\<rparr>"] n demo11_state
    by (auto simp: sh)
qed



end
