(* ===== verification/Jobs07.thy ===== *)
theory Jobs07
  imports Shell_Parse Interfaces
begin

text \<open>
  \<^verbatim>\<open>01_processes/lab07_bg_jobs/src/main.c\<close>: the shell with twenty job slots that are reused. The handler
  of \<^verbatim>\<open>SIGCHLD\<close> looks a pid up among all slots, in use or not. \<open>early07\<close> are the pids it collects between
  \<^verbatim>\<open>fork\<close> and \<^verbatim>\<open>add_job\<close>, \<open>during07\<close> those during a foreground wait; at the prompt it is the event \<open>Chld07\<close>.
\<close>

section \<open>The model\<close>

record job07 =
  pid07 :: int
  cmd07 :: string
  active07 :: bool

definition MAX_JOBS07 :: nat where "MAX_JOBS07 = 20"

type_synonym slots = "job07 list"

definition reap07 :: "int \<Rightarrow> slots \<Rightarrow> slots \<times> sys list" where
  "reap07 pid js =
     (case find_first (\<lambda>j. pid07 j = pid) js MAX_JOBS07 of
        None \<Rightarrow> (js, [])
      | Some i \<Rightarrow>
          (js[i := (js ! i)\<lparr>active07 := False\<rparr>],
           [Print (nl @ ''[BG DONE] PID '' @ show_int pid @ '' ('' @ cstr (cmd07 (js ! i)) @ '')'' @ nl), Flush]))"

fun sigchld07 :: "int list \<Rightarrow> slots \<Rightarrow> slots \<times> sys list" where
  "sigchld07 [] js = (js, [])"
| "sigchld07 (pid # rs) js =
     (case reap07 pid js of (js1, o1) \<Rightarrow> case sigchld07 rs js1 of (js2, o2) \<Rightarrow> (js2, o1 @ o2))"

definition add_job07 :: "int \<Rightarrow> string \<Rightarrow> slots \<Rightarrow> slots \<times> sys list" where
  "add_job07 pid cmd js =
     (case find_first (\<lambda>j. \<not> active07 j) js MAX_JOBS07 of
        None \<Rightarrow> (js, [Eprint (''Job list full!'' @ nl)])
      | Some i \<Rightarrow>
          (js[i := \<lparr>pid07 = pid, cmd07 = strncpy (cmd07 (js ! i)) cmd 256, active07 = True\<rparr>], []))"

text \<open>The dash of the listing is the three bytes of the source's UTF-8 literal.\<close>

definition list_jobs07 :: "slots \<Rightarrow> sys list" where
  "list_jobs07 js =
     Print (''Active background jobs:'' @ nl)
     # map (\<lambda>i. Print (''['' @ show_int (int i) @ ''] PID '' @ show_int (pid07 (js ! i)) @ '' ''
                        @ [CHR 0xE2, CHR 0x80, CHR 0x94] @ '' '' @ cstr (cmd07 (js ! i)) @ nl))
         (filter (\<lambda>i. active07 (js ! i)) [0..<MAX_JOBS07])"

record sh07 =
  slots07 :: slots
  args07 :: "string option list"

record ans07 =
  fork07 :: int
  early07 :: "int list"
  during07 :: "int list"

text \<open>
  \<open>None\<close> when the line ends the shell. \<^verbatim>\<open>add_job(pid, line)\<close> gets the line after \<^verbatim>\<open>strtok\<close> has been
  through it.
\<close>

definition line07 :: "ans07 \<Rightarrow> string \<Rightarrow> sh07 \<Rightarrow> (sh07 \<times> sys list) option res" where
  "line07 a line s =
     (if strncmp_eq line ''exit'' 4 then Inr None
      else if strncmp_eq line ''jobs'' 4 then Inr (Some (s, list_jobs07 (slots07 s)))
      else bindR (parse_command07 line (args07 s)) (\<lambda>(args', bg).
        let s1 = s\<lparr>args07 := args'\<rparr>
        in Inr (Some (
             if args' ! 0 = None then (s1, [])
             else if fork07 a < 0 then (s1, [Fork, Perror ''fork''])
             else let child = Spawn [Exec (argv args'), Perror ''execvp'', Exit 1]
               in if bg
                  then case sigchld07 (early07 a) (slots07 s) of (js1, o1) \<Rightarrow>
                       case add_job07 (fork07 a) (strtok_buffer blanks line) js1 of (js2, o2) \<Rightarrow>
                         (s1\<lparr>slots07 := js2\<rparr>, [child] @ o1 @ o2
                            @ [Print (''[BG START] PID '' @ show_int (fork07 a) @ '' running in background.'' @ nl)])
                  else case sigchld07 (during07 a) (slots07 s) of (js1, o1) \<Rightarrow>
                         (s1\<lparr>slots07 := js1\<rparr>, [child, Wait (fork07 a)] @ o1)))))"

datatype ev07 = Line07 ans07 string | Chld07 "int list"

fun step07 :: "sh07 \<Rightarrow> ev07 \<Rightarrow> (sh07 \<times> sys list) res" where
  "step07 s (Chld07 rs) = (case sigchld07 rs (slots07 s) of (js, out) \<Rightarrow> Inr (s\<lparr>slots07 := js\<rparr>, out))"
| "step07 s (Line07 a input) =
     bindR (line07 a (cstr input) s) (\<lambda>r. Inr (case r of
       None \<Rightarrow> (s, [Print (''Exiting background job shell.'' @ nl)])
     | Some (s', out) \<Rightarrow> (s', out @ [Print ''bg-shell> '', Flush])))"

definition start07 :: "string option list \<Rightarrow> sh07 \<times> sys list" where
  "start07 args =
     (\<lparr>slots07 = replicate MAX_JOBS07 \<lparr>pid07 = 0, cmd07 = replicate 256 NUL, active07 = False\<rparr>, args07 = args\<rparr>,
      [Sigaction 17,
       Print (''=== '' @ [CHR 0xF0, CHR 0x9F, CHR 0xA7, CHR 0xAA] @ '' Lab 07: Background Processes & Job Control ==='' @ nl),
       Print (''Use '' @ [CHR 0x27] @ ''&'' @ [CHR 0x27] @ '' to run in background, '' @ [CHR 0x27] @ ''jobs'' @ [CHR 0x27]
         @ '' to list active jobs.'' @ nl @ nl),
       Print ''bg-shell> '', Flush])"

section \<open>Slots\<close>

definition active_pids :: "slots \<Rightarrow> int multiset" where
  "active_pids js = mset (map pid07 (filter active07 js))"

lemma active_pids_mset: "active_pids js = image_mset pid07 (filter_mset active07 (mset js))"
  by (simp add: active_pids_def)

lemma active_pids_update:
  assumes "i < length js"
  shows "active_pids (js[i := j])
     = active_pids js - (if active07 (js ! i) then {#pid07 (js ! i)#} else {#}) + (if active07 j then {#pid07 j#} else {#})"
proof -
  from assms have "js ! i \<in># mset js" by simp
  then obtain M where M: "mset js = add_mset (js ! i) M" by (metis mset_add)
  with assms have "mset (js[i := j]) = add_mset j M" by (simp add: mset_update)
  with M show ?thesis by (simp add: active_pids_mset)
qed

lemma size_active_pids: "size (active_pids js) = length (filter active07 js)"
  unfolding active_pids_def by (simp only: size_mset length_map)

lemma add_job07_effect:
  assumes "length js = MAX_JOBS07" and "add_job07 pid cmd js = (js', out)"
  shows "length js' = MAX_JOBS07 \<and>
    (if size (active_pids js) < MAX_JOBS07
     then active_pids js' = add_mset pid (active_pids js) \<and> out = []
     else js' = js \<and> out = [Eprint (''Job list full!'' @ nl)])"
proof (cases "find_first (\<lambda>j. \<not> active07 j) js MAX_JOBS07")
  case None
  then have "\<forall>j \<in> set js. active07 j"
    using assms(1) find_first_None_live [of MAX_JOBS07 js "\<lambda>j. \<not> active07 j"] by (simp add: live_def)
  then have "filter active07 js = js" by (simp add: filter_id_conv)
  then have "size (active_pids js) = MAX_JOBS07" using assms(1) by (simp only: size_active_pids)
  with None assms show ?thesis by (simp add: add_job07_def)
next
  case (Some i)
  from find_first_Some [OF this] have i: "i < length js" "\<not> active07 (js ! i)" using assms(1) by auto
  have "length (filter active07 js) < length js"
    using i by (auto intro!: length_filter_less)
  then have "size (active_pids js) < MAX_JOBS07" using assms(1) by (simp only: size_active_pids)
  with Some assms i show ?thesis
    by (auto simp: add_job07_def active_pids_update)
qed

text \<open>
  A report finds the right slot only when no other slot, even a free one, still carries the pid.
\<close>

definition unique07 :: "slots \<Rightarrow> int \<Rightarrow> bool" where
  "unique07 js p \<longleftrightarrow> (\<forall>i < length js. \<forall>k < length js. pid07 (js ! i) = p \<longrightarrow> active07 (js ! k) \<longrightarrow> pid07 (js ! k) = p \<longrightarrow> i = k)"

lemma reap07_effect:
  assumes "length js = MAX_JOBS07" and "reap07 p js = (js', out)"
  shows "length js' = MAX_JOBS07 \<and> (unique07 js p \<longrightarrow> active_pids js' = active_pids js - {#p#})
    \<and> (\<forall>i < length js. pid07 (js ! i) \<noteq> p \<longrightarrow> js' ! i = js ! i)"
proof (cases "find_first (\<lambda>j. pid07 j = p) js MAX_JOBS07")
  case None
  then have "\<forall>j \<in> set js. pid07 j \<noteq> p"
    using assms(1) find_first_None_live [of MAX_JOBS07 js "\<lambda>j. pid07 j = p"] by (simp add: live_def)
  then have "p \<notin># active_pids js" by (auto simp: active_pids_def)
  with None assms show ?thesis by (simp add: reap07_def diff_single_trivial)
next
  case (Some i)
  from find_first_Some [OF this] have i: "i < length js" "pid07 (js ! i) = p" using assms(1) by auto
  have js': "js' = js[i := (js ! i)\<lparr>active07 := False\<rparr>]" using Some assms(2) by (simp add: reap07_def)
  have "active_pids js' = active_pids js - {#p#}" if u: "unique07 js p"
  proof (cases "active07 (js ! i)")
    case True
    then show ?thesis using i by (simp add: js' active_pids_update)
  next
    case False
    have "p \<notin># active_pids js"
    proof
      assume "p \<in># active_pids js"
      then obtain k where "k < length js" "active07 (js ! k)" "pid07 (js ! k) = p"
        by (auto simp: active_pids_def in_set_conv_nth)
      with u i have "i = k" by (simp add: unique07_def)
      with False \<open>active07 (js ! k)\<close> show False by simp
    qed
    with False i show ?thesis by (simp add: js' active_pids_update diff_single_trivial)
  qed
  with i assms show ?thesis by (auto simp: js' nth_list_update)
qed

section \<open>Jobs nobody reports\<close>

definition alive07 :: "sh07 \<Rightarrow> int \<Rightarrow> bool" where
  "alive07 s p \<longleftrightarrow> (\<exists>i < MAX_JOBS07. pid07 (slots07 s ! i) = p \<and> active07 (slots07 s ! i))"

fun reported07 :: "ev07 \<Rightarrow> int set" where
  "reported07 (Chld07 rs) = set rs"
| "reported07 (Line07 a input) = set (early07 a) \<union> set (during07 a)"

definition size_ok07 :: "sh07 \<Rightarrow> bool" where
  "size_ok07 s \<longleftrightarrow> length (slots07 s) = MAX_JOBS07"

definition has07 :: "slots \<Rightarrow> int \<Rightarrow> bool" where
  "has07 js p \<longleftrightarrow> (\<exists>i < MAX_JOBS07. pid07 (js ! i) = p \<and> active07 (js ! i))"

lemma sigchld07_keep:
  "length js = MAX_JOBS07 \<Longrightarrow> sigchld07 rs js = (js', out) \<Longrightarrow>
     length js' = MAX_JOBS07 \<and> (has07 js p \<longrightarrow> p \<notin> set rs \<longrightarrow> has07 js' p)"
proof (induction rs arbitrary: js out)
  case Nil
  then show ?case by simp
next
  case (Cons q rs)
  obtain js1 o1 where s1: "reap07 q js = (js1, o1)" by fastforce
  then obtain o2 where s2: "sigchld07 rs js1 = (js', o2)" using Cons.prems(2) by (auto split: prod.splits)
  note e = reap07_effect [OF Cons.prems(1) s1]
  then have "has07 js p \<longrightarrow> q \<noteq> p \<longrightarrow> has07 js1 p"
    using Cons.prems(1) unfolding has07_def by (metis)
  moreover have "length js1 = MAX_JOBS07" using e by blast
  ultimately show ?case using Cons.IH [OF _ s2] by auto
qed

lemma add_job07_keep:
  assumes "length js = MAX_JOBS07" and "add_job07 pid cmd js = (js', out)"
  shows "length js' = MAX_JOBS07 \<and> (has07 js p \<longrightarrow> has07 js' p)"
proof (cases "find_first (\<lambda>j. \<not> active07 j) js MAX_JOBS07")
  case None
  with assms show ?thesis by (simp add: add_job07_def)
next
  case (Some i)
  from find_first_Some [OF this] have free: "\<not> active07 (js ! i)" by blast
  let ?j = "\<lparr>pid07 = pid, cmd07 = strncpy (cmd07 (js ! i)) cmd 256, active07 = True\<rparr>"
  have js': "js' = js[i := ?j]" using Some assms(2) by (simp add: add_job07_def)
  have "js' ! k = js ! k" if "active07 (js ! k)" for k using free that by (cases "k = i") (auto simp: js')
  then have "has07 js p \<longrightarrow> has07 js' p" unfolding has07_def by metis
  with assms(1) js' show ?thesis by simp
qed

interpretation jobs07: job_shell step07 alive07 reported07 size_ok07
proof
  fix s s' e out p
  assume inv: "size_ok07 s" and st: "step07 s e = Inr (s', out)"
  have len: "length (slots07 s) = MAX_JOBS07" using inv by (simp add: size_ok07_def)
  have "length (slots07 s') = MAX_JOBS07 \<and> (has07 (slots07 s) p \<longrightarrow> p \<notin> reported07 e \<longrightarrow> has07 (slots07 s') p)" for p
  proof (cases e)
    case (Chld07 rs)
    then show ?thesis using st sigchld07_keep [OF len, of rs "slots07 s'" _ p] by (auto split: prod.splits)
  next
    case (Line07 a input)
    obtain js1 o1 where s1: "sigchld07 (early07 a) (slots07 s) = (js1, o1)" by fastforce
    obtain js2 o2 where s2: "add_job07 (fork07 a) (strtok_buffer blanks (cstr input)) js1 = (js2, o2)" by fastforce
    obtain js3 o3 where s3: "sigchld07 (during07 a) (slots07 s) = (js3, o3)" by fastforce
    note k1 = sigchld07_keep [OF len s1, of p] and k3 = sigchld07_keep [OF len s3, of p]
    then have "length js1 = MAX_JOBS07" by blast
    note k2 = add_job07_keep [OF this s2, of p]
    have "slots07 s' \<in> {slots07 s, js2, js3}"
      using st Line07 s1 s2 s3
      by (auto simp: line07_def Let_def bindR_eq_Inr split: if_splits option.splits)
    then show ?thesis using k1 k2 k3 len Line07 by auto
  qed
  then show "size_ok07 s'" and "p \<notin> reported07 e \<Longrightarrow> alive07 s p \<Longrightarrow> alive07 s' p"
    by (simp_all add: size_ok07_def alive07_def has07_def)
qed

section \<open>Properties\<close>

text \<open>
  Exactly when the handler of lab 07 takes a finished process off the job list: the list of
  running jobs loses that pid and nothing else if and only if the first slot that carries the pid is
  in use. A free slot keeps its old pid, so a job whose pid the kernel hands out again behind such a
  slot is never taken off.
\<close>

theorem reap07_exact:
  assumes "length js = MAX_JOBS07"
  shows "active_pids (fst (reap07 p js)) = active_pids js - {#p#} \<longleftrightarrow>
    (p \<in># active_pids js \<longrightarrow>
      (\<exists>i < MAX_JOBS07. pid07 (js ! i) = p \<and> active07 (js ! i) \<and> (\<forall>k < i. pid07 (js ! k) \<noteq> p)))"
proof (cases "find_first (\<lambda>j. pid07 j = p) js MAX_JOBS07")
  case None
  then have "\<forall>j \<in> set js. pid07 j \<noteq> p"
    using assms(1) find_first_None_live [of MAX_JOBS07 js "\<lambda>j. pid07 j = p"] by (simp add: live_def)
  then have "p \<notin># active_pids js" by (auto simp: active_pids_def)
  with None show ?thesis by (simp add: reap07_def diff_single_trivial)
next
  case (Some i)
  from find_first_Some [OF this] have i: "i < MAX_JOBS07" "pid07 (js ! i) = p" "\<forall>k < i. pid07 (js ! k) \<noteq> p" by auto
  let ?js = "js[i := (js ! i)\<lparr>active07 := False\<rparr>]"
  have r: "fst (reap07 p js) = ?js" using Some by (simp add: reap07_def)
  show ?thesis
  proof (cases "active07 (js ! i)")
    case True
    then have "active_pids ?js = active_pids js - {#p#}" using i assms by (simp add: active_pids_update)
    with True i r show ?thesis by auto
  next
    case False
    have first: "\<not> (\<exists>m < MAX_JOBS07. pid07 (js ! m) = p \<and> active07 (js ! m) \<and> (\<forall>k < m. pid07 (js ! k) \<noteq> p))"
      using i False by (metis linorder_neqE_nat)
    have same: "active_pids ?js = active_pids js" using i False assms by (simp add: active_pids_update)
    have "active_pids js = active_pids js - {#p#} \<longleftrightarrow> p \<notin># active_pids js"
      by (metis diff_single_trivial insert_DiffM multi_self_add_other_not_self)
    then show ?thesis unfolding r same using first by blast
  qed
qed

definition stale07 :: slots where
  "stale07 = \<lparr>pid07 = 7, cmd07 = replicate 256 NUL, active07 = False\<rparr>
     # \<lparr>pid07 = 7, cmd07 = replicate 256 NUL, active07 = True\<rparr>
     # replicate 18 \<lparr>pid07 = 0, cmd07 = replicate 256 NUL, active07 = False\<rparr>"

theorem reap07_exact_witness:
  "active_pids stale07 = {#7#} \<and> active_pids (fst (reap07 7 stale07)) \<noteq> {#}"
proof -
  have len: "length stale07 = MAX_JOBS07" by (simp add: stale07_def MAX_JOBS07_def)
  have a: "active_pids stale07 = {#7#}" by (simp add: active_pids_def stale07_def)
  have s0: "pid07 (stale07 ! 0) = 7" "\<not> active07 (stale07 ! 0)" by (simp_all add: stale07_def)
  have "\<not> (\<exists>i < MAX_JOBS07. pid07 (stale07 ! i) = 7 \<and> active07 (stale07 ! i) \<and> (\<forall>k < i. pid07 (stale07 ! k) \<noteq> 7))"
    using s0 by (metis bot_nat_0.not_eq_extremum)
  with reap07_exact [OF len, of 7] a show ?thesis by simp
qed

lemma cstr_take_pad: "NUL \<notin> set t \<Longrightarrow> length t < n \<Longrightarrow> cstr (take n (t @ replicate n NUL) @ r) = t"
proof -
  assume nul: "NUL \<notin> set t" and len: "length t < n"
  then have "take n (t @ replicate n NUL) @ r = t @ NUL # (replicate (n - length t - 1) NUL @ r)"
    by (cases "n - length t") auto
  with nul show ?thesis by (simp add: cstr_terminated)
qed

text \<open>
  A background line of lab 07 starts the words before its \<^verbatim>\<open>&\<close> and, while a slot is free, adds
  exactly the child's pid to the running jobs; with all twenty slots in use it is reported as not
  entered. The command recorded for the listing is the text of the line up to its first word,
  because \<^verbatim>\<open>strtok\<close> has cut the line there.
\<close>

theorem background07:
  assumes "size_ok07 s" and "length (args07 s) = 20" and "words blanks line = ws @ ''&'' # rest"
    and "ws \<noteq> []" and "length ws < 19" and "''&'' \<notin> set ws" and "0 < fork07 a" and "early07 a = []"
    and "\<not> strncmp_eq line ''exit'' 4" and "\<not> strncmp_eq line ''jobs'' 4"
    and "NUL \<notin> set line" and "length line < 256"
  shows "\<exists>s' out. line07 a line s = Inr (Some (s', out)) \<and> size_ok07 s'
    \<and> hd out = Spawn [Exec ws, Perror ''execvp'', Exit 1]
    \<and> (if size (active_pids (slots07 s)) < MAX_JOBS07
       then active_pids (slots07 s') = add_mset (fork07 a) (active_pids (slots07 s))
         \<and> (\<exists>i < MAX_JOBS07. pid07 (slots07 s' ! i) = fork07 a \<and> active07 (slots07 s' ! i)
               \<and> cstr (cmd07 (slots07 s' ! i)) = takeWhile (\<lambda>c. c \<in> set blanks) line @ hd ws)
       else slots07 s' = slots07 s \<and> Eprint (''Job list full!'' @ nl) \<in> set out)"
proof -
  let ?ws = "takeWhile (\<lambda>w. w \<noteq> ''&'') (take 19 (words blanks line))"
  have tk: "take 19 (words blanks line) = ws @ ''&'' # take (18 - length ws) rest"
    using assms(3,5) by (simp add: take_Cons')
  have "takeWhile (\<lambda>w. w \<noteq> ''&'') (ws @ ''&'' # take (18 - length ws) rest) = ws"
    using assms(6) by (intro takeWhile_stop) auto
  then have ws: "?ws = ws" by (simp only: tk)
  have c: "collect07 19 (args07 s) 0 (next_tok blanks line)
      = Inr (map Some ws @ drop (length ws) (args07 s), length ws, True)"
    using collect07_words [of 19 "args07 s" 0 line] assms(2) ws tk by (simp add: Let_def)
  let ?args = "map Some ws @ None # drop (Suc (length ws)) (args07 s)"
  have p: "parse_command07 line (args07 s) = Inr (?args, True)"
    using c list_update_mid [of "map Some ws" "length ws" "args07 s" None] assms(2,5)
    by (simp add: parse_command07_def arr_set_def MAX_ARGS07_def)
  have hd: "?args ! 0 \<noteq> None" using assms(4) by (cases ws) auto
  obtain js out1 where add: "add_job07 (fork07 a) (strtok_buffer blanks line) (slots07 s) = (js, out1)" by fastforce
  have len: "length (slots07 s) = MAX_JOBS07" using assms(1) by (simp add: size_ok07_def)
  note e = add_job07_effect [OF len add]
  obtain out where l: "line07 a line s = Inr (Some (s\<lparr>args07 := ?args, slots07 := js\<rparr>, out))"
    and out: "out = [Spawn [Exec ws, Perror ''execvp'', Exit 1]] @ out1
        @ [Print (''[BG START] PID '' @ show_int (fork07 a) @ '' running in background.'' @ nl)]"
    using assms(7-10) p hd add by (simp add: line07_def)
  obtain w r where tok: "strtok blanks line = Some (w, r)"
    using assms(3) strtok_None [of blanks line] by (cases "strtok blanks line") auto
  have w: "w = hd ws" using strtok_Some [OF tok] assms(3,4) by (cases ws) auto
  have buf: "strtok_buffer blanks line = takeWhile (\<lambda>c. c \<in> set blanks) line @ hd ws"
    using tok w by (auto simp: strtok_buffer_def strtok_def Let_def split: if_splits)
  have "set (strtok_buffer blanks line) \<subseteq> set line" "length (strtok_buffer blanks line) \<le> length line"
    using strtok_buffer_le by auto
  then have cs: "cstr (take 256 (strtok_buffer blanks line @ replicate 256 NUL) @ x) = strtok_buffer blanks line" for x
    using assms(11,12) by (intro cstr_take_pad) auto
  have slot: "\<exists>i < MAX_JOBS07. pid07 (js ! i) = fork07 a \<and> active07 (js ! i) \<and> cstr (cmd07 (js ! i)) = strtok_buffer blanks line"
    if "js \<noteq> slots07 s \<or> out1 = []"
  proof (cases "find_first (\<lambda>j. \<not> active07 j) (slots07 s) MAX_JOBS07")
    case None
    with that add show ?thesis by (auto simp: add_job07_def)
  next
    case (Some i)
    with find_first_Some [OF Some] add len cs show ?thesis
      by (auto simp: add_job07_def strncpy_def intro!: exI [of _ i])
  qed
  show ?thesis
    using l out e slot by (auto simp: buf size_ok07_def)
qed

theorem background07_witness:
  "\<exists>s' out. line07 \<lparr>fork07 = 7, early07 = [], during07 = []\<rparr> (''sleep 9 &'' @ nl) (fst (start07 (replicate 20 None)))
      = Inr (Some (s', out))
     \<and> active_pids (slots07 s') = {#7#} \<and> (\<exists>i < MAX_JOBS07. cstr (cmd07 (slots07 s' ! i)) = ''sleep'')"
proof -
  let ?s = "fst (start07 (replicate 20 None))" and ?a = "\<lparr>fork07 = 7, early07 = [], during07 = []\<rparr>"
  have w: "words blanks (''sleep 9 &'' @ nl) = [''sleep'', ''9''] @ ''&'' # []"
    by (simp add: words_def blanks_def nl_def)
  have sz: "size_ok07 ?s" "length (args07 ?s) = 20" "active_pids (slots07 ?s) = {#}"
    by (simp_all add: start07_def size_ok07_def active_pids_def)
  show ?thesis
    using background07 [OF sz(1,2) w, of ?a] sz(3)
    by (auto simp: strncmp_eq_def nl_def MAX_JOBS07_def blanks_def)
qed

end
