(* ===== verification/Jobs10.thy ===== *)
theory Jobs10
  imports Shell_Parse Counted_Table
begin

text \<open>
  \<^verbatim>\<open>01_processes/lab10_mini_shell/src/main.c\<close>: the shell with a table of 32 background jobs that only
  grows. As in lab 11, the answers of a line carry the pids the handler of \<^verbatim>\<open>SIGCHLD\<close> collects before
  the job is entered (\<open>early10\<close>) and during a foreground wait (\<open>during10\<close>); at the prompt the handler is
  the event \<open>Chld10\<close>.
\<close>

section \<open>The model\<close>

record job10 =
  pid10 :: int
  cmd10 :: string
  running10 :: bool

record sh10 =
  jobs10 :: "job10 list"
  count10 :: nat
  pgid10 :: int

definition MAX_JOBS10 :: nat where "MAX_JOBS10 = 32"

definition sigchld_one10 :: "int \<Rightarrow> sh10 \<Rightarrow> sh10 \<times> sys list" where
  "sigchld_one10 pid s =
     (case find_first (\<lambda>j. pid10 j = pid) (jobs10 s) (count10 s) of
        None \<Rightarrow> (s, [])
      | Some i \<Rightarrow>
          (s\<lparr>jobs10 := (jobs10 s)[i := (jobs10 s ! i)\<lparr>running10 := False\<rparr>]\<rparr>,
           [Print (nl @ ''[+] Job done: '' @ cstr (cmd10 (jobs10 s ! i)) @ '' (PID='' @ show_int pid @ '')'' @ nl), Flush]))"

fun sigchld10 :: "int list \<Rightarrow> sh10 \<Rightarrow> sh10 \<times> sys list" where
  "sigchld10 [] s = (s, [])"
| "sigchld10 (pid # rs) s =
     (case sigchld_one10 pid s of (s1, o1) \<Rightarrow> case sigchld10 rs s1 of (s2, o2) \<Rightarrow> (s2, o1 @ o2))"

text \<open>\<^verbatim>\<open>strncpy(cmd, c, 127); cmd[127] = '\0'\<close>, both within the field of 128 bytes.\<close>

definition add_job10 :: "int \<Rightarrow> string \<Rightarrow> sh10 \<Rightarrow> sh10" where
  "add_job10 pid cmd s =
     (if count10 s < MAX_JOBS10
      then s\<lparr>jobs10 := (jobs10 s)[count10 s :=
               \<lparr>pid10 = pid, cmd10 = (strncpy (cmd10 (jobs10 s ! count10 s)) cmd 127)[127 := NUL], running10 = True\<rparr>],
             count10 := count10 s + 1\<rparr>
      else s)"

definition list_jobs10 :: "sh10 \<Rightarrow> sys list" where
  "list_jobs10 s =
     Print (''Active jobs:'' @ nl)
     # map (\<lambda>i. Print (''['' @ show_int (int i + 1) @ ''] PID='' @ show_int (pid10 (jobs10 s ! i)) @ '' ''
                        @ cstr (cmd10 (jobs10 s ! i)) @ nl))
         (filter (\<lambda>i. running10 (jobs10 s ! i)) [0..<count10 s])"

record ans10 =
  fork10 :: int
  early10 :: "int list"
  during10 :: "int list"

definition child10 :: "int \<Rightarrow> string \<Rightarrow> bool \<Rightarrow> sys list" where
  "child10 self cmd background =
     [Setpgid 0 0] @ (if background then [] else [Tcsetpgrp self])
     @ [Exec [''sh'', ''-c'', cmd], Perror ''exec failed'', Exit 1]"

definition execute10 :: "ans10 \<Rightarrow> string \<Rightarrow> sh10 \<Rightarrow> (sh10 \<times> sys list) res" where
  "execute10 a line s =
     bindR (background_mark line) (\<lambda>(cmd, background).
       if fork10 a < 0 then Inr (s, [Fork, Perror ''fork''])
       else
         let pid = fork10 a; o1 = [Spawn (child10 pid cmd background), Setpgid pid pid]
         in if background
            then case sigchld10 (early10 a) s of (s0, o0) \<Rightarrow>
              Inr (add_job10 pid cmd s0,
                   o1 @ o0 @ [Print (''[BG] Started '' @ [CHR 0x27] @ cmd @ [CHR 0x27] @ '' (PID='' @ show_int pid @ '')'' @ nl)])
            else case sigchld10 (during10 a) s of (s1, o2) \<Rightarrow>
              Inr (s1, o1 @ [Tcsetpgrp pid, Wait pid] @ o2 @ [Tcsetpgrp (pgid10 s)]))"

definition line10 :: "ans10 \<Rightarrow> string \<Rightarrow> sh10 \<Rightarrow> (sh10 \<times> sys list) option res" where
  "line10 a input s =
     (let line = chop nl (cstr input)
      in if line = [] then Inr (Some (s, []))
         else if line = ''exit'' then Inr None
         else if line = ''jobs'' then Inr (Some (s, list_jobs10 s))
         else bindR (execute10 a line s) (\<lambda>r. Inr (Some r)))"

datatype ev10 = Line10 ans10 string | Chld10 "int list"

fun step10 :: "sh10 \<Rightarrow> ev10 \<Rightarrow> (sh10 \<times> sys list) res" where
  "step10 s (Chld10 rs) = Inr (sigchld10 rs s)"
| "step10 s (Line10 a input) =
     bindR (line10 a input s) (\<lambda>r. Inr (case r of
       None \<Rightarrow> (s, [Print (''MiniShell exiting...'' @ nl)])
     | Some (s', out) \<Rightarrow> (s', out @ [Print ''mini-shell> '', Flush])))"

definition start10 :: "int \<Rightarrow> sh10 \<times> sys list" where
  "start10 self =
     (\<lparr>jobs10 = replicate MAX_JOBS10 \<lparr>pid10 = 0, cmd10 = replicate 128 NUL, running10 = False\<rparr>,
       count10 = 0, pgid10 = self\<rparr>,
      [Setpgid self self, Tcsetpgrp self, Sigaction 17,
       Print (''MiniShell started. Type commands or '' @ [CHR 0x27] @ ''exit'' @ [CHR 0x27] @ ''. Use '' @ [CHR 0x27]
         @ ''&'' @ [CHR 0x27] @ '' for background jobs.'' @ nl), Print ''mini-shell> '', Flush])"

section \<open>The running jobs\<close>

definition wf10 :: "sh10 \<Rightarrow> bool" where
  "wf10 s \<longleftrightarrow> tbl_inv pid10 MAX_JOBS10 (count10 s) (jobs10 s)"

definition live10 :: "sh10 \<Rightarrow> job10 list" where
  "live10 s = live (count10 s) (jobs10 s)"

definition running_pids :: "sh10 \<Rightarrow> int list" where
  "running_pids s = map pid10 (filter running10 (live10 s))"

lemma wf10_start: "wf10 (fst (start10 self)) \<and> running_pids (fst (start10 self)) = []"
  by (simp add: wf10_def start10_def running_pids_def live10_def)

lemma filter_mark:
  "distinct (map pid10 js) \<Longrightarrow> i < length js \<Longrightarrow>
     map pid10 (filter running10 (js[i := (js ! i)\<lparr>running10 := False\<rparr>]))
       = filter (\<lambda>p. p \<noteq> pid10 (js ! i)) (map pid10 (filter running10 js))"
proof (induction js arbitrary: i)
  case Nil
  then show ?case by simp
next
  case (Cons j js)
  show ?case
  proof (cases i)
    case 0
    have "\<forall>q \<in> set (map pid10 (filter running10 js)). q \<noteq> pid10 j" using Cons.prems by (fastforce simp: image_iff)
    then have "filter (\<lambda>p. p \<noteq> pid10 j) (map pid10 (filter running10 js)) = map pid10 (filter running10 js)"
      by (rule filter_True)
    with 0 show ?thesis by simp
  next
    case (Suc k)
    with Cons.prems have "pid10 j \<noteq> pid10 (js ! k)" by (auto simp: image_iff)
    with Cons Suc show ?thesis by simp
  qed
qed

lemma sigchld_one10_effect:
  assumes "wf10 s" and "sigchld_one10 p s = (s', out)"
  shows "wf10 s' \<and> running_pids s' = filter (\<lambda>q. q \<noteq> p) (running_pids s)
    \<and> map pid10 (live10 s') = map pid10 (live10 s) \<and> count10 s' = count10 s"
proof (cases "find_first (\<lambda>j. pid10 j = p) (jobs10 s) (count10 s)")
  case None
  then have "\<forall>j \<in> set (live10 s). pid10 j \<noteq> p"
    using find_first_None_live [of "count10 s" "jobs10 s" "\<lambda>j. pid10 j = p"] assms(1)
    by (auto simp: wf10_def live10_def)
  then have "\<forall>q \<in> set (running_pids s). q \<noteq> p" by (auto simp: running_pids_def)
  then have "filter (\<lambda>q. q \<noteq> p) (running_pids s) = running_pids s" by (rule filter_True)
  with None assms show ?thesis by (simp add: sigchld_one10_def)
next
  case (Some i)
  from find_first_Some [OF Some] have i: "i < count10 s" and p: "pid10 (jobs10 s ! i) = p" by auto
  have inv: "tbl_inv pid10 MAX_JOBS10 (count10 s) (jobs10 s)" using assms(1) by (simp add: wf10_def)
  then have len: "count10 s \<le> length (jobs10 s)" by auto
  let ?j = "(jobs10 s ! i)\<lparr>running10 := False\<rparr>"
  have s': "s' = s\<lparr>jobs10 := (jobs10 s)[i := ?j]\<rparr>" using Some assms(2) by (simp add: sigchld_one10_def)
  have lv: "live10 s' = (live10 s)[i := (live10 s ! i)\<lparr>running10 := False\<rparr>]"
    using i len by (simp add: s' live10_def live_update)
  have "map pid10 (live10 s') = map pid10 (live10 s)"
    using map_key_update [OF i len, of pid10 ?j] by (simp add: s' live10_def)
  moreover have "running_pids s' = filter (\<lambda>q. q \<noteq> p) (running_pids s)"
    unfolding running_pids_def lv using i len inv p
    by (subst filter_mark) (auto simp: live10_def tbl_inv_def)
  ultimately show ?thesis
    using tbl_inv_update [OF inv i, of ?j] by (simp add: s' wf10_def)
qed

lemma sigchld10_effect:
  "wf10 s \<Longrightarrow> sigchld10 rs s = (s', out) \<Longrightarrow>
     wf10 s' \<and> running_pids s' = filter (\<lambda>q. q \<notin> set rs) (running_pids s)
     \<and> map pid10 (live10 s') = map pid10 (live10 s) \<and> count10 s' = count10 s"
proof (induction rs arbitrary: s out)
  case Nil
  then show ?case by simp
next
  case (Cons p rs)
  obtain s1 o1 where s1: "sigchld_one10 p s = (s1, o1)" by fastforce
  then obtain o2 where s2: "sigchld10 rs s1 = (s', o2)" using Cons.prems(2) by (auto split: prod.splits)
  note e1 = sigchld_one10_effect [OF Cons.prems(1) s1]
  then have "wf10 s1" by blast
  note e2 = Cons.IH [OF this s2]
  with e1 show ?case by (simp add: conj_commute)
qed

lemma add_job10_effect:
  assumes "wf10 s" and "pid \<notin> set (map pid10 (live10 s))"
  shows "wf10 (add_job10 pid cmd s)
    \<and> running_pids (add_job10 pid cmd s) = running_pids s @ (if count10 s < MAX_JOBS10 then [pid] else [])
    \<and> count10 (add_job10 pid cmd s) = min MAX_JOBS10 (count10 s + 1)"
proof (cases "count10 s < MAX_JOBS10")
  case False
  then show ?thesis using assms(1) by (auto simp: add_job10_def wf10_def tbl_inv_def)
next
  case True
  have inv: "tbl_inv pid10 MAX_JOBS10 (count10 s) (jobs10 s)" using assms(1) by (simp add: wf10_def)
  let ?j = "\<lparr>pid10 = pid, cmd10 = (strncpy (cmd10 (jobs10 s ! count10 s)) cmd 127)[127 := NUL], running10 = True\<rparr>"
  have "tbl pid10 (count10 s) (jobs10 s) (pid10 ?j) = None" using assms(2) by (simp add: tbl_None live10_def)
  from tbl_inv_push [OF inv True this] True have "wf10 (add_job10 pid cmd s)"
    by (simp add: wf10_def add_job10_def)
  moreover have "live10 (add_job10 pid cmd s) = live10 s @ [?j]"
    using True inv by (simp add: add_job10_def live10_def tbl_inv_def)
  ultimately show ?thesis using True by (simp add: running_pids_def add_job10_def)
qed

section \<open>Properties\<close>

text \<open>What an event does to the list of running jobs.\<close>

definition abs_line10 :: "ans10 \<Rightarrow> string \<Rightarrow> nat \<Rightarrow> int list \<Rightarrow> int list" where
  "abs_line10 a line n running =
     (if line = [] \<or> line = ''exit'' \<or> line = ''jobs'' \<or> fork10 a < 0 then running
      else if last line = CHR ''&''
      then filter (\<lambda>p. p \<notin> set (early10 a)) running @ (if n < MAX_JOBS10 then [fork10 a] else [])
      else filter (\<lambda>p. p \<notin> set (during10 a)) running)"

fun abs_step10 :: "nat \<Rightarrow> int list \<Rightarrow> ev10 \<Rightarrow> int list" where
  "abs_step10 n running (Chld10 rs) = filter (\<lambda>p. p \<notin> set rs) running"
| "abs_step10 n running (Line10 a input) = abs_line10 a (chop nl (cstr input)) n running"

fun fresh10 :: "sh10 \<Rightarrow> ev10 \<Rightarrow> bool" where
  "fresh10 s (Chld10 rs) = True"
| "fresh10 s (Line10 a input) = (fork10 a \<notin> set (map pid10 (live10 s)))"

lemma background_mark_last: "line \<noteq> [] \<Longrightarrow>
    background_mark line = Inr (if last line = CHR ''&'' then (butlast line, True) else (line, False))"
  by (cases line rule: rev_cases) (auto simp: background_mark_append)

lemma line10_effect:
  assumes wf: "wf10 s" and fr: "fork10 a \<notin> set (map pid10 (live10 s))"
    and r: "line10 a input s = Inr (Some (s', out))"
  shows "wf10 s' \<and> running_pids s' = abs_line10 a (chop nl (cstr input)) (count10 s) (running_pids s)"
proof -
  let ?line = "chop nl (cstr input)"
  obtain s0 o0 where s0: "sigchld10 (early10 a) s = (s0, o0)" by fastforce
  obtain s1 o1 where s1: "sigchld10 (during10 a) s = (s1, o1)" by fastforce
  note e0 = sigchld10_effect [OF wf s0] and e1 = sigchld10_effect [OF wf s1]
  from e0 fr have "fork10 a \<notin> set (map pid10 (live10 s0))" by metis
  note add = add_job10_effect [OF conjunct1 [OF e0] this, of "butlast ?line"]
  show ?thesis
  proof (cases "?line = [] \<or> ?line = ''exit'' \<or> ?line = ''jobs''")
    case True
    with r wf show ?thesis by (auto simp: line10_def abs_line10_def Let_def)
  next
    case False
    then have "execute10 a ?line s = Inr (s', out)" using r by (auto simp: line10_def Let_def bindR_eq_Inr)
    with False e0 e1 add s0 s1 wf show ?thesis
      by (auto simp: execute10_def abs_line10_def background_mark_last Let_def split: if_splits)
  qed
qed



end
