(* ===== verification/Jobs12.thy ===== *)
theory Jobs12
  imports Shell_Pipes Jobs11
begin

text \<open>
  \<^verbatim>\<open>01_processes/lab12_pipelines/src/main.c\<close>: pipelines as jobs, one process group each. The state adds
  the descriptor table of the shell to the globals; reports of the handler carry what \<^verbatim>\<open>getpgid\<close>
  returns for the reported process. As in lab 11, the statuses the handler collects before the job
  is entered and during a foreground wait are answers of the line.
\<close>

section \<open>The model\<close>

record job12 =
  pgid12 :: int
  cmd12 :: string
  state12 :: job_state

record sh12 =
  jobs12 :: "job12 list"
  count12 :: nat
  shell12 :: int
  tab12 :: fdt

definition MAX_JOBS12 :: nat where "MAX_JOBS12 = 64"

definition find_job12 :: "sh12 \<Rightarrow> int \<Rightarrow> nat option" where
  "find_job12 s pgid = find_first (\<lambda>j. pgid12 j = pgid) (jobs12 s) (count12 s)"

definition add_job12 :: "int \<Rightarrow> string \<Rightarrow> job_state \<Rightarrow> sh12 \<Rightarrow> sh12" where
  "add_job12 pgid cmd st s =
     (if count12 s < MAX_JOBS12
      then s\<lparr>jobs12 := (jobs12 s)[count12 s :=
               \<lparr>pgid12 = pgid, cmd12 = strncpy (cmd12 (jobs12 s ! count12 s)) cmd 255, state12 = st\<rparr>],
             count12 := count12 s + 1\<rparr>
      else s)"

definition print_jobs12 :: "sh12 \<Rightarrow> sys list" where
  "print_jobs12 s =
     Print (nl @ pad 5 ''ID'' @ '' '' @ pad 8 ''PGID'' @ '' '' @ pad 10 ''STATE'' @ '' CMD'' @ nl)
     # map (\<lambda>i. Print (''['' @ show_int (int i + 1) @ ''] '' @ pad 8 (show_int (pgid12 (jobs12 s ! i))) @ '' ''
              @ pad 10 (state_name (state12 (jobs12 s ! i))) @ '' '' @ cstr (cmd12 (jobs12 s ! i)) @ nl))
         [0..<count12 s]"

definition set_state12 :: "nat \<Rightarrow> job_state \<Rightarrow> sh12 \<Rightarrow> sh12" where
  "set_state12 i st s = s\<lparr>jobs12 := (jobs12 s)[i := (jobs12 s ! i)\<lparr>state12 := st\<rparr>]\<rparr>"

text \<open>One round of the handler: a pid, its status, and the answer of \<^verbatim>\<open>getpgid\<close> for that pid.\<close>

type_synonym report = "int \<times> status \<times> int"

definition report12 :: "report \<Rightarrow> sh12 \<Rightarrow> sh12 \<times> sys list" where
  "report12 r s =
     (case r of (pid, st, pgid) \<Rightarrow>
        (case find_job12 s pgid of
           None \<Rightarrow> (s, [])
         | Some i \<Rightarrow>
             let about = (\<lambda>t. [Print (nl @ t @ cstr (cmd12 (jobs12 s ! i)) @ '' (PGID='' @ show_int pgid @ '')'' @ nl), Flush])
             in if WIFSTOPPED st then (set_state12 i STOPPED s, about ''[!] Job stopped: '')
                else if WIFCONTINUED st then (set_state12 i RUNNING s, about ''[+] Job continued: '')
                else if WIFEXITED st \<or> WIFSIGNALED st then (set_state12 i DONE s, about ''[x] Job done: '')
                else (s, [Flush])))"

fun sigchld12 :: "report list \<Rightarrow> sh12 \<Rightarrow> sh12 \<times> sys list" where
  "sigchld12 [] s = (s, [])"
| "sigchld12 (r # rs) s =
     (case report12 r s of (s1, o1) \<Rightarrow> case sigchld12 rs s1 of (s2, o2) \<Rightarrow> (s2, o1 @ o2))"

text \<open>
  The answers for one line; \<open>cells12\<close> and \<open>pairs12\<close> are what the local arrays \<^verbatim>\<open>commands\<close> and \<^verbatim>\<open>pipes\<close>
  hold at the start.
\<close>

record ans12 =
  forks12 :: "int list"
  early12 :: "report list"
  during12 :: "report list"
  cells12 :: "string option list"
  pairs12 :: "(nat \<times> nat) list"

type_synonym proc12 = "int \<times> fdt \<times> sys list"

definition bring_to_foreground12 :: "ans12 \<Rightarrow> nat \<Rightarrow> sh12 \<Rightarrow> sh12 \<times> sys list" where
  "bring_to_foreground12 a i s =
     (let pgid = pgid12 (jobs12 s ! i)
      in if state12 (jobs12 s ! i) = DONE
         then (s, [Print (''Job ['' @ show_int (int i + 1) @ ''] already finished'' @ nl)])
         else case sigchld12 (during12 a) (set_state12 i RUNNING s) of (s', out) \<Rightarrow>
           (s', [Tcsetpgrp pgid, Kill (- pgid) SIGCONT, Wait (- pgid)] @ out @ [Tcsetpgrp (shell12 s)]))"

definition continue_in_background12 :: "nat \<Rightarrow> sh12 \<Rightarrow> sh12 \<times> sys list" where
  "continue_in_background12 i s =
     (let pgid = pgid12 (jobs12 s ! i)
      in if state12 (jobs12 s ! i) = DONE
         then (s, [Print (''Job ['' @ show_int (int i + 1) @ ''] already finished'' @ nl)])
         else (set_state12 i RUNNING s,
           [Kill (- pgid) SIGCONT,
            Print (''[BG] Continued '' @ [CHR 0x27] @ cstr (cmd12 (jobs12 s ! i)) @ [CHR 0x27] @ '' (PGID=''
              @ show_int pgid @ '')'' @ nl)]))"

text \<open>The pipes, where a failing call leaves its pair as it was.\<close>

fun make_pipes12 :: "nat \<Rightarrow> (nat \<times> nat) list \<Rightarrow> fdt \<Rightarrow> (nat \<times> nat) list \<times> fdt" where
  "make_pipes12 k [] t = ([], t)"
| "make_pipes12 k (j # js) t =
     (case pipe_call k t of
        None \<Rightarrow> (case make_pipes12 (Suc k) js t of (ps, t2) \<Rightarrow> (j # ps, t2))
      | Some (p, t1) \<Rightarrow> (case make_pipes12 (Suc k) js t1 of (ps, t2) \<Rightarrow> (p # ps, t2)))"

text \<open>
  The child with pid \<open>r\<close>: it joins the group \<open>pgid\<close>, or leads its own when there is none yet.
\<close>

definition child12 :: "nat \<Rightarrow> nat \<Rightarrow> (nat \<times> nat) list \<Rightarrow> fdt \<Rightarrow> bool \<Rightarrow> int \<Rightarrow> int \<Rightarrow> string \<Rightarrow> proc12" where
  "child12 n i ps t background pgid r cmd =
     (r, connect n i ps t,
      [Setpgid 0 (if pgid \<noteq> 0 then pgid else r)] @ (if background then [] else [Tcsetpgrp r])
      @ [Exec [''sh'', ''-c'', cmd], Perror ''exec failed'', Exit 1])"

fun launch12 :: "string option list \<Rightarrow> nat \<Rightarrow> (nat \<times> nat) list \<Rightarrow> fdt \<Rightarrow> bool \<Rightarrow> nat \<Rightarrow> int \<Rightarrow> int list \<Rightarrow>
    proc12 act list \<times> int" where
  "launch12 cmds n ps t bg i pgid [] = ([], pgid)"
| "launch12 cmds n ps t bg i pgid (r # rs) =
     (if r < 0
      then (case launch12 cmds n ps t bg (Suc i) pgid rs of (out, g) \<Rightarrow> (Call Fork # out, g))
      else let pgid' = (if pgid = 0 then r else pgid)
           in case launch12 cmds n ps t bg (Suc i) pgid' rs of (out, g) \<Rightarrow>
             (Call Fork # Child (child12 n i ps t bg pgid r (the (cmds ! i))) # Call (Setpgid r pgid') # out, g))"

definition execute_pipeline12 :: "ans12 \<Rightarrow> string \<Rightarrow> bool \<Rightarrow> sh12 \<Rightarrow> (sh12 \<times> proc12 act list) res" where
  "execute_pipeline12 a cmdline background s =
     bindR (parse_pipeline12 cmdline (cells12 a)) (\<lambda>(cmds, n).
       let left = strtok_buffer ''|'' cmdline
       in case make_pipes12 0 (take (n - 1) (pairs12 a)) (tab12 s) of (ps, t1) \<Rightarrow>
          case launch12 cmds n ps t1 background 0 0 (take n (forks12 a)) of (o1, pgid) \<Rightarrow>
          case sigchld12 (early12 a) (s\<lparr>tab12 := close_all ps t1\<rparr>) of (s1, o2) \<Rightarrow>
            let s2 = add_job12 pgid left RUNNING s1
            in if background
               then Inr (s2, o1 @ map Call o2 @ [Call (Print (''[BG] Pipeline '' @ [CHR 0x27] @ left @ [CHR 0x27]
                      @ '' started (PGID='' @ show_int pgid @ '')'' @ nl))])
               else case sigchld12 (during12 a) s2 of (s3, o3) \<Rightarrow>
                 Inr (s3, o1 @ map Call o2 @ [Call (Tcsetpgrp pgid), Call (Wait (- pgid))] @ map Call o3
                          @ [Call (Tcsetpgrp (shell12 s))]))"

definition job_id12 :: "string \<Rightarrow> sh12 \<Rightarrow> nat option res" where
  "job_id12 line s =
     bindR (atoi (drop 3 line)) (\<lambda>v.
       if v = int_min then Inl Int_overflow
       else Inr (if 1 \<le> v \<and> v - 1 < int (count12 s) then Some (nat (v - 1)) else None))"

definition line12 :: "ans12 \<Rightarrow> string \<Rightarrow> sh12 \<Rightarrow> (sh12 \<times> proc12 act list) option res" where
  "line12 a input s =
     (let line = chop nl (cstr input); calls = (\<lambda>(s', out). (s', map Call out))
      in if line = [] then Inr (Some (s, []))
         else if line = ''exit'' then Inr None
         else if line = ''jobs'' then Inr (Some (s, map Call (print_jobs12 s)))
         else if strncmp_eq line ''fg '' 3 then
           bindR (job_id12 line s) (\<lambda>r. Inr (Some (calls (case r of
             Some i \<Rightarrow> bring_to_foreground12 a i s | None \<Rightarrow> (s, invalid_id)))))
         else if strncmp_eq line ''bg '' 3 then
           bindR (job_id12 line s) (\<lambda>r. Inr (Some (calls (case r of
             Some i \<Rightarrow> continue_in_background12 i s | None \<Rightarrow> (s, invalid_id)))))
         else bindR (background_mark line) (\<lambda>(cmd, background).
           bindR (execute_pipeline12 a cmd background s) (\<lambda>r. Inr (Some r))))"

datatype ev12 = Line12 ans12 string | Chld12 "report list"

fun step12 :: "sh12 \<Rightarrow> ev12 \<Rightarrow> (sh12 \<times> proc12 act list) res" where
  "step12 s (Chld12 rs) = (case sigchld12 rs s of (s', out) \<Rightarrow> Inr (s', map Call out))"
| "step12 s (Line12 a input) =
     bindR (line12 a input s) (\<lambda>r. Inr (case r of
       None \<Rightarrow> (s, [Call (Print (''MiniShell exiting...'' @ nl))])
     | Some (s', out) \<Rightarrow> (s', out @ [Call (Print ''mini-shell> ''), Call Flush])))"

definition start12 :: "int \<Rightarrow> fdt \<Rightarrow> sh12 \<times> sys list" where
  "start12 self t =
     (\<lparr>jobs12 = replicate MAX_JOBS12 \<lparr>pgid12 = 0, cmd12 = replicate 256 NUL, state12 = RUNNING\<rparr>,
       count12 = 0, shell12 = self, tab12 = t\<rparr>,
      [Setpgid self self, Tcsetpgrp self, Sigaction 17,
       Print (''MiniShell (Lab 12 '' @ [CHR 0xE2, CHR 0x80, CHR 0x93] @ '' Pipelines + Job Control)'' @ nl),
       Print ''mini-shell> '', Flush])"

section \<open>A pipeline is wired and grouped\<close>

lemma make_pipes12_all:
  "make_pipes k m t = Some (ps, t1) \<Longrightarrow> length js = m \<Longrightarrow> make_pipes12 k js t = (ps, t1)"
proof (induction k m t arbitrary: ps t1 js rule: make_pipes.induct)
  case (1 k t)
  then show ?case by simp
next
  case (2 k m t)
  then obtain p ta qs where p: "pipe_call k t = Some (p, ta)"
    and q: "make_pipes (Suc k) m ta = Some (qs, t1)" and ps: "ps = p # qs"
    by (auto split: option.splits)
  obtain j js' where js: "js = j # js'" "length js' = m" using "2.prems"(2) by (cases js) auto
  have "make_pipes12 (Suc k) js' ta = (qs, t1)" using "2.IH" [OF p] q js(2) by simp
  with p ps js show ?case by simp
qed

lemma launch12_tail:
  assumes "\<forall>r \<in> set rs. 0 < r" and "0 < g"
  shows "launch12 cmds n ps t bg i g rs =
     (concat (map (\<lambda>j. [Call Fork, Child (child12 n (i + j) ps t bg g (rs ! j) (the (cmds ! (i + j)))),
        Call (Setpgid (rs ! j) g)]) [0..<length rs]), g)"
  using assms
proof (induction rs arbitrary: i)
  case Nil
  then show ?case by simp
next
  case (Cons r rs)
  have "launch12 cmds n ps t bg (Suc i) g rs =
     (concat (map (\<lambda>j. [Call Fork, Child (child12 n (Suc i + j) ps t bg g (rs ! j) (the (cmds ! (Suc i + j)))),
        Call (Setpgid (rs ! j) g)]) [0..<length rs]), g)"
    using Cons.prems by (intro Cons.IH) auto
  with Cons.prems show ?case by (simp add: upt_0_Suc comp_def Let_def del: upt_Suc)
qed

lemma launch12_all:
  assumes "\<forall>r \<in> set rs. 0 < r" and "rs \<noteq> []"
  shows "\<exists>out. launch12 cmds n ps t bg 0 0 rs = (out, hd rs)
    \<and> children out = map (\<lambda>j. child12 n j ps t bg (hd rs) (rs ! j) (the (cmds ! j))) [0..<length rs]"
proof -
  obtain r rs' where rs: "rs = r # rs'" using assms(2) by (cases rs) auto
  have same: "child12 n 0 ps t bg 0 r c = child12 n 0 ps t bg r r c" for c
    by (simp add: child12_def)
  have up: "[0..<length rs] = 0 # map Suc [0..<length rs']"
    by (simp add: rs upt_0_Suc del: upt_Suc)
  have "launch12 cmds n ps t bg 1 r rs' =
     (concat (map (\<lambda>j. [Call Fork, Child (child12 n (1 + j) ps t bg r (rs' ! j) (the (cmds ! (1 + j)))),
        Call (Setpgid (rs' ! j) r)]) [0..<length rs']), r)"
    using assms(1) rs by (intro launch12_tail) auto
  then show ?thesis
    using assms(1) same unfolding up
    by (simp add: rs children_concat comp_def)
qed

lemma parse_pipeline12_cells:
  assumes "length cells = 8" and "length (words ''|'' line) \<le> 8"
  shows "\<exists>cmds. parse_pipeline12 line cells = Inr (cmds, length (words ''|'' line))
    \<and> take (length (words ''|'' line)) cmds = map Some (map trim_left (words ''|'' line))"
  using collect_trimmed_words [of 8 cells 0 line] assms
  by (simp add: parse_pipeline12_def MAX_CMDS12_def Let_def)

lemma map_Some_nth: "i < length ps \<Longrightarrow> take (length ps) cs = map Some (map f ps) \<Longrightarrow> the (cs ! i) = f (ps ! i)"
  by (metis length_map nth_map nth_take option.sel)

lemma sigchld12_tab [simp]: "sigchld12 rs s = (s', out) \<Longrightarrow> tab12 s' = tab12 s"
proof (induction rs arbitrary: s out)
  case Nil
  then show ?case by simp
next
  case (Cons r rs)
  obtain s1 o1 where s1: "report12 r s = (s1, o1)" by fastforce
  then have "tab12 s1 = tab12 s"
    by (auto simp: report12_def set_state12_def Let_def split: prod.splits option.splits if_splits)
  with Cons s1 show ?case by (auto split: prod.splits)
qed

lemma add_job12_tab [simp]: "tab12 (add_job12 g c st s) = tab12 s"
  by (simp add: add_job12_def)

lemma children_map_Call [simp]: "children (map Call xs) = []"
  by (induction xs) auto

text \<open>
  C16: a pipeline of lab 12 with at most eight pieces runs as one process group, led by its first
  child: every child enters that group, executes its trimmed piece through the shell with its standard
  input and output on its two pipes and no other pipe end, and the parent's own table is afterwards
  what it was.
\<close>

theorem pipeline12_wired:
  assumes "length (cells12 a) = 8" and "length (pairs12 a) = 7"
    and "words ''|'' cmdline \<noteq> []" and "length (words ''|'' cmdline) \<le> 8"
    and "length (forks12 a) = length (words ''|'' cmdline)" and "\<forall>r \<in> set (forks12 a). 0 < r"
    and "tab12 s 0 \<noteq> None" and "tab12 s 1 \<noteq> None" and "\<forall>e \<ge> 1000. tab12 s e = None"
    and "execute_pipeline12 a cmdline background s = Inr (s', out)"
  shows "tab12 s' = tab12 s \<and>
    (let ps = words ''|'' cmdline in
     children out = map (\<lambda>i. (forks12 a ! i, wired (length ps) i (tab12 s),
         [Setpgid 0 (hd (forks12 a))] @ (if background then [] else [Tcsetpgrp (forks12 a ! i)])
         @ [Exec [''sh'', ''-c'', trim_left (ps ! i)], Perror ''exec failed'', Exit 1])) [0..<length ps])"
proof -
  let ?ps = "words ''|'' cmdline" and ?t = "tab12 s" and ?rs = "forks12 a"
  let ?n = "length ?ps"
  obtain cmds where p: "parse_pipeline12 cmdline (cells12 a) = Inr (cmds, ?n)"
    and c: "take ?n cmds = map Some (map trim_left ?ps)"
    using parse_pipeline12_cells [OF assms(1,4)] by auto
  obtain es t1 where mk: "make_pipes 0 (?n - 1) ?t = Some (es, t1)"
  proof -
    have "1000 + 2 * (?n - 1) \<le> OPEN_MAX" using assms(4) by (simp add: OPEN_MAX_def)
    from make_pipes_succeeds [OF assms(9) this] that show ?thesis by blast
  qed
  note pin = make_pipes_in [OF mk]
  have m12: "make_pipes12 0 (take (?n - 1) (pairs12 a)) ?t = (es, t1)"
    using make_pipes12_all [OF mk] assms(2,4) by simp
  have "?rs \<noteq> []" using assms(3,5) by auto
  from launch12_all [OF assms(6) this, of cmds ?n es t1 background] assms(5) obtain o1 where
    l: "launch12 cmds ?n es t1 background 0 0 (take ?n ?rs) = (o1, hd ?rs)"
    and ch: "children o1 = map (\<lambda>j. child12 ?n j es t1 background (hd ?rs) (?rs ! j) (the (cmds ! j))) [0..<?n]"
    by auto
  have pos: "0 < hd ?rs" using assms(6) \<open>?rs \<noteq> []\<close> by simp
  have "child12 ?n j es t1 background (hd ?rs) (?rs ! j) (the (cmds ! j))
      = (?rs ! j, wired ?n j ?t, [Setpgid 0 (hd ?rs)] @ (if background then [] else [Tcsetpgrp (?rs ! j)])
         @ [Exec [''sh'', ''-c'', trim_left (?ps ! j)], Perror ''exec failed'', Exit 1])" if "j < ?n" for j
    using connect_wired [OF conjunct2 [OF pin] conjunct1 [OF pin] that assms(7,8)] map_Some_nth [OF that c] pos
    by (simp add: child12_def)
  then have ch2: "children o1 = map (\<lambda>j. (?rs ! j, wired ?n j ?t,
         [Setpgid 0 (hd ?rs)] @ (if background then [] else [Tcsetpgrp (?rs ! j)])
         @ [Exec [''sh'', ''-c'', trim_left (?ps ! j)], Perror ''exec failed'', Exit 1])) [0..<?n]"
    unfolding ch by (intro map_cong) auto
  have restored: "close_all es t1 = ?t" using pin parent_table by blast
  obtain s1 o2 where s1: "sigchld12 (early12 a) (s\<lparr>tab12 := ?t\<rparr>) = (s1, o2)" by fastforce
  obtain s3 o3 where s3: "sigchld12 (during12 a) (add_job12 (hd ?rs) (strtok_buffer ''|'' cmdline) RUNNING s1) = (s3, o3)"
    by fastforce
  show ?thesis
    using assms(10) p m12 l restored s1 s3 sigchld12_tab [OF s1] sigchld12_tab [OF s3] ch2
    by (auto simp: execute_pipeline12_def Let_def split: if_splits)
qed

definition demo12 :: sh12 where
  "demo12 = fst (start12 1 std_table)"

definition demo_ans12 :: ans12 where
  "demo_ans12 = \<lparr>forks12 = [7, 8], early12 = [], during12 = [], cells12 = replicate 8 None, pairs12 = replicate 7 (0, 0)\<rparr>"

theorem pipeline12_wired_witness:
  "\<exists>s' out. execute_pipeline12 demo_ans12 ''ls | wc'' True demo12 = Inr (s', out) \<and> tab12 s' = std_table
     \<and> map (\<lambda>(r, t, cs). (r, t 0, t 1)) (children out)
         = [(7, Some Tty, Some (Pipe_wr 0)), (8, Some (Pipe_rd 0), Some Tty)]"
proof -
  have w: "words ''|'' ''ls | wc'' = [''ls '', '' wc'']" by (simp add: words_def)
  have t: "tab12 demo12 = std_table" by (simp add: demo12_def start12_def)
  obtain cmds where p: "parse_pipeline12 ''ls | wc'' (cells12 demo_ans12) = Inr (cmds, 2)"
    using parse_pipeline12_cells [of "cells12 demo_ans12" "''ls | wc''"] w by (auto simp: demo_ans12_def numeral_2_eq_2)
  have "\<not> is_fault (execute_pipeline12 demo_ans12 ''ls | wc'' True demo12)"
    by (simp add: execute_pipeline12_def p Let_def split: prod.splits)
  then obtain s' out where r: "execute_pipeline12 demo_ans12 ''ls | wc'' True demo12 = Inr (s', out)"
    by (auto simp: not_fault_iff)
  have up: "[0..<Suc (Suc 0)] = [0, 1]" by simp
  show ?thesis
    using pipeline12_wired [of demo_ans12 "''ls | wc''" demo12 True s' out] w t r up
    by (simp add: demo_ans12_def std_table_def wired_def)
qed

section \<open>Jobs that are never done\<close>

definition alive12 :: "sh12 \<Rightarrow> int \<Rightarrow> bool" where
  "alive12 s g \<longleftrightarrow> (\<exists>i < count12 s. pgid12 (jobs12 s ! i) = g \<and> state12 (jobs12 s ! i) \<noteq> DONE)"

definition size_ok12 :: "sh12 \<Rightarrow> bool" where
  "size_ok12 s \<longleftrightarrow> length (jobs12 s) = MAX_JOBS12 \<and> count12 s \<le> MAX_JOBS12"

text \<open>The groups \<^verbatim>\<open>getpgid\<close> names for the processes whose end is reported.\<close>

definition ended :: "report list \<Rightarrow> int set" where
  "ended rs = set (map (\<lambda>(pid, st, g). g) (filter (\<lambda>(pid, st, g). WIFEXITED st \<or> WIFSIGNALED st) rs))"

fun reported12 :: "ev12 \<Rightarrow> int set" where
  "reported12 (Chld12 rs) = ended rs"
| "reported12 (Line12 a input) = ended (early12 a) \<union> ended (during12 a)"

lemma ended_Nil [simp]: "ended [] = {}"
  by (simp add: ended_def)

lemma ended_Cons: "ended ((pid, st, g) # rs) = (if WIFEXITED st \<or> WIFSIGNALED st then {g} else {}) \<union> ended rs"
  by (auto simp: ended_def)

lemma set_state12_keep:
  "size_ok12 s \<Longrightarrow> i < count12 s \<Longrightarrow> pgid12 (jobs12 s ! i) \<noteq> g \<or> st \<noteq> DONE \<Longrightarrow>
     size_ok12 (set_state12 i st s) \<and> (alive12 s g \<longrightarrow> alive12 (set_state12 i st s) g)"
  by (auto simp: alive12_def size_ok12_def set_state12_def nth_list_update)

lemma size_set_state12 [simp]:
  "size_ok12 (set_state12 i st s) = size_ok12 s" "count12 (set_state12 i st s) = count12 s"
  by (simp_all add: size_ok12_def set_state12_def)

lemma report12_keep:
  assumes "size_ok12 s" and "report12 (pid, st, g') s = (s', out)"
  shows "size_ok12 s' \<and> count12 s' = count12 s \<and> (alive12 s g \<longrightarrow> g \<notin> ended [(pid, st, g')] \<longrightarrow> alive12 s' g)"
proof (cases "find_job12 s g'")
  case None
  with assms show ?thesis by (simp add: report12_def)
next
  case (Some i)
  then have i: "i < count12 s" "pgid12 (jobs12 s ! i) = g'" by (auto simp: find_job12_def dest: find_first_Some)
  have "s' = s \<or> (\<exists>st'. s' = set_state12 i st' s \<and> (st' = DONE \<longrightarrow> WIFEXITED st \<or> WIFSIGNALED st))"
    using Some assms(2) by (auto simp: report12_def Let_def split: if_splits)
  then show ?thesis
    using assms(1) i set_state12_keep [OF assms(1) i(1), of g] by (auto simp: ended_Cons)
qed

lemma sigchld12_keep:
  "size_ok12 s \<Longrightarrow> sigchld12 rs s = (s', out) \<Longrightarrow>
     size_ok12 s' \<and> count12 s' = count12 s \<and> (alive12 s g \<longrightarrow> g \<notin> ended rs \<longrightarrow> alive12 s' g)"
proof (induction rs arbitrary: s out)
  case Nil
  then show ?case by simp
next
  case (Cons r rs)
  obtain pid st g' where r: "r = (pid, st, g')" by (cases r) auto
  obtain s1 o1 where s1: "report12 r s = (s1, o1)" by fastforce
  from report12_keep [OF Cons.prems(1) s1 [unfolded r], of g]
  have e1: "size_ok12 s1 \<and> count12 s1 = count12 s \<and> (alive12 s g \<longrightarrow> g \<notin> ended [r] \<longrightarrow> alive12 s1 g)"
    by (simp add: r)
  obtain o2 where s2: "sigchld12 rs s1 = (s', o2)" using Cons.prems(2) s1 by (auto split: prod.splits)
  have "ended (r # rs) = ended [r] \<union> ended rs" by (simp add: r ended_Cons)
  with e1 Cons.IH [OF conjunct1 [OF e1] s2] show ?case by auto
qed

lemma add_job12_keep:
  assumes "size_ok12 s"
  shows "size_ok12 (add_job12 g' cmd RUNNING s) \<and> (alive12 s g \<longrightarrow> alive12 (add_job12 g' cmd RUNNING s) g)
     \<and> (count12 s < MAX_JOBS12 \<longrightarrow> alive12 (add_job12 g' cmd RUNNING s) g')"
proof (cases "count12 s < MAX_JOBS12")
  case False
  with assms show ?thesis by (simp add: add_job12_def)
next
  case True
  let ?s = "add_job12 g' cmd RUNNING s"
  have old: "jobs12 ?s ! i = jobs12 s ! i" if "i < count12 s" for i
    using that True assms by (simp add: add_job12_def size_ok12_def)
  have new: "pgid12 (jobs12 ?s ! count12 s) = g'" "state12 (jobs12 ?s ! count12 s) = RUNNING" "count12 ?s = Suc (count12 s)"
    using True assms by (simp_all add: add_job12_def size_ok12_def)
  have "alive12 s g \<longrightarrow> alive12 ?s g" unfolding alive12_def new(3) using old by (metis less_Suc_eq)
  moreover have "alive12 ?s g'" unfolding alive12_def using new by (metis job_state.distinct(3) lessI)
  moreover have "size_ok12 ?s" using True assms by (simp add: add_job12_def size_ok12_def)
  ultimately show ?thesis by blast
qed

lemma tab12_keep [simp]: "size_ok12 (s\<lparr>tab12 := t\<rparr>) = size_ok12 s" "alive12 (s\<lparr>tab12 := t\<rparr>) g = alive12 s g"
  by (simp_all add: size_ok12_def alive12_def)

lemma execute_pipeline12_keep:
  assumes "size_ok12 s" and "execute_pipeline12 a cmdline background s = Inr (s', out)"
  shows "size_ok12 s' \<and> (alive12 s g \<longrightarrow> g \<notin> reported12 (Line12 a input) \<longrightarrow> alive12 s' g)"
proof -
  obtain cmds n where p: "parse_pipeline12 cmdline (cells12 a) = Inr (cmds, n)"
    using assms(2) by (cases "parse_pipeline12 cmdline (cells12 a)") (auto simp: execute_pipeline12_def)
  obtain ps t1 where mk: "make_pipes12 0 (take (n - 1) (pairs12 a)) (tab12 s) = (ps, t1)" by fastforce
  obtain o1 pg where l: "launch12 cmds n ps t1 background 0 0 (take n (forks12 a)) = (o1, pg)" by fastforce
  obtain s1 o2 where s1: "sigchld12 (early12 a) (s\<lparr>tab12 := close_all ps t1\<rparr>) = (s1, o2)" by fastforce
  let ?s2 = "add_job12 pg (strtok_buffer ''|'' cmdline) RUNNING s1"
  obtain s3 o3 where s3: "sigchld12 (during12 a) ?s2 = (s3, o3)" by fastforce
  have "size_ok12 (s\<lparr>tab12 := close_all ps t1\<rparr>)" using assms(1) by simp
  note k1 = sigchld12_keep [OF this s1, of g]
  note k2 = add_job12_keep [OF conjunct1 [OF k1], of pg "strtok_buffer ''|'' cmdline" g]
  note k3 = sigchld12_keep [OF conjunct1 [OF k2] s3, of g]
  have "s' = ?s2 \<or> s' = s3"
    using assms(2) p mk l s1 s3 by (auto simp: execute_pipeline12_def Let_def split: if_splits)
  with k1 k2 k3 show ?thesis by auto
qed

lemma fg12_keep:
  assumes "size_ok12 s" and "i < count12 s" and "bring_to_foreground12 a i s = (s', out)"
  shows "size_ok12 s' \<and> (alive12 s g \<longrightarrow> g \<notin> ended (during12 a) \<longrightarrow> alive12 s' g)"
proof (cases "state12 (jobs12 s ! i) = DONE")
  case True
  with assms show ?thesis by (simp add: bring_to_foreground12_def)
next
  case False
  obtain s1 o1 where "sigchld12 (during12 a) (set_state12 i RUNNING s) = (s1, o1)" by fastforce
  with False assms sigchld12_keep [of "set_state12 i RUNNING s" "during12 a" s1 o1 g]
    set_state12_keep [OF assms(1,2), of g RUNNING]
  show ?thesis by (auto simp: bring_to_foreground12_def Let_def)
qed

lemma job_id12_lt: "job_id12 line s = Inr (Some i) \<Longrightarrow> i < count12 s"
  by (auto simp: job_id12_def bindR_eq_Inr split: if_splits)

lemma line12_keep:
  assumes "size_ok12 s" and "line12 a input s = Inr (Some (s', out))"
  shows "size_ok12 s' \<and> (alive12 s g \<longrightarrow> g \<notin> reported12 (Line12 a input) \<longrightarrow> alive12 s' g)"
proof -
  have bg: "i < count12 s \<Longrightarrow> size_ok12 (fst (continue_in_background12 i s)) \<and>
      (alive12 s g \<longrightarrow> alive12 (fst (continue_in_background12 i s)) g)" for i
    using assms(1) set_state12_keep [of s i g RUNNING]
    by (auto simp: continue_in_background12_def Let_def)
  have fg: "i < count12 s \<Longrightarrow> size_ok12 (fst (bring_to_foreground12 a i s)) \<and>
      (alive12 s g \<longrightarrow> g \<notin> reported12 (Line12 a input) \<longrightarrow> alive12 (fst (bring_to_foreground12 a i s)) g)" for i
    using fg12_keep [OF assms(1), of i a _ _ g] by (cases "bring_to_foreground12 a i s") simp
  have ex: "execute_pipeline12 a c b s = Inr (s', out) \<Longrightarrow>
      size_ok12 s' \<and> (alive12 s g \<longrightarrow> g \<notin> reported12 (Line12 a input) \<longrightarrow> alive12 s' g)" for c b
    using execute_pipeline12_keep [OF assms(1)] by blast
  show ?thesis
    using assms(2) assms(1)
    by (auto simp: line12_def Let_def bindR_eq_Inr split_beta simp del: reported12.simps
        dest!: job_id12_lt dest: bg fg ex split: if_splits option.splits)
qed

interpretation jobs12: job_shell step12 alive12 reported12 size_ok12
proof
  fix s s' e out g
  assume inv: "size_ok12 s" and st: "step12 s e = Inr (s', out)"
  have "size_ok12 s' \<and> (alive12 s g \<longrightarrow> g \<notin> reported12 e \<longrightarrow> alive12 s' g)" for g
  proof (cases e)
    case (Chld12 rs)
    obtain o1 where "sigchld12 rs s = (s', o1)" using Chld12 st by (auto split: prod.splits)
    with sigchld12_keep [OF inv this, of g] Chld12 show ?thesis by simp
  next
    case (Line12 a input)
    with st obtain r where "line12 a input s = Inr r" by (auto simp: bindR_eq_Inr)
    with st Line12 inv line12_keep [OF inv, of a input s' _ g] show ?thesis
      by (cases r) auto
  qed
  then show "size_ok12 s'" and "g \<notin> reported12 e \<Longrightarrow> alive12 s g \<Longrightarrow> alive12 s' g" by blast+
qed

text \<open>
  C17: lab 12 never records that a pipeline ended. The handler asks \<^verbatim>\<open>getpgid\<close> for the group of a process
  it has just reaped, for which the call fails with \<open>-1\<close>; under that documented behaviour, a pipeline
  that was entered in the table stays listed as not done in every later state of the shell,
  whatever the user types and whatever the handler collects.
\<close>

theorem jobs12_never_done:
  assumes "size_ok12 s" and "count12 s < MAX_JOBS12" and "length (cells12 a) = 8"
    and "words ''|'' cmdline \<noteq> []" and "forks12 a \<noteq> []" and "\<forall>r \<in> set (forks12 a). 0 < r"
    and "ended (during12 a) \<subseteq> {-1}"
    and "execute_pipeline12 a cmdline background s = Inr (s1, out1)" and "run step12 s1 es = Inr (s2, out2)"
    and "\<forall>e \<in> set es. reported12 e \<subseteq> {-1}"
  shows "alive12 s2 (hd (forks12 a))"
proof -
  obtain cmds n where p: "parse_pipeline12 cmdline (cells12 a) = Inr (cmds, n)" and n: "0 < n"
    using collect_trimmed_words [of 8 "cells12 a" 0 cmdline] assms(3,4)
    by (auto simp: parse_pipeline12_def MAX_CMDS12_def Let_def)
  let ?rs = "take n (forks12 a)" and ?g = "hd (forks12 a)"
  have "?rs \<noteq> []" and "hd ?rs = ?g" and "\<forall>r \<in> set ?rs. 0 < r" and "0 < ?g"
    using n assms(5,6) by (auto dest: in_set_takeD)
  then obtain o1 ps t1 where mk: "make_pipes12 0 (take (n - 1) (pairs12 a)) (tab12 s) = (ps, t1)"
    and l: "launch12 cmds n ps t1 background 0 0 ?rs = (o1, ?g)"
    using launch12_all [of ?rs cmds n _ _ background] by (metis surj_pair)
  obtain sa o2 where sa: "sigchld12 (early12 a) (s\<lparr>tab12 := close_all ps t1\<rparr>) = (sa, o2)" by fastforce
  let ?sb = "add_job12 ?g (strtok_buffer ''|'' cmdline) RUNNING sa"
  obtain sc o3 where sc: "sigchld12 (during12 a) ?sb = (sc, o3)" by fastforce
  have "size_ok12 (s\<lparr>tab12 := close_all ps t1\<rparr>)" using assms(1) by simp
  note k = sigchld12_keep [OF this sa]
  then have "size_ok12 sa" and "count12 sa < MAX_JOBS12" using assms(2) by auto
  then have b: "size_ok12 ?sb" "alive12 ?sb ?g" using add_job12_keep [of sa ?g] by auto
  have "?g \<notin> ended (during12 a)" using assms(7) \<open>0 < ?g\<close> by auto
  with b sigchld12_keep [OF b(1) sc, of ?g] have "size_ok12 sc" "alive12 sc ?g" by auto
  moreover have "s1 = ?sb \<or> s1 = sc"
    using assms(8) p mk l sa sc by (auto simp: execute_pipeline12_def Let_def split: if_splits)
  ultimately have "size_ok12 s1" "alive12 s1 ?g" using b by auto
  moreover have "?g \<notin> all_reported reported12 es"
    using assms(10) \<open>0 < ?g\<close> by (force simp: all_reported_def)
  ultimately show ?thesis using jobs12.run_alive [OF _ assms(9)] by blast
qed

theorem jobs12_never_done_witness:
  "\<exists>s1 out1. execute_pipeline12 demo_ans12 ''ls | wc'' True demo12 = Inr (s1, out1)
     \<and> alive12 (fst (sigchld12 [(7, 0, -1), (8, 0, -1)] s1)) 7"
proof -
  have sz: "size_ok12 demo12" "count12 demo12 < MAX_JOBS12"
    by (simp_all add: demo12_def start12_def size_ok12_def MAX_JOBS12_def)
  have w: "words ''|'' ''ls | wc'' \<noteq> []" by (simp add: words_def)
  obtain cmds where p: "parse_pipeline12 ''ls | wc'' (cells12 demo_ans12) = Inr (cmds, 2)"
    using parse_pipeline12_cells [of "cells12 demo_ans12" "''ls | wc''"]
    by (auto simp: demo_ans12_def numeral_2_eq_2 words_def)
  have "\<not> is_fault (execute_pipeline12 demo_ans12 ''ls | wc'' True demo12)"
    by (simp add: execute_pipeline12_def p Let_def split: prod.splits)
  then obtain s1 out1 where e: "execute_pipeline12 demo_ans12 ''ls | wc'' True demo12 = Inr (s1, out1)"
    by (auto simp: not_fault_iff)
  let ?es = "[Chld12 [(7, 0, -1), (8, 0, -1)]]"
  obtain s2 o2 where c: "sigchld12 [(7, 0, -1), (8, 0, -1)] s1 = (s2, o2)" by fastforce
  then have r: "run step12 s1 ?es = Inr (s2, map Call o2)" by simp
  have es: "\<forall>e \<in> set ?es. reported12 e \<subseteq> {-1}" by (simp add: ended_def)
  have "alive12 s2 7"
    using jobs12_never_done [OF sz _ w _ _ _ e r es] by (simp add: demo_ans12_def ended_def)
  with e c show ?thesis by auto
qed

end
