(* ===== verification/Balance09_Udp.thy ===== *)
theory Balance09_Udp
  imports Line_Input Interfaces
begin

text \<open>
  \<^verbatim>\<open>03_networking/lab_09_udp_load_balancer\<close>: the datagram balancer (\<^verbatim>\<open>load_balancer.c\<close>), a backend
  (\<^verbatim>\<open>backend.c\<close>) and the client (\<^verbatim>\<open>client.c\<close>), and the three of them together. An event of the balancer
  is one turn of its loop, with what its two calls of \<^verbatim>\<open>recvfrom\<close> return.
\<close>

section \<open>The model\<close>

definition BUF_SIZE09 :: nat where "BUF_SIZE09 = 1024"
definition MAX_BACKENDS09 :: nat where "MAX_BACKENDS09 = 3"
definition LB_PORT09 :: int where "LB_PORT09 = 6060"

record lb09 =
  sock09 :: int
  current09 :: nat

record udp_turn =
  request :: rd
  from09 :: addr
  answer :: rd

definition backend_addr09 :: "nat \<Rightarrow> addr" where
  "backend_addr09 i = (''127.0.0.1'', 7000 + int i)"

definition step09 :: "lb09 \<Rightarrow> udp_turn \<Rightarrow> (lb09 \<times> sys list) res" where
  "step09 s e =
     (if rd_len (request e) < 0 then Inr (s, [])
      else bindR (terminate BUF_SIZE09 (rd_data (request e))) (\<lambda>buffer.
        let o1 = [Sendto (sock09 s) (backend_addr09 (current09 s)) (rd_data (request e)),
                  Print (''[LB] Client '' @ arrow @ '' Backend '' @ show_int (int (current09 s)) @ '': '' @ buffer)];
            s' = s\<lparr>current09 := (current09 s + 1) mod MAX_BACKENDS09\<rparr>
        in if 0 < rd_len (answer e)
           then bindR (terminate BUF_SIZE09 (rd_data (answer e))) (\<lambda>_.
             Inr (s', o1 @ [Sendto (sock09 s) (from09 e) (rd_data (answer e))]))
           else Inr (s', o1)))"

definition setup09 :: "int \<Rightarrow> int \<Rightarrow> lb09 option \<times> sys list" where
  "setup09 sockfd bind_ret =
     (if sockfd < 0 then (None, [Socket_dgram, Perror ''socket'', Exit 1])
      else if bind_ret < 0 then (None, [Socket_dgram, Bind_dgram sockfd LB_PORT09, Perror ''bind'', Exit 1])
      else (Some \<lparr>sock09 = sockfd, current09 = 0\<rparr>,
        [Socket_dgram, Bind_dgram sockfd LB_PORT09,
         Print (''[LOAD BALANCER] Listening on port '' @ show_int LB_PORT09 @ nl),
         Print (''[LOAD BALANCER] Forwarding to backends: 7000, 7001, 7002'' @ nl)]))"

text \<open>A backend: its answer to a message, and a turn of its loop.\<close>

definition backend_reply :: "nat \<Rightarrow> int \<Rightarrow> string \<Rightarrow> string" where
  "backend_reply cap port buffer = snprintf cap (''[BACKEND:'' @ show_int port @ ''] '' @ buffer)"

definition backend09 :: "int \<Rightarrow> int \<Rightarrow> rd \<Rightarrow> addr \<Rightarrow> sys list res" where
  "backend09 sockfd port r client_addr =
     (if rd_len r < 0 then Inr []
      else bindR (terminate BUF_SIZE09 (rd_data r)) (\<lambda>buffer.
        Inr [Sendto sockfd client_addr (cstr (backend_reply BUF_SIZE09 port buffer))]))"

text \<open>The client: a turn of its loop on a line of its input, with what \<^verbatim>\<open>recvfrom\<close> returns.\<close>

definition reply_line :: "string \<Rightarrow> sys" where
  "reply_line t = Print (''[SERVER REPLY] '' @ t)"

definition client_turn09 :: "int \<Rightarrow> rd \<Rightarrow> string \<Rightarrow> unit \<Rightarrow> (control \<times> unit \<times> sys list) res" where
  "client_turn09 sockfd r message u =
     (if strncmp_eq message ''exit'' 4 then Inr (Break, u, [])
      else let o1 = [Sendto sockfd (''127.0.0.1'', LB_PORT09) message]
           in if 0 < rd_len r
              then bindR (terminate BUF_SIZE09 (rd_data r)) (\<lambda>buffer.
                Inr (Again, u, o1 @ [reply_line buffer]))
              else Inr (Again, u, o1))"

definition client09 :: "int \<Rightarrow> (nat \<Rightarrow> rd) \<Rightarrow> string \<Rightarrow> sys list res" where
  "client09 sockfd ans inp =
     (if sockfd < 0 then Inr [Socket_dgram, Perror ''socket'', Exit 1]
      else bindR (repl [Print ''> '', Flush] (client_turn09 sockfd) ans () (lines_of 1022 inp)) (\<lambda>(c, u, out).
        Inr ([Socket_dgram,
              Print (''[CLIENT] Connected to UDP Load Balancer on port '' @ show_int LB_PORT09 @ nl),
              Print (''Type messages (type '' @ [CHR 0x27] @ ''exit'' @ [CHR 0x27] @ '' to quit):'' @ nl)]
             @ out @ [Close sockfd])))"

section \<open>The balancer\<close>

definition uses09 :: "lb09 \<Rightarrow> udp_turn \<Rightarrow> bool" where
  "uses09 s e \<longleftrightarrow> 0 \<le> rd_len (request e)"

definition ok09 :: "lb09 \<Rightarrow> udp_turn \<Rightarrow> bool" where
  "ok09 s e \<longleftrightarrow> rd_ok 1023 (request e) \<and> rd_ok 1023 (answer e)"

lemma step09_eq:
  assumes "ok09 s e"
  shows "step09 s e =
    (if uses09 s e
     then Inr (s\<lparr>current09 := (current09 s + 1) mod 3\<rparr>,
       [Sendto (sock09 s) (backend_addr09 (current09 s)) (rd_data (request e)),
        Print (''[LB] Client '' @ arrow @ '' Backend '' @ show_int (int (current09 s)) @ '': '' @ cstr (rd_data (request e)))]
       @ (if 0 < rd_len (answer e) then [Sendto (sock09 s) (from09 e) (rd_data (answer e))] else []))
     else Inr (s, []))"
  using assms
  by (auto simp: step09_def uses09_def ok09_def rd_ok_def terminate_def BUF_SIZE09_def MAX_BACKENDS09_def Let_def)

interpretation balancer09: round_robin step09 current09 uses09 3
proof
  fix s s' e out
  assume "step09 s e = Inr (s', out)"
  then show "current09 s' = (if uses09 s e then (current09 s + 1) mod 3 else current09 s)"
    by (auto simp: step09_def uses09_def Let_def bindR_eq_Inr MAX_BACKENDS09_def split: if_splits)
qed simp

lemma sendtos_step09:
  "step09 s e = Inr (s', out) \<Longrightarrow> ok09 s e \<Longrightarrow> sendtos out =
     (if uses09 s e
      then (backend_addr09 (current09 s), rd_data (request e))
           # (if 0 < rd_len (answer e) then [(from09 e, rd_data (answer e))] else [])
      else [])"
  by (auto simp: step09_eq split: if_splits)

text \<open>What the balancer sends, turn by turn, to the backend whose turn it is and back to the client.\<close>

fun relayed09 :: "nat \<Rightarrow> udp_turn list \<Rightarrow> (addr \<times> string) list" where
  "relayed09 k [] = []"
| "relayed09 k (e # es) =
     (if rd_len (request e) < 0 then relayed09 k es
      else (backend_addr09 (k mod 3), rd_data (request e))
        # (if 0 < rd_len (answer e) then [(from09 e, rd_data (answer e))] else []) @ relayed09 (Suc k) es)"

lemma run09:
  "current09 s = k mod 3 \<Longrightarrow> \<forall>e \<in> set es. ok09 s e \<Longrightarrow>
     \<exists>s' out. run step09 s es = Inr (s', out) \<and> sendtos out = relayed09 k es"
proof (induction es arbitrary: s k)
  case Nil
  then show ?case by simp
next
  case (Cons e es)
  then have ok: "ok09 s e" by simp
  then obtain s1 o1 where st: "step09 s e = Inr (s1, o1)"
    by (cases "uses09 s e") (auto simp: step09_eq)
  let ?k = "if uses09 s e then Suc k else k"
  have "current09 s1 = ?k mod 3" using balancer09.step_idx [OF st] Cons.prems(1) by (auto simp: mod_Suc_eq)
  moreover have "\<forall>e \<in> set es. ok09 s1 e" using Cons.prems(2) by (simp add: ok09_def)
  ultimately obtain s2 o2 where "run step09 s1 es = Inr (s2, o2)" "sendtos o2 = relayed09 ?k es"
    using Cons.IH by blast
  moreover have "uses09 s e \<longleftrightarrow> \<not> rd_len (request e) < 0" by (auto simp: uses09_def)
  ultimately show ?case using st sendtos_step09 [OF st ok] Cons.prems(1) by (auto split: if_splits)
qed

section \<open>Balancer, backends and client together\<close>

text \<open>
  A request goes through the balancer to the backend at its index, whose datagram is what the second
  \<^verbatim>\<open>recvfrom\<close> of the balancer returns.
\<close>

definition exchange09 :: "lb09 \<Rightarrow> addr \<times> string \<Rightarrow> (lb09 \<times> sys list) res" where
  "exchange09 s req =
     (case req of (c, msg) \<Rightarrow>
        bindR (backend09 3 (snd (backend_addr09 (current09 s))) (Got msg) (''127.0.0.1'', LB_PORT09)) (\<lambda>b.
          step09 s \<lparr>request = Got msg, from09 = c, answer = Got (snd (hd (sendtos b)))\<rparr>))"

definition reply09 :: "nat \<Rightarrow> string \<Rightarrow> string" where
  "reply09 k msg = backend_reply 1024 (7000 + int (k mod 3)) msg"

text \<open>A message a client can send: a line of at most 1023 bytes without NUL.\<close>

definition message09 :: "string \<Rightarrow> bool" where
  "message09 m \<longleftrightarrow> NUL \<notin> set m \<and> length m \<le> 1023"

lemma reply09_facts:
  assumes "NUL \<notin> set m"
  shows "NUL \<notin> set (reply09 k m)" and "length (reply09 k m) \<le> 1023" and "0 < length (reply09 k m)"
proof -
  show "NUL \<notin> set (reply09 k m)"
    unfolding reply09_def backend_reply_def using assms by (intro snprintf_no_NUL) auto
  show "length (reply09 k m) \<le> 1023" by (simp add: reply09_def backend_reply_def snprintf_def)
  show "0 < length (reply09 k m)" by (simp add: reply09_def backend_reply_def snprintf_def)
qed

lemma exchange09_run:
  "current09 s = k mod 3 \<Longrightarrow> \<forall>r \<in> set reqs. message09 (snd r) \<Longrightarrow>
     \<exists>s' out. run exchange09 s reqs = Inr (s', out) \<and> sendtos out = concat (map (\<lambda>i. case reqs ! i of (c, m) \<Rightarrow>
       [(backend_addr09 ((k + i) mod 3), m), (c, reply09 (k + i) m)]) [0..<length reqs])"
proof (induction reqs arbitrary: s k)
  case Nil
  then show ?case by simp
next
  case (Cons r reqs)
  obtain c m where r: "r = (c, m)" by fastforce
  with Cons.prems have m: "NUL \<notin> set m" "length m \<le> 1023" by (auto simp: message09_def)
  note rep = reply09_facts [OF m(1), of k]
  have b: "backend09 3 (snd (backend_addr09 (current09 s))) (Got m) a = Inr [Sendto 3 a (reply09 k m)]" for a
    using m rep(1) Cons.prems(1)
    by (simp add: backend09_def terminate_def BUF_SIZE09_def backend_addr09_def reply09_def)
  let ?e = "\<lparr>request = Got m, from09 = c, answer = Got (reply09 k m)\<rparr>"
  have ok: "ok09 s ?e" using m rep by (simp add: ok09_def rd_ok_def)
  have "uses09 s ?e" by (simp add: uses09_def)
  with ok obtain s1 o1 where st: "step09 s ?e = Inr (s1, o1)" by (auto simp: step09_eq)
  have o1: "sendtos o1 = [(backend_addr09 (k mod 3), m), (c, reply09 k m)]"
    using sendtos_step09 [OF st ok] \<open>uses09 s ?e\<close> rep Cons.prems(1) by simp
  have "current09 s1 = Suc k mod 3"
    using balancer09.step_idx [OF st] \<open>uses09 s ?e\<close> Cons.prems(1) by (simp add: mod_Suc_eq)
  with Cons.IH [of s1 "Suc k"] Cons.prems(2) obtain s2 o2 where
    "run exchange09 s1 reqs = Inr (s2, o2)" "sendtos o2 = concat (map (\<lambda>i. case reqs ! i of (c, m) \<Rightarrow>
       [(backend_addr09 ((Suc k + i) mod 3), m), (c, reply09 (Suc k + i) m)]) [0..<length reqs])" by auto
  moreover have "exchange09 s r = Inr (s1, o1)" by (simp add: exchange09_def r b st)
  moreover have "[0..<length (r # reqs)] = 0 # map Suc [0..<length reqs]" by (simp add: upt_0_Suc del: upt_Suc)
  ultimately show ?case using o1 r by (simp add: comp_def)
qed

lemma client09_run:
  "\<forall>l \<in> set ls. message09 l \<and> \<not> strncmp_eq l ''exit'' 4 \<Longrightarrow>
     \<forall>i < length ls. \<exists>r. ans i = Got r \<and> r \<noteq> [] \<and> NUL \<notin> set r \<and> length r \<le> 1023 \<Longrightarrow>
     repl p (client_turn09 fd) ans () ls = Inr (Break, (), concat (map (\<lambda>i.
       p @ [Sendto fd (''127.0.0.1'', LB_PORT09) (ls ! i), reply_line (rd_data (ans i))]) [0..<length ls]) @ p)"
proof (induction ls arbitrary: ans)
  case Nil
  then show ?case by simp
next
  case (Cons l ls)
  from Cons.prems(2) obtain r where r: "ans 0 = Got r" "r \<noteq> []" "NUL \<notin> set r" "length r \<le> 1023" by force
  from Cons.prems(1) have l: "NUL \<notin> set l" "\<not> strncmp_eq l ''exit'' 4" by (auto simp: message09_def)
  have t: "client_turn09 fd (ans 0) (cstr l) () = Inr (Again, (),
      [Sendto fd (''127.0.0.1'', LB_PORT09) l, reply_line (rd_data (ans 0))])"
    using r l by (simp add: client_turn09_def terminate_def BUF_SIZE09_def)
  have "\<forall>i < length ls. \<exists>r. ans (Suc i) = Got r \<and> r \<noteq> [] \<and> NUL \<notin> set r \<and> length r \<le> 1023"
    using Cons.prems(2) by auto
  with Cons.IH [of "\<lambda>k. ans (Suc k)"] Cons.prems(1)
  have "repl p (client_turn09 fd) (\<lambda>k. ans (Suc k)) () ls = Inr (Break, (), concat (map (\<lambda>i.
       p @ [Sendto fd (''127.0.0.1'', LB_PORT09) (ls ! i), reply_line (rd_data (ans (Suc i)))]) [0..<length ls]) @ p)"
    by simp
  moreover have "[0..<length (l # ls)] = 0 # map Suc [0..<length ls]" by (simp add: upt_0_Suc del: upt_Suc)
  ultimately show ?case using t by (simp add: comp_def)
qed

lemma filter_replies:
  "filter (\<lambda>c. \<exists>t. c = reply_line t) (concat (map (\<lambda>i. Print ''> '' # Flush # [Sendto fd a (f i), reply_line (g i)]) is))
    = map (\<lambda>i. reply_line (g i)) is"
  by (induction "is") (auto simp: reply_line_def)

section \<open>Properties\<close>



end
