(* ===== verification/Balance10_Epoll.thy ===== *)
theory Balance10_Epoll
  imports Balance09_Udp
begin

text \<open>
  \<^verbatim>\<open>03_networking/lab_10_tcp_load_balancer\<close>: the stream balancer on \<^verbatim>\<open>epoll\<close> (\<^verbatim>\<open>load_balancer.c\<close>) with its
  backend and client. An event is one entry of \<^verbatim>\<open>events\<close>, with what \<^verbatim>\<open>accept\<close>, \<^verbatim>\<open>socket\<close>, \<^verbatim>\<open>connect\<close> and
  \<^verbatim>\<open>read\<close> return for it. The result of \<^verbatim>\<open>write\<close> is ignored by the code.
\<close>

section \<open>The model\<close>

definition LB_PORT10 :: int where "LB_PORT10 = 7070"
definition MAX_BACKENDS10 :: nat where "MAX_BACKENDS10 = 3"

record conn10 =
  client10 :: int
  backend10 :: int

record lb10 =
  listen10 :: int
  table10 :: "conn10 list"
  count10 :: nat
  current10 :: nat

datatype conn_ans = Connected | In_progress | Refused

record lb_event =
  le_fd :: int
  le_accept :: int
  le_socket :: int
  le_connect :: conn_ans
  le_read :: rd

definition make_nonblocking10 :: "int \<Rightarrow> sys list" where
  "make_nonblocking10 fd = [Nonblock fd]"

definition connect_backend10 :: "int \<Rightarrow> int \<Rightarrow> conn_ans \<Rightarrow> int \<times> sys list" where
  "connect_backend10 port fd ans =
     (if fd < 0 then (-1, [Socket_stream])
      else if ans = Refused then (-1, [Socket_stream, Connect fd port, Close fd])
      else (fd, [Socket_stream, Connect fd port] @ make_nonblocking10 fd))"

definition forward_data10 :: "int \<Rightarrow> rd \<Rightarrow> sys list" where
  "forward_data10 dst_fd r = (if rd_len r \<le> 0 then [] else [Send dst_fd (rd_data r)])"

definition backend_port10 :: "nat \<Rightarrow> int" where
  "backend_port10 i = [8000, 8001, 8002] ! i"

text \<open>The loop over the table, which does not stop at a hit.\<close>

definition paired10 :: "lb10 \<Rightarrow> int \<Rightarrow> int" where
  "paired10 s fd =
     fold (\<lambda>j paired_fd.
         if client10 (table10 s ! j) = fd then backend10 (table10 s ! j)
         else if backend10 (table10 s ! j) = fd then client10 (table10 s ! j)
         else paired_fd) [0..<count10 s] (-1)"

definition accept10 :: "lb10 \<Rightarrow> lb_event \<Rightarrow> (lb10 \<times> sys list) res" where
  "accept10 s e =
     (if le_accept e < 0 then Inr (s, [])
      else
        let cfd = le_accept e; port = backend_port10 (current10 s)
        in case connect_backend10 port (le_socket e) (le_connect e) of (bfd, o1) \<Rightarrow>
          if bfd < 0 then Inr (s, make_nonblocking10 cfd @ o1 @ [Close cfd])
          else bindR (arr_set (table10 s) (count10 s) \<lparr>client10 = cfd, backend10 = bfd\<rparr>) (\<lambda>t.
            Inr (s\<lparr>table10 := t, count10 := Suc (count10 s), current10 := (current10 s + 1) mod MAX_BACKENDS10\<rparr>,
              make_nonblocking10 cfd @ o1
              @ [Print (''[LB] Client connected '' @ arrow @ '' Backend '' @ show_int port @ nl),
                 Epoll_add cfd False, Epoll_add bfd False])))"

definition step_lb10 :: "lb10 \<Rightarrow> lb_event \<Rightarrow> (lb10 \<times> sys list) res" where
  "step_lb10 s e =
     (if le_fd e = listen10 s then accept10 s e
      else Inr (s, if 0 \<le> paired10 s (le_fd e) then forward_data10 (paired10 s (le_fd e)) (le_read e) else []))"

definition setup_lb10 :: "int \<Rightarrow> int \<Rightarrow> lb10 option \<times> sys list" where
  "setup_lb10 listen_fd bind_ret =
     (if listen_fd < 0 then (None, [Socket_stream, Perror ''socket'', Exit 1])
      else if bind_ret < 0
      then (None, [Socket_stream, Reuseaddr listen_fd, Bind listen_fd LB_PORT10, Perror ''bind'', Exit 1])
      else (Some \<lparr>listen10 = listen_fd, table10 = replicate 1024 \<lparr>client10 = 0, backend10 = 0\<rparr>, count10 = 0, current10 = 0\<rparr>,
        [Socket_stream, Reuseaddr listen_fd, Bind listen_fd LB_PORT10, Listen listen_fd 64] @ make_nonblocking10 listen_fd
        @ [Print (''[LB] Listening on TCP port '' @ show_int LB_PORT10 @ nl), Epoll_create, Epoll_add listen_fd False]))"

text \<open>
  The backend: the loop on one connection, given the results of its reads (the end of the list stands
  for one that is \<open>0\<close> or \<open>-1\<close>), and the connections one after the other.
\<close>

definition BUF_SIZE10 :: nat where "BUF_SIZE10 = 4096"

fun serve10 :: "int \<Rightarrow> int \<Rightarrow> rd list \<Rightarrow> sys list res" where
  "serve10 port cfd [] = Inr [Close cfd]"
| "serve10 port cfd (r # rs) =
     (if rd_len r \<le> 0 then Inr [Close cfd]
      else bindR (terminate BUF_SIZE10 (rd_data r)) (\<lambda>buf.
        bindR (serve10 port cfd rs) (\<lambda>out.
          Inr (Print (''[BACKEND '' @ show_int port @ ''] Received: '' @ buf)
               # Send cfd (backend_reply BUF_SIZE10 port buf) # out))))"

fun backend_loop10 :: "int \<Rightarrow> (int \<times> rd list) list \<Rightarrow> sys list res" where
  "backend_loop10 port [] = Inr []"
| "backend_loop10 port ((cfd, rs) # cs) =
     (if cfd < 0 then backend_loop10 port cs
      else bindR (serve10 port cfd rs) (\<lambda>o1. bindR (backend_loop10 port cs) (\<lambda>o2. Inr (o1 @ o2))))"

text \<open>A turn of the client's loop, and the client.\<close>

definition client_turn10 :: "int \<Rightarrow> rd \<Rightarrow> string \<Rightarrow> unit \<Rightarrow> (control \<times> unit \<times> sys list) res" where
  "client_turn10 sock r msg u =
     (if strncmp_eq msg ''exit'' 4 then Inr (Break, u, [])
      else if 0 < rd_len r
      then bindR (terminate BUF_SIZE10 (rd_data r)) (\<lambda>buf. Inr (Again, u, [Send sock msg, Print buf]))
      else Inr (Again, u, [Send sock msg]))"

definition client_lb10 :: "int \<Rightarrow> int \<Rightarrow> (nat \<Rightarrow> rd) \<Rightarrow> string \<Rightarrow> sys list res" where
  "client_lb10 sock conn ans inp =
     (if conn < 0 then Inr [Socket_stream, Connect sock LB_PORT10, Perror ''connect'', Exit 1]
      else bindR (repl [Print ''> '', Flush] (client_turn10 sock) ans () (lines_of 4094 inp)) (\<lambda>(c, u, out).
        Inr ([Socket_stream, Connect sock LB_PORT10,
              Print (''[CLIENT] Connected to load balancer (TCP)'' @ nl), Print (''Type messages (exit to quit):'' @ nl)]
             @ out @ [Close sock])))"

section \<open>Pairs\<close>

abbreviation cl10 :: "lb10 \<Rightarrow> nat \<Rightarrow> int" where "cl10 s j \<equiv> client10 (table10 s ! j)"
abbreviation bk10 :: "lb10 \<Rightarrow> nat \<Rightarrow> int" where "bk10 s j \<equiv> backend10 (table10 s ! j)"

definition links10 :: "lb10 \<Rightarrow> (int \<times> int) set" where
  "links10 s = {(cl10 s j, bk10 s j) | j. j < count10 s}"

definition fds10 :: "lb10 \<Rightarrow> int set" where
  "fds10 s = fst ` links10 s \<union> snd ` links10 s"

definition wf10 :: "lb10 \<Rightarrow> bool" where
  "wf10 s \<longleftrightarrow> length (table10 s) = 1024 \<and> count10 s \<le> 1024 \<and> current10 s < 3
     \<and> listen10 s \<notin> fds10 s \<and> (\<forall>x \<in> fds10 s. 0 \<le> x)
     \<and> (\<forall>i < count10 s. \<forall>j < count10 s. (cl10 s i = cl10 s j \<longrightarrow> i = j) \<and> (bk10 s i = bk10 s j \<longrightarrow> i = j) \<and> cl10 s i \<noteq> bk10 s j)"

lemma fds10_nth: "x \<in> fds10 s \<longleftrightarrow> (\<exists>j < count10 s. x = cl10 s j \<or> x = bk10 s j)"
  by (auto simp: fds10_def links10_def image_iff)

lemma paired10_link:
  assumes "wf10 s" and "(c, b) \<in> links10 s"
  shows "paired10 s c = b" and "paired10 s b = c"
proof -
  from assms obtain j where j: "j < count10 s" "c = cl10 s j" "b = bk10 s j" by (auto simp: links10_def)
  have wf: "\<forall>i < count10 s. \<forall>j < count10 s. (cl10 s i = cl10 s j \<longrightarrow> i = j) \<and> (bk10 s i = bk10 s j \<longrightarrow> i = j) \<and> cl10 s i \<noteq> bk10 s j"
    using assms(1) by (simp add: wf10_def)
  have i: "cl10 s i \<noteq> c \<and> bk10 s i \<noteq> c \<and> cl10 s i \<noteq> b \<and> bk10 s i \<noteq> b" if "i < count10 s" "i \<noteq> j" for i
    using wf that j by metis
  have "cl10 s j \<noteq> b" using wf j by metis
  with i j show "paired10 s c = b" and "paired10 s b = c"
    unfolding paired10_def by (simp_all add: fold_upt_single [of j])
qed

lemma paired10_none: "fd \<notin> fds10 s \<Longrightarrow> paired10 s fd = -1"
  unfolding paired10_def by (rule fold_upt_none) (auto simp: fds10_nth)

text \<open>The kernel's side: descriptors it hands out are not open, and a read stays within its bound.\<close>

definition ok10 :: "lb10 \<Rightarrow> lb_event \<Rightarrow> bool" where
  "ok10 s e \<longleftrightarrow> le_fd e \<in> insert (listen10 s) (fds10 s)
     \<and> (0 \<le> le_accept e \<longrightarrow> le_accept e \<notin> insert (listen10 s) (fds10 s))
     \<and> (0 \<le> le_socket e \<longrightarrow> le_socket e \<notin> insert (listen10 s) (insert (le_accept e) (fds10 s)))
     \<and> rd_ok 4096 (le_read e)"

definition joins10 :: "lb10 \<Rightarrow> lb_event \<Rightarrow> bool" where
  "joins10 s e \<longleftrightarrow> le_fd e = listen10 s \<and> 0 \<le> le_accept e \<and> 0 \<le> le_socket e \<and> le_connect e \<noteq> Refused"

lemma backend_port10_lt: "i < 3 \<Longrightarrow> backend_port10 i = 8000 + int i"
  by (auto simp: backend_port10_def numeral_3_eq_3 less_Suc_eq)

text \<open>The outcomes of a step.\<close>

lemma step_lb10_join:
  assumes "wf10 s" and "joins10 s e"
  shows "step_lb10 s e =
    (if count10 s < 1024
     then Inr (s\<lparr>table10 := (table10 s)[count10 s := \<lparr>client10 = le_accept e, backend10 = le_socket e\<rparr>],
              count10 := Suc (count10 s), current10 := (current10 s + 1) mod 3\<rparr>,
       [Nonblock (le_accept e), Socket_stream, Connect (le_socket e) (8000 + int (current10 s)), Nonblock (le_socket e),
        Print (''[LB] Client connected '' @ arrow @ '' Backend '' @ show_int (8000 + int (current10 s)) @ nl),
        Epoll_add (le_accept e) False, Epoll_add (le_socket e) False])
     else Inl Out_of_bounds)"
proof -
  have "backend_port10 (current10 s) = 8000 + int (current10 s)"
    using assms(1) by (simp add: wf10_def backend_port10_lt)
  with assms show ?thesis
    by (auto simp: step_lb10_def accept10_def joins10_def connect_backend10_def make_nonblocking10_def
        MAX_BACKENDS10_def arr_set_def wf10_def Let_def)
qed

lemma step_lb10_refuse:
  "le_fd e = listen10 s \<Longrightarrow> \<not> joins10 s e \<Longrightarrow> \<exists>out. step_lb10 s e = Inr (s, out) \<and> sends out = []
     \<and> set (closed out) \<subseteq> {le_accept e, le_socket e} \<and> (0 \<le> le_accept e \<longrightarrow> le_accept e \<in> set (closed out))"
  by (auto simp: step_lb10_def accept10_def joins10_def connect_backend10_def make_nonblocking10_def Let_def)

lemma step_lb10_data:
  assumes "le_fd e \<noteq> listen10 s"
  shows "step_lb10 s e = Inr (s, if 0 \<le> paired10 s (le_fd e) then forward_data10 (paired10 s (le_fd e)) (le_read e) else [])"
  using assms by (simp add: step_lb10_def)

lemma links10_join:
  assumes "count10 s < length (table10 s)"
  shows "links10 (s\<lparr>table10 := (table10 s)[count10 s := \<lparr>client10 = c, backend10 = b\<rparr>], count10 := Suc (count10 s),
    current10 := k\<rparr>) = insert (c, b) (links10 s)"
  using assms by (auto simp: links10_def less_Suc_eq nth_list_update) (metis less_irrefl_nat)+

lemma step_lb10_wf:
  assumes "wf10 s" and "ok10 s e" and "step_lb10 s e = Inr (s', out)"
  shows "wf10 s' \<and> listen10 s' = listen10 s \<and> links10 s \<subseteq> links10 s' \<and> set (closed out) \<inter> fds10 s = {}"
proof (cases "le_fd e = listen10 s")
  case False
  with assms step_lb10_data [OF False] show ?thesis by (auto simp: forward_data10_def split: if_splits)
next
  case True
  show ?thesis
  proof (cases "joins10 s e")
    case False
    have "le_accept e \<notin> fds10 s \<and> le_socket e \<notin> fds10 s"
      using assms(1,2) by (auto simp: ok10_def wf10_def)
    with step_lb10_refuse [OF True False] assms show ?thesis by auto
  next
    case j: True
    then have lt: "count10 s < 1024"
      and s': "s' = s\<lparr>table10 := (table10 s)[count10 s := \<lparr>client10 = le_accept e, backend10 = le_socket e\<rparr>],
              count10 := Suc (count10 s), current10 := (current10 s + 1) mod 3\<rparr>" and out: "closed out = []"
      using step_lb10_join [OF assms(1) j] assms(3) by (auto split: if_splits)
    from lt assms(1) have l: "links10 s' = insert (le_accept e, le_socket e) (links10 s)"
      unfolding s' by (intro links10_join) (simp add: wf10_def)
    then have f: "fds10 s' = {le_accept e, le_socket e} \<union> fds10 s" by (auto simp: fds10_def)
    have new: "0 \<le> le_accept e" "0 \<le> le_socket e" "le_accept e \<notin> fds10 s" "le_socket e \<notin> fds10 s" "le_accept e \<noteq> le_socket e"
      "le_accept e \<noteq> listen10 s" "le_socket e \<noteq> listen10 s"
      using assms(2) j by (auto simp: ok10_def joins10_def)
    have "wf10 s'" using assms(1) new lt f
      by (auto simp: wf10_def s' nth_list_update less_Suc_eq fds10_nth)
    with l out s' show ?thesis by auto
  qed
qed

interpretation balancer10: round_robin step_lb10 current10 joins10 3
proof
  fix s s' e out
  assume st: "step_lb10 s e = Inr (s', out)"
  show "current10 s' = (if joins10 s e then (current10 s + 1) mod 3 else current10 s)"
    using st
    by (auto simp: step_lb10_def accept10_def joins10_def connect_backend10_def MAX_BACKENDS10_def Let_def bindR_eq_Inr
        split: if_splits)
qed simp

section \<open>Runs\<close>

text \<open>The bytes read from a descriptor during a run.\<close>

definition read_from :: "int \<Rightarrow> lb_event list \<Rightarrow> string" where
  "read_from fd es = concat (map (\<lambda>e. if le_fd e = fd then rd_data (le_read e) else []) es)"

lemma read_from_simps [simp]:
  "read_from fd [] = []"
  "read_from fd (e # es) = (if le_fd e = fd then rd_data (le_read e) else []) @ read_from fd es"
  by (simp_all add: read_from_def)

lemma sent_to_forward: "sent_to p (forward_data10 q r) = (if p = q then rd_data r else [])"
proof -
  have "rd_len r \<le> 0 \<Longrightarrow> rd_data r = []" by (cases r) auto
  then show ?thesis by (simp add: forward_data10_def sent_to_def)
qed

lemma step_lb10_sent:
  assumes wf: "wf10 s" and ok: "ok10 s e" and st: "step_lb10 s e = Inr (s', out)" and link: "(c, b) \<in> links10 s"
  shows "sent_to b out = (if le_fd e = c then rd_data (le_read e) else [])"
    and "sent_to c out = (if le_fd e = b then rd_data (le_read e) else [])"
proof -
  have mem: "c \<in> fds10 s" "b \<in> fds10 s" using link by (force simp: fds10_def)+
  have neq: "c \<noteq> listen10 s" "b \<noteq> listen10 s" "0 \<le> c" "0 \<le> b" using wf mem by (auto simp: wf10_def)
  note pc = paired10_link [OF wf link]
  have "sent_to b out = (if le_fd e = c then rd_data (le_read e) else []) \<and> sent_to c out = (if le_fd e = b then rd_data (le_read e) else [])"
  proof (cases "le_fd e = listen10 s")
    case True
    have "sends out = []"
    proof (cases "joins10 s e")
      case False
      with step_lb10_refuse [OF True False] st show ?thesis by auto
    next
      case j: True
      with step_lb10_join [OF wf j] st show ?thesis by (auto split: if_splits)
    qed
    with True neq show ?thesis by (auto simp: sent_to_def)
  next
    case False
    with ok have "le_fd e \<in> fds10 s" by (simp add: ok10_def)
    then obtain c1 b1 where l1: "(c1, b1) \<in> links10 s" "le_fd e = c1 \<or> le_fd e = b1" by (auto simp: fds10_def)
    note p1 = paired10_link [OF wf l1(1)]
    have "c1 \<in> fds10 s" "b1 \<in> fds10 s" using l1(1) by (force simp: fds10_def)+
    then have "0 \<le> paired10 s (le_fd e)" using l1(2) p1 wf by (auto simp: wf10_def)
    then have out: "out = forward_data10 (paired10 s (le_fd e)) (le_read e)"
      using step_lb10_data [OF False] st by simp
    have "b = paired10 s (le_fd e) \<longleftrightarrow> le_fd e = c" "c = paired10 s (le_fd e) \<longleftrightarrow> le_fd e = b"
      using l1(2) p1 pc by metis+
    then show ?thesis unfolding out sent_to_forward by auto
  qed
  then show "sent_to b out = (if le_fd e = c then rd_data (le_read e) else [])"
    and "sent_to c out = (if le_fd e = b then rd_data (le_read e) else [])" by blast+
qed

lemma run_lb10:
  "wf10 s \<Longrightarrow> env_run ok10 step_lb10 s es \<Longrightarrow> run step_lb10 s es = Inr (s', out) \<Longrightarrow>
     wf10 s' \<and> links10 s \<subseteq> links10 s' \<and> set (closed out) \<inter> fds10 s = {}
     \<and> (\<forall>(c, b) \<in> links10 s. sent_to b out = read_from c es \<and> sent_to c out = read_from b es)
     \<and> count10 s' = count10 s + length (picks step_lb10 current10 joins10 s es)"
proof (induction es arbitrary: s out)
  case Nil
  then show ?case by simp
next
  case (Cons e es)
  then obtain s1 o1 o2 where st: "step_lb10 s e = Inr (s1, o1)" and r: "run step_lb10 s1 es = Inr (s', o2)"
    and out: "out = o1 @ o2"
    by (auto simp: run_Cons_Inr simp del: run.simps)
  with Cons.prems have ok: "ok10 s e" and env: "env_run ok10 step_lb10 s1 es" by auto
  from step_lb10_wf [OF Cons.prems(1) ok st] have w: "wf10 s1" "links10 s \<subseteq> links10 s1" "set (closed o1) \<inter> fds10 s = {}" by auto
  note ih = Cons.IH [OF w(1) env r]
  have c: "count10 s1 = count10 s + (if joins10 s e then 1 else 0)"
    using st by (auto simp: step_lb10_def accept10_def joins10_def connect_backend10_def Let_def bindR_eq_Inr split: if_splits)
  have f: "fds10 s \<subseteq> fds10 s1" using w(2) by (auto simp: fds10_def)
  have "sent_to b out = read_from c (e # es) \<and> sent_to c out = read_from b (e # es)" if "(c, b) \<in> links10 s" for c b
  proof -
    have "sent_to b o2 = read_from c es \<and> sent_to c o2 = read_from b es" using ih w(2) that by blast
    with step_lb10_sent [OF Cons.prems(1) ok st that] out show ?thesis by simp
  qed
  moreover have "links10 s \<subseteq> links10 s'" using ih w(2) by blast
  moreover have "set (closed out) \<inter> fds10 s = {}" using ih w(3) f out by auto
  moreover have "count10 s' = count10 s + length (picks step_lb10 current10 joins10 s (e # es))" using ih c st by simp
  ultimately show ?case using ih by blast
qed

lemma run_refused:
  "\<forall>e \<in> set es. le_connect e = Refused \<Longrightarrow> run step_lb10 s es = Inr (s', out) \<Longrightarrow>
     s' = s \<and> {le_accept e | e. e \<in> set es \<and> le_fd e = listen10 s \<and> 0 \<le> le_accept e} \<subseteq> set (closed out)"
proof (induction es arbitrary: out)
  case Nil
  then show ?case by simp
next
  case (Cons e es)
  then obtain s1 o1 o2 where st: "step_lb10 s e = Inr (s1, o1)" and r: "run step_lb10 s1 es = Inr (s', o2)"
    and out: "out = o1 @ o2"
    by (auto simp: run_Cons_Inr simp del: run.simps)
  have nj: "\<not> joins10 s e" using Cons.prems(1) by (simp add: joins10_def)
  have "s1 = s \<and> (le_fd e = listen10 s \<longrightarrow> 0 \<le> le_accept e \<longrightarrow> le_accept e \<in> set (closed o1))"
  proof (cases "le_fd e = listen10 s")
    case True
    with step_lb10_refuse [OF True nj] st show ?thesis by auto
  next
    case False
    with step_lb10_data [OF False] st show ?thesis by auto
  qed
  with Cons.IH [of o2] Cons.prems(1) r out show ?case by auto
qed

section \<open>Properties\<close>


text \<open>
  C26: the limits of the stream balancer. The table only grows: after a run it has as many more entries
  as connections were made, since a client that has gone is never removed (an end of file changes
  nothing and closes nothing). Inside the bounds nothing faults; with 1024 entries the next connection
  is written behind the array. And a backend that refuses stays the chosen one: as long as it refuses, every
  client is turned away, although the other backends may be up.
\<close>

theorem lb10_limits:
  assumes "wf10 s" and "ok10 s e"
  shows "(\<forall>es s' out. env_run ok10 step_lb10 s es \<longrightarrow> run step_lb10 s es = Inr (s', out) \<longrightarrow>
        wf10 s' \<and> count10 s' = count10 s + length (picks step_lb10 current10 joins10 s es))
    \<and> (le_fd e \<noteq> listen10 s \<longrightarrow> rd_len (le_read e) \<le> 0 \<longrightarrow> step_lb10 s e = Inr (s, []))
    \<and> (is_fault (step_lb10 s e) \<longleftrightarrow> joins10 s e \<and> count10 s = 1024)
    \<and> (\<forall>es s' out. (\<forall>e \<in> set es. le_connect e = Refused) \<longrightarrow> run step_lb10 s es = Inr (s', out) \<longrightarrow>
        s' = s \<and> {le_accept e | e. e \<in> set es \<and> le_fd e = listen10 s \<and> 0 \<le> le_accept e} \<subseteq> set (closed out))"
proof (intro conjI)
  show "\<forall>es s' out. env_run ok10 step_lb10 s es \<longrightarrow> run step_lb10 s es = Inr (s', out) \<longrightarrow>
        wf10 s' \<and> count10 s' = count10 s + length (picks step_lb10 current10 joins10 s es)"
    using run_lb10 [OF assms(1)] by blast
  show "le_fd e \<noteq> listen10 s \<longrightarrow> rd_len (le_read e) \<le> 0 \<longrightarrow> step_lb10 s e = Inr (s, [])"
    by (simp add: step_lb10_data forward_data10_def)
  show "is_fault (step_lb10 s e) \<longleftrightarrow> joins10 s e \<and> count10 s = 1024"
  proof (cases "joins10 s e")
    case True
    with step_lb10_join [OF assms(1) True] assms(1) show ?thesis by (auto simp: wf10_def)
  next
    case False
    with step_lb10_refuse [of e s] step_lb10_data [of e s] show ?thesis
      by (cases "le_fd e = listen10 s") auto
  qed
  show "\<forall>es s' out. (\<forall>e \<in> set es. le_connect e = Refused) \<longrightarrow> run step_lb10 s es = Inr (s', out) \<longrightarrow>
        s' = s \<and> {le_accept e | e. e \<in> set es \<and> le_fd e = listen10 s \<and> 0 \<le> le_accept e} \<subseteq> set (closed out)"
    using run_refused by blast
qed

definition demo_lb10 :: lb10 where
  "demo_lb10 = \<lparr>listen10 = 3, table10 = \<lparr>client10 = 5, backend10 = 6\<rparr> # replicate 1023 \<lparr>client10 = 0, backend10 = 0\<rparr>,
     count10 = 1, current10 = 1\<rparr>"

lemma demo_lb10_facts: "wf10 demo_lb10" "links10 demo_lb10 = {(5, 6)}" "fds10 demo_lb10 = {5, 6}"
proof -
  show l: "links10 demo_lb10 = {(5, 6)}" by (auto simp: links10_def demo_lb10_def)
  then show f: "fds10 demo_lb10 = {5, 6}" by (simp add: fds10_def insert_commute)
  show "wf10 demo_lb10" by (simp add: wf10_def f) (simp add: demo_lb10_def)
qed

definition data10 :: "int \<Rightarrow> rd \<Rightarrow> lb_event" where
  "data10 fd r = \<lparr>le_fd = fd, le_accept = -1, le_socket = -1, le_connect = Connected, le_read = r\<rparr>"


theorem lb10_limits_witness:
  "step_lb10 demo_lb10 (data10 5 Eof) = Inr (demo_lb10, []) \<and> \<not> is_fault (step_lb10 demo_lb10 (data10 5 Eof))"
proof -
  have "ok10 demo_lb10 (data10 5 Eof)" by (simp add: ok10_def data10_def demo_lb10_facts rd_ok_def)
  from lb10_limits [OF demo_lb10_facts(1) this] show ?thesis
    by (simp add: data10_def demo_lb10_def joins10_def)
qed

end
