(* ===== verification/Balance11_Kqueue.thy ===== *)
theory Balance11_Kqueue
  imports Balance10_Epoll
begin

text \<open>
  \<^verbatim>\<open>03_networking/lab_11_kqueue_load_balancer/load_balancer_kq.c\<close>: the stream balancer on \<^verbatim>\<open>kqueue\<close>, and its
  equivalence with the one on \<^verbatim>\<open>epoll\<close>. The events are those of the other balancer: an entry that \<^verbatim>\<open>kevent\<close> or
  \<^verbatim>\<open>epoll_wait\<close> fills in, and the results of the calls made for it.
\<close>

section \<open>The model\<close>

definition LB_PORT11 :: int where "LB_PORT11 = 7070"
definition MAX_BACKENDS11 :: nat where "MAX_BACKENDS11 = 3"

record lb11 =
  conns11 :: "(int \<times> int) list"
  count11 :: nat
  current11 :: nat
  listen11 :: int

definition make_nonblocking11 :: "int \<Rightarrow> sys list" where
  "make_nonblocking11 fd = [Nonblock fd]"

definition connect_backend11 :: "int \<Rightarrow> int \<Rightarrow> conn_ans \<Rightarrow> int \<times> sys list" where
  "connect_backend11 port fd ans =
     (if fd < 0 then (-1, [Socket_stream])
      else case ans of
          Refused \<Rightarrow> (-1, [Socket_stream, Connect fd port, Close fd])
        | In_progress \<Rightarrow> (fd, [Socket_stream, Connect fd port] @ make_nonblocking11 fd)
        | Connected \<Rightarrow> (fd, [Socket_stream, Connect fd port] @ make_nonblocking11 fd))"

definition forward_data11 :: "int \<Rightarrow> rd \<Rightarrow> sys list" where
  "forward_data11 dst_fd r = (if rd_len r \<le> 0 then [] else [Send dst_fd (rd_data r)])"

text \<open>The loop over the table, one entry at a time.\<close>

primrec paired11 :: "(int \<times> int) list \<Rightarrow> int \<Rightarrow> nat \<Rightarrow> int" where
  "paired11 t fd 0 = -1"
| "paired11 t fd (Suc j) =
     (if fst (t ! j) = fd then snd (t ! j) else if snd (t ! j) = fd then fst (t ! j) else paired11 t fd j)"

definition accept11 :: "lb11 \<Rightarrow> lb_event \<Rightarrow> (lb11 \<times> sys list) res" where
  "accept11 s e =
     (if le_accept e < 0 then Inr (s, [])
      else
        let backend_port = [8000, 8001, 8002] ! current11 s;
            (bfd, o1) = connect_backend11 backend_port (le_socket e) (le_connect e)
        in if bfd < 0 then Inr (s, make_nonblocking11 (le_accept e) @ o1 @ [Close (le_accept e)])
           else if count11 s < length (conns11 s)
           then Inr (s\<lparr>conns11 := (conns11 s)[count11 s := (le_accept e, bfd)], count11 := count11 s + 1,
                       current11 := (current11 s + 1) mod MAX_BACKENDS11\<rparr>,
             make_nonblocking11 (le_accept e) @ o1
             @ [Print (''[LB:kqueue] Client connected '' @ arrow @ '' Backend '' @ show_int backend_port @ nl),
                Kevent_add (le_accept e), Kevent_add bfd])
           else Inl Out_of_bounds)"

definition step_lb11 :: "lb11 \<Rightarrow> lb_event \<Rightarrow> (lb11 \<times> sys list) res" where
  "step_lb11 s e =
     (if le_fd e = listen11 s then accept11 s e
      else let paired_fd = paired11 (conns11 s) (le_fd e) (count11 s)
           in Inr (s, if 0 \<le> paired_fd then forward_data11 paired_fd (le_read e) else []))"

definition setup_lb11 :: "int \<Rightarrow> int \<Rightarrow> int \<Rightarrow> lb11 option \<times> sys list" where
  "setup_lb11 listen_fd bind_ret kq =
     (if listen_fd < 0 then (None, [Socket_stream, Perror ''socket'', Exit 1])
      else let o1 = [Socket_stream, Reuseaddr listen_fd, Bind listen_fd LB_PORT11]
           in if bind_ret < 0 then (None, o1 @ [Perror ''bind'', Exit 1])
              else let o2 = o1 @ [Listen listen_fd 64] @ make_nonblocking11 listen_fd
                       @ [Print (''[LB:kqueue] Listening on TCP port '' @ show_int LB_PORT11 @ nl), Kqueue]
                   in if kq = -1 then (None, o2 @ [Perror ''kqueue'', Exit 1])
                      else (Some \<lparr>conns11 = replicate 1024 (0, 0), count11 = 0, current11 = 0, listen11 = listen_fd\<rparr>,
                            o2 @ [Kevent_add listen_fd]))"

section \<open>From one balancer to the other\<close>

text \<open>The states correspond, and so do the calls: the registration of a descriptor, and the printed tag.\<close>

definition kq_state :: "lb10 \<Rightarrow> lb11" where
  "kq_state s = \<lparr>conns11 = map (\<lambda>c. (client10 c, backend10 c)) (table10 s), count11 = count10 s,
     current11 = current10 s, listen11 = listen10 s\<rparr>"

fun kq_call :: "sys \<Rightarrow> sys" where
  "kq_call (Epoll_add fd et) = Kevent_add fd"
| "kq_call Epoll_create = Kqueue"
| "kq_call (Print t) = Print (''[LB:kqueue]'' @ drop 4 t)"
| "kq_call c = c"

definition kq_res :: "(lb10 \<times> sys list) res \<Rightarrow> (lb11 \<times> sys list) res" where
  "kq_res r = bindR r (\<lambda>(s, out). Inr (kq_state s, map kq_call out))"

lemma kq_res_simps [simp]:
  "kq_res (Inr (s, out)) = Inr (kq_state s, map kq_call out)"
  "kq_res (Inl err) = Inl err"
  by (simp_all add: kq_res_def)

lemma paired11_fold:
  "n \<le> length (table10 s) \<Longrightarrow> paired11 (conns11 (kq_state s)) fd n =
     fold (\<lambda>j p. if client10 (table10 s ! j) = fd then backend10 (table10 s ! j)
         else if backend10 (table10 s ! j) = fd then client10 (table10 s ! j) else p) [0..<n] (-1)"
  by (induction n) (auto simp: kq_state_def)

lemma connect_backend11_eq: "map kq_call (snd (connect_backend10 p fd a)) = snd (connect_backend11 p fd a)"
  "fst (connect_backend10 p fd a) = fst (connect_backend11 p fd a)"
  by (auto simp: connect_backend10_def connect_backend11_def make_nonblocking10_def make_nonblocking11_def
      split: conn_ans.splits)

lemma accept11_eq: "accept11 (kq_state s) e = kq_res (accept10 s e)"
proof (cases "0 \<le> le_accept e \<and> 0 \<le> fst (connect_backend10 (backend_port10 (current10 s)) (le_socket e) (le_connect e))")
  case False
  then show ?thesis
    using connect_backend11_eq [of "backend_port10 (current10 s)" "le_socket e" "le_connect e"]
    by (auto simp: accept11_def accept10_def Let_def backend_port10_def kq_state_def make_nonblocking10_def
        make_nonblocking11_def split: prod.splits)
next
  case True
  then show ?thesis
    using connect_backend11_eq [of "backend_port10 (current10 s)" "le_socket e" "le_connect e"]
    by (auto simp: accept11_def accept10_def Let_def backend_port10_def kq_state_def make_nonblocking10_def
        make_nonblocking11_def arr_set_def map_update MAX_BACKENDS10_def MAX_BACKENDS11_def split: prod.splits)
qed

lemma step_lb11_eq:
  assumes "count10 s \<le> length (table10 s)"
  shows "step_lb11 (kq_state s) e = kq_res (step_lb10 s e)"
proof (cases "le_fd e = listen10 s")
  case True
  then show ?thesis by (simp add: step_lb11_def step_lb10_def accept11_eq) (simp add: kq_state_def)
next
  case False
  have "paired11 (conns11 (kq_state s)) (le_fd e) (count10 s) = paired10 s (le_fd e)"
    using paired11_fold [OF assms] by (simp add: paired10_def)
  moreover have "count11 (kq_state s) = count10 s" "listen11 (kq_state s) = listen10 s" by (simp_all add: kq_state_def)
  ultimately show ?thesis using False
    by (simp add: step_lb11_def step_lb10_def forward_data11_def forward_data10_def)
qed

lemma step_lb10_count:
  assumes "count10 s \<le> length (table10 s)" and "step_lb10 s e = Inr (s', out)"
  shows "count10 s' \<le> length (table10 s')"
proof (cases "s' = s")
  case False
  with assms(2) obtain t where "arr_set (table10 s) (count10 s) \<lparr>client10 = le_accept e, backend10 = fst (connect_backend10
      (backend_port10 (current10 s)) (le_socket e) (le_connect e))\<rparr> = Inr t"
    and "table10 s' = t" "count10 s' = Suc (count10 s)"
    by (auto simp: step_lb10_def accept10_def Let_def bindR_eq_Inr split: if_splits prod.splits)
  then show ?thesis by (auto simp: arr_set_eq_Inr)
qed (use assms in simp)

section \<open>Properties\<close>

text \<open>
  C27: the \<^verbatim>\<open>kqueue\<close> balancer does what the \<^verbatim>\<open>epoll\<close> balancer does. On the same events, from corresponding
  states, the two runs fault on the same inputs, end in corresponding states and make the same calls up
  to the way descriptors are registered and the tag of the printed lines; the set-ups agree as well, but for
  the failure of \<^verbatim>\<open>kqueue\<close>, which only the newer program checks.
\<close>

theorem kqueue_equivalence:
  assumes "count10 s \<le> length (table10 s)"
  shows "run step_lb11 (kq_state s) es = kq_res (run step_lb10 s es)
    \<and> (kq \<noteq> -1 \<longrightarrow> setup_lb11 fd b kq = (map_option kq_state (fst (setup_lb10 fd b)), map kq_call (snd (setup_lb10 fd b))))"
proof
  show "run step_lb11 (kq_state s) es = kq_res (run step_lb10 s es)"
    using assms
  proof (induction es arbitrary: s)
    case Nil
    then show ?case by simp
  next
    case (Cons e es)
    note st = step_lb11_eq [OF Cons.prems, of e]
    show ?case
    proof (cases "step_lb10 s e")
      case (Inl err)
      with st show ?thesis by simp
    next
      case (Inr p)
      then obtain s1 o1 where s1: "step_lb10 s e = Inr (s1, o1)" by (cases p) auto
      from Cons.IH [OF step_lb10_count [OF Cons.prems s1]] st s1 show ?thesis
        by (cases "run step_lb10 s1 es") auto
    qed
  qed
  show "kq \<noteq> -1 \<longrightarrow> setup_lb11 fd b kq = (map_option kq_state (fst (setup_lb10 fd b)), map kq_call (snd (setup_lb10 fd b)))"
    by (auto simp: setup_lb11_def setup_lb10_def Let_def make_nonblocking10_def make_nonblocking11_def LB_PORT10_def
        LB_PORT11_def kq_state_def map_replicate)
qed

theorem kqueue_equivalence_witness:
  "run step_lb11 (kq_state demo_lb10) [data10 5 (Got ''ab'')] = Inr (kq_state demo_lb10, [Send 6 ''ab''])"
proof -
  have c: "count10 demo_lb10 \<le> length (table10 demo_lb10)" by (simp add: demo_lb10_def)
  have "run step_lb10 demo_lb10 [data10 5 (Got ''ab'')] = Inr (demo_lb10, [Send 6 ''ab''])"
    by (simp add: step_lb10_def data10_def demo_lb10_def paired10_def forward_data10_def)
  with conjunct1 [OF kqueue_equivalence [OF c, of "[data10 5 (Got ''ab'')]" 0 0 0]] show ?thesis
    by simp
qed

end
