(* ===== verification/Balance13_Async.thy ===== *)
theory Balance13_Async
  imports Balance10_Epoll
begin

text \<open>
  \<^verbatim>\<open>03_networking/lab_13_async_load_balancer/src/load_balancer.c\<close>: the edge-triggered balancer, which keeps its
  connections in an array indexed by descriptor. The member \<^verbatim>\<open>buffer\<close> of an entry and its length are
  never used and are left out. The events are those of the other stream balancers.
\<close>

section \<open>The model\<close>

definition MAX_EVENTS13 :: nat where "MAX_EVENTS13 = 128"
definition BACKEND_COUNT13 :: nat where "BACKEND_COUNT13 = 3"

record conn13 =
  client13 :: int
  backend13 :: int

record lb13 =
  listen13 :: int
  next13 :: nat
  conns13 :: "conn13 list"

definition make_socket_nonblocking13 :: "int \<Rightarrow> sys list" where
  "make_socket_nonblocking13 fd = [Nonblock fd]"

definition create_backend_connection13 :: "int \<Rightarrow> int \<Rightarrow> conn_ans \<Rightarrow> int \<times> sys list" where
  "create_backend_connection13 port fd ans =
     (let o1 = [Socket_stream] @ make_socket_nonblocking13 fd @ [Connect fd port]
      in if ans = Refused then (-1, o1 @ [Perror ''connect backend'', Close fd]) else (fd, o1))"

text \<open>\<^verbatim>\<open>connections[i].client_fd = c; connections[i].backend_fd = b;\<close>\<close>

definition set_entry13 :: "int \<Rightarrow> int \<Rightarrow> int \<Rightarrow> conn13 list \<Rightarrow> conn13 list res" where
  "set_entry13 i c b t = arr_set_int t i \<lparr>client13 = c, backend13 = b\<rparr>"

definition accept13 :: "lb13 \<Rightarrow> lb_event \<Rightarrow> (lb13 \<times> sys list) res" where
  "accept13 s e =
     (let client_fd = le_accept e;
          (backend_fd, o1) = create_backend_connection13 ([9001, 9002, 9003] ! next13 s) (le_socket e) (le_connect e);
          s1 = s\<lparr>next13 := (next13 s + 1) mod BACKEND_COUNT13\<rparr>;
          o2 = make_socket_nonblocking13 client_fd @ o1
      in if backend_fd < 0 then Inr (s1, o2 @ [Close client_fd])
         else bindR (set_entry13 client_fd client_fd backend_fd (conns13 s)) (\<lambda>t.
           bindR (set_entry13 backend_fd client_fd backend_fd t) (\<lambda>t'.
             Inr (s1\<lparr>conns13 := t'\<rparr>,
               o2 @ make_socket_nonblocking13 backend_fd
               @ [Epoll_add client_fd True, Epoll_add backend_fd True,
                  Print (''[LB] New client '' @ show_int client_fd @ '' connected to backend '' @ show_int backend_fd @ nl)]))))"

definition peer13 :: "conn13 list \<Rightarrow> int \<Rightarrow> int res" where
  "peer13 t fd = bindR (arr_get_int t fd) (\<lambda>c. Inr (if client13 c = fd then backend13 c else client13 c))"

definition data13 :: "lb13 \<Rightarrow> int \<Rightarrow> rd \<Rightarrow> (lb13 \<times> sys list) res" where
  "data13 s fd r =
     bindR (peer13 (conns13 s) fd) (\<lambda>peer.
       Inr (s, if rd_len r \<le> 0 then [Close fd, Close peer, Epoll_del fd, Epoll_del peer] else [Send peer (rd_data r)]))"

definition step_lb13 :: "lb13 \<Rightarrow> lb_event \<Rightarrow> (lb13 \<times> sys list) res" where
  "step_lb13 s e = (if le_fd e = listen13 s then accept13 s e else data13 s (le_fd e) (le_read e))"

definition setup_lb13 :: "int \<Rightarrow> lb13 \<times> sys list" where
  "setup_lb13 listen_fd =
     (\<lparr>listen13 = listen_fd, next13 = 0, conns13 = replicate MAX_EVENTS13 \<lparr>client13 = 0, backend13 = 0\<rparr>\<rparr>,
      [Socket_stream] @ make_socket_nonblocking13 listen_fd
      @ [Bind listen_fd 8080, Listen listen_fd 128, Epoll_create, Epoll_add listen_fd False,
         Print (''[ASYNC LB] Listening on port '' @ show_int 8080 @ ''...'' @ nl)])"

section \<open>Pairs\<close>

definition entry13 :: "lb13 \<Rightarrow> int \<Rightarrow> int \<times> int" where
  "entry13 s fd = (client13 (conns13 s ! nat fd), backend13 (conns13 s ! nat fd))"

definition links13 :: "lb13 \<Rightarrow> (int \<times> int) set" where
  "links13 s = {(c, b). 0 \<le> c \<and> c < 128 \<and> 0 \<le> b \<and> b < 128 \<and> c \<noteq> b \<and> entry13 s c = (c, b) \<and> entry13 s b = (c, b)}"

definition wf13 :: "lb13 \<Rightarrow> bool" where
  "wf13 s \<longleftrightarrow> length (conns13 s) = 128 \<and> next13 s < 3"

lemma peer13_link:
  assumes "wf13 s" and "(c, b) \<in> links13 s"
  shows "peer13 (conns13 s) c = Inr b" and "peer13 (conns13 s) b = Inr c"
  using assms by (auto simp: peer13_def links13_def entry13_def arr_get_int_def arr_get_def wf13_def nat_less_iff)

lemma links13_disjoint:
  "(c, b) \<in> links13 s \<Longrightarrow> (c', b') \<in> links13 s \<Longrightarrow> {c, b} \<inter> {c', b'} \<noteq> {} \<Longrightarrow> c = c' \<and> b = b'"
  by (auto simp: links13_def)

definition fds13 :: "lb13 \<Rightarrow> int set" where
  "fds13 s = fst ` links13 s \<union> snd ` links13 s"

text \<open>
  The kernel's side: events come for descriptors of a pair in the table, \<^verbatim>\<open>connect\<close> fails on a
  descriptor that is none, and the two new descriptors differ.
\<close>

definition ok13 :: "lb13 \<Rightarrow> lb_event \<Rightarrow> bool" where
  "ok13 s e \<longleftrightarrow> le_fd e \<in> insert (listen13 s) (fds13 s) \<and> (le_socket e < 0 \<longrightarrow> le_connect e = Refused)
     \<and> (0 \<le> le_socket e \<longrightarrow> le_accept e \<noteq> le_socket e)"

definition uses13 :: "lb13 \<Rightarrow> lb_event \<Rightarrow> bool" where
  "uses13 s e \<longleftrightarrow> le_fd e = listen13 s"

interpretation balancer13: round_robin step_lb13 next13 uses13 3
proof
  fix s s' e out
  assume "step_lb13 s e = Inr (s', out)"
  then show "next13 s' = (if uses13 s e then (next13 s + 1) mod 3 else next13 s)"
    by (auto simp: step_lb13_def uses13_def accept13_def data13_def BACKEND_COUNT13_def Let_def bindR_eq_Inr
        split: if_splits prod.splits)
qed simp

text \<open>The outcomes of a step.\<close>

lemma step_lb13_join:
  assumes "wf13 s" and "ok13 s e" and "uses13 s e" and "le_connect e \<noteq> Refused"
  shows "is_fault (step_lb13 s e) \<longleftrightarrow> \<not> (0 \<le> le_accept e \<and> le_accept e < 128 \<and> le_socket e < 128)"
    and "step_lb13 s e = Inr (s', out) \<Longrightarrow>
      s' = s\<lparr>next13 := (next13 s + 1) mod 3,
             conns13 := (conns13 s)[nat (le_accept e) := \<lparr>client13 = le_accept e, backend13 = le_socket e\<rparr>,
                nat (le_socket e) := \<lparr>client13 = le_accept e, backend13 = le_socket e\<rparr>]\<rparr>
      \<and> sends out = [] \<and> closed out = []
      \<and> 0 \<le> le_accept e \<and> le_accept e < 128 \<and> 0 \<le> le_socket e \<and> le_socket e < 128"
proof -
  have sock: "0 \<le> le_socket e" using assms(2,4) by (auto simp: ok13_def)
  have len: "length (conns13 s) = 128" using assms(1) by (simp add: wf13_def)
  show "is_fault (step_lb13 s e) \<longleftrightarrow> \<not> (0 \<le> le_accept e \<and> le_accept e < 128 \<and> le_socket e < 128)"
    using assms(3,4) sock len
    by (auto simp: step_lb13_def accept13_def uses13_def create_backend_connection13_def set_entry13_def
        arr_set_int_def arr_set_def Let_def)
  show "s' = s\<lparr>next13 := (next13 s + 1) mod 3,
             conns13 := (conns13 s)[nat (le_accept e) := \<lparr>client13 = le_accept e, backend13 = le_socket e\<rparr>,
                nat (le_socket e) := \<lparr>client13 = le_accept e, backend13 = le_socket e\<rparr>]\<rparr>
      \<and> sends out = [] \<and> closed out = []
      \<and> 0 \<le> le_accept e \<and> le_accept e < 128 \<and> 0 \<le> le_socket e \<and> le_socket e < 128"
    if "step_lb13 s e = Inr (s', out)"
    using that assms(3,4) sock len
    by (auto simp: step_lb13_def accept13_def uses13_def create_backend_connection13_def set_entry13_def
        make_socket_nonblocking13_def BACKEND_COUNT13_def arr_set_int_eq_Inr Let_def bindR_eq_Inr)
qed

lemma step_lb13_refused:
  "uses13 s e \<Longrightarrow> le_connect e = Refused \<Longrightarrow> \<exists>out. step_lb13 s e = Inr (s\<lparr>next13 := (next13 s + 1) mod 3\<rparr>, out)
     \<and> sends out = [] \<and> closed out = [le_socket e, le_accept e]"
  by (simp add: step_lb13_def accept13_def uses13_def create_backend_connection13_def make_socket_nonblocking13_def
      BACKEND_COUNT13_def Let_def)

lemma step_lb13_data:
  assumes "wf13 s" and "(c, b) \<in> links13 s" and "le_fd e \<noteq> listen13 s" and "(le_fd e, p) \<in> {(c, b), (b, c)}"
  shows "step_lb13 s e = Inr (s, if rd_len (le_read e) \<le> 0
      then [Close (le_fd e), Close p, Epoll_del (le_fd e), Epoll_del p] else [Send p (rd_data (le_read e))])"
  using assms peer13_link [OF assms(1,2)] by (auto simp: step_lb13_def data13_def)

text \<open>One step as seen by a pair whose descriptors are not handed out again and which has no end of file.\<close>

definition quiet13 :: "int \<Rightarrow> int \<Rightarrow> lb_event \<Rightarrow> bool" where
  "quiet13 c b e \<longleftrightarrow> le_accept e \<notin> {c, b} \<and> le_socket e \<notin> {c, b}
     \<and> (le_fd e \<in> {c, b} \<longrightarrow> 0 < rd_len (le_read e))"

lemma step_lb13_pair:
  assumes wf: "wf13 s" and ok: "ok13 s e" and st: "step_lb13 s e = Inr (s', out)" and link: "(c, b) \<in> links13 s"
    and q: "quiet13 c b e" and l: "listen13 s \<notin> {c, b}"
  shows "wf13 s' \<and> listen13 s' = listen13 s \<and> (c, b) \<in> links13 s' \<and> c \<notin> set (closed out) \<and> b \<notin> set (closed out)
    \<and> sent_to b out = (if le_fd e = c then rd_data (le_read e) else [])
    \<and> sent_to c out = (if le_fd e = b then rd_data (le_read e) else [])"
proof (cases "uses13 s e")
  case True
  then have fd: "le_fd e \<noteq> c" "le_fd e \<noteq> b" using l by (auto simp: uses13_def)
  show ?thesis
  proof (cases "le_connect e = Refused")
    case ref: True
    from step_lb13_refused [OF True ref] st have "s' = s\<lparr>next13 := (next13 s + 1) mod 3\<rparr>" "sends out = []"
      "closed out = [le_socket e, le_accept e]" by auto
    with wf link q fd show ?thesis by (auto simp: wf13_def links13_def entry13_def quiet13_def sent_to_def)
  next
    case False
    note j = step_lb13_join(2) [OF wf ok True False st]
    have len: "length (conns13 s) = 128" using wf by (simp add: wf13_def)
    have cb: "0 \<le> c" "0 \<le> b" using link by (auto simp: links13_def)
    have new: "0 \<le> le_accept e" "0 \<le> le_socket e" using j by blast+
    have "le_accept e \<noteq> c" "le_accept e \<noteq> b" "le_socket e \<noteq> c" "le_socket e \<noteq> b" using q by (auto simp: quiet13_def)
    with new cb have "nat (le_accept e) \<noteq> nat c" "nat (le_accept e) \<noteq> nat b" "nat (le_socket e) \<noteq> nat c" "nat (le_socket e) \<noteq> nat b"
      by (simp_all add: eq_nat_nat_iff)
    then have "entry13 s' c = entry13 s c \<and> entry13 s' b = entry13 s b"
      using j by (simp add: entry13_def nth_list_update)
    with link have "(c, b) \<in> links13 s'" by (simp add: links13_def)
    moreover have "wf13 s'" "listen13 s' = listen13 s" using j len by (simp_all add: wf13_def)
    ultimately show ?thesis using j fd by (simp add: sent_to_def)
  qed
next
  case False
  then have nl: "le_fd e \<noteq> listen13 s" by (simp add: uses13_def)
  with ok obtain c1 b1 where l1: "(c1, b1) \<in> links13 s" and "le_fd e = c1 \<or> le_fd e = b1" by (auto simp: ok13_def fds13_def)
  then obtain p where p: "(le_fd e, p) \<in> {(c1, b1), (b1, c1)}" by blast
  from step_lb13_data [OF wf l1 nl p] st have s': "s' = s"
    and out: "out = (if rd_len (le_read e) \<le> 0
      then [Close (le_fd e), Close p, Epoll_del (le_fd e), Epoll_del p] else [Send p (rd_data (le_read e))])" by auto
  have neq: "c \<noteq> b" using link by (simp add: links13_def)
  show ?thesis
  proof (cases "(c1, b1) = (c, b)")
    case True
    with q p have pos: "\<not> rd_len (le_read e) \<le> 0" by (auto simp: quiet13_def)
    have "out = [Send p (rd_data (le_read e))]" unfolding out by (rule if_not_P [OF pos])
    with True p s' wf link neq show ?thesis by (auto simp: sent_to_def)
  next
    case False
    with links13_disjoint [OF l1 link] p have "le_fd e \<notin> {c, b} \<and> p \<notin> {c, b}" by auto
    with out s' wf link show ?thesis by (auto simp: sent_to_def)
  qed
qed

section \<open>Runs\<close>

lemma run_lb13:
  "wf13 s \<Longrightarrow> env_run ok13 step_lb13 s es \<Longrightarrow> run step_lb13 s es = Inr (s', out) \<Longrightarrow> (c, b) \<in> links13 s \<Longrightarrow>
     \<forall>e \<in> set es. quiet13 c b e \<Longrightarrow> listen13 s \<notin> {c, b} \<Longrightarrow>
     (c, b) \<in> links13 s' \<and> c \<notin> set (closed out) \<and> b \<notin> set (closed out)
     \<and> sent_to b out = read_from c es \<and> sent_to c out = read_from b es"
proof (induction es arbitrary: s out)
  case Nil
  then show ?case by simp
next
  case (Cons e es)
  then obtain s1 o1 o2 where st: "step_lb13 s e = Inr (s1, o1)" and r: "run step_lb13 s1 es = Inr (s', o2)"
    and out: "out = o1 @ o2"
    by (auto simp: run_Cons_Inr simp del: run.simps)
  from Cons.prems st have ok: "ok13 s e" and env: "env_run ok13 step_lb13 s1 es" and q: "quiet13 c b e" by auto
  note p = step_lb13_pair [OF Cons.prems(1) ok st Cons.prems(4) q Cons.prems(6)]
  have qs: "\<forall>e \<in> set es. quiet13 c b e" using Cons.prems(5) by simp
  have "wf13 s1" "(c, b) \<in> links13 s1" "listen13 s1 \<notin> {c, b}" using p Cons.prems(6) by auto
  from Cons.IH [OF this(1) env r this(2) qs this(3)] p out show ?case by simp
qed

definition event13 :: "int \<Rightarrow> int \<Rightarrow> int \<Rightarrow> rd \<Rightarrow> lb_event" where
  "event13 fd a b r = \<lparr>le_fd = fd, le_accept = a, le_socket = b, le_connect = Connected, le_read = r\<rparr>"

lemma reuse13:
  assumes wf: "wf13 s" and link: "(c, b) \<in> links13 s" and l: "listen13 s \<notin> {c, b}"
  shows "\<exists>s' out. run step_lb13 s [event13 c (-1) (-1) Eof, event13 (listen13 s) c b Fail, event13 b (-1) (-1) Fail] = Inr (s', out)
    \<and> closed out = [c, b, b, c]"
proof -
  have len: "length (conns13 s) = 128" using wf by (simp add: wf13_def)
  have cb: "0 \<le> c" "c < 128" "0 \<le> b" "b < 128" "c \<noteq> b" using link by (auto simp: links13_def)
  have 1: "step_lb13 s (event13 c (-1) (-1) Eof) = Inr (s, [Close c, Close b, Epoll_del c, Epoll_del b])"
    using step_lb13_data [OF wf link, of "event13 c (-1) (-1) Eof" b] l by (simp add: event13_def)
  have ok: "ok13 s (event13 (listen13 s) c b Fail)" using cb by (simp add: ok13_def event13_def)
  have u: "uses13 s (event13 (listen13 s) c b Fail)" "le_connect (event13 (listen13 s) c b Fail) \<noteq> Refused"
    by (simp_all add: uses13_def event13_def)
  have "\<not> is_fault (step_lb13 s (event13 (listen13 s) c b Fail))"
    using step_lb13_join(1) [OF wf ok u] cb by (simp add: event13_def)
  then obtain s1 o1 where 2: "step_lb13 s (event13 (listen13 s) c b Fail) = Inr (s1, o1)" by (auto simp: not_fault_iff)
  from step_lb13_join(2) [OF wf ok u 2]
  have s1: "s1 = s\<lparr>next13 := (next13 s + 1) mod 3, conns13 := (conns13 s)[nat c := \<lparr>client13 = c, backend13 = b\<rparr>,
      nat b := \<lparr>client13 = c, backend13 = b\<rparr>]\<rparr>" and o1: "closed o1 = []" by (simp_all add: event13_def)
  have "wf13 s1" using len by (simp add: s1 wf13_def)
  moreover have "(c, b) \<in> links13 s1"
    using cb len by (auto simp: links13_def entry13_def s1 nth_list_update nat_less_iff)
  moreover have "listen13 s1 = listen13 s" by (simp add: s1)
  ultimately have 3: "step_lb13 s1 (event13 b (-1) (-1) Fail) = Inr (s1, [Close b, Close c, Epoll_del b, Epoll_del c])"
    using step_lb13_data [of s1 c b "event13 b (-1) (-1) Fail" c] l by (simp add: event13_def)
  from 1 2 3 o1 show ?thesis by simp
qed

section \<open>Properties\<close>


definition demo_lb13 :: lb13 where
  "demo_lb13 = \<lparr>listen13 = 3, next13 = 0,
     conns13 = (replicate 128 \<lparr>client13 = 0, backend13 = 0\<rparr>)[5 := \<lparr>client13 = 5, backend13 = 6\<rparr>, 6 := \<lparr>client13 = 5, backend13 = 6\<rparr>]\<rparr>"


end
