(* ===== verification/Balance12_Fork.thy ===== *)
theory Balance12_Fork
  imports Balance09_Udp
begin

text \<open>
  \<^verbatim>\<open>03_networking/lab_12_load_balancer/src\<close>: the balancer that forks a child for each connection
  (\<^verbatim>\<open>load_balancer.c\<close>), its backend (\<^verbatim>\<open>backend_server.c\<close>) and its client (\<^verbatim>\<open>client.c\<close>), which lab 13 uses unchanged.
  An event is an entry of \<^verbatim>\<open>events\<close> with the results of the calls made for it; the parent is followed, and each
  child is recorded with what it does, which may be a fault.
\<close>

section \<open>The model\<close>

definition BACKEND_COUNT12 :: nat where "BACKEND_COUNT12 = 3"
definition LISTEN_PORT12 :: int where "LISTEN_PORT12 = 8080"

record lb12 =
  server12 :: int
  next12 :: nat

record conn_ev12 =
  fd12 :: int
  accept12 :: int
  socket12 :: int
  connect12 :: int
  fork12 :: int
  req12 :: rd
  resp12 :: rd

definition connect_to_backend12 :: "int \<Rightarrow> int \<Rightarrow> int \<Rightarrow> int \<times> sys list" where
  "connect_to_backend12 port fd ret =
     (if ret < 0 then (-1, [Socket_stream, Connect fd port, Perror ''connect_to_backend'', Close fd])
      else (fd, [Socket_stream, Connect fd port]))"

text \<open>
  \<^verbatim>\<open>write(fd, buf, n)\<close> with the \<open>n\<close> a read into \<open>buf\<close> has returned: \<open>-1\<close> becomes a huge size.
\<close>

definition write_back12 :: "int \<Rightarrow> rd \<Rightarrow> sys list res" where
  "write_back12 fd r = (if rd_len r < 0 then Inl Out_of_bounds else Inr [Send fd (rd_data r)])"

definition relay_child12 :: "int \<Rightarrow> int \<Rightarrow> rd \<Rightarrow> rd \<Rightarrow> sys list res" where
  "relay_child12 client_fd backend_fd r1 r2 =
     bindR (write_back12 backend_fd r1) (\<lambda>o1. bindR (write_back12 client_fd r2) (\<lambda>o2.
       Inr (o1 @ o2 @ [Close client_fd, Close backend_fd, Exit 0])))"

definition step_lb12 :: "lb12 \<Rightarrow> conn_ev12 \<Rightarrow> (lb12 \<times> sys list res act list) res" where
  "step_lb12 s e =
     (if fd12 e = server12 s
      then let client_fd = accept12 e; backend_port = [9001, 9002, 9003] ! next12 s;
               s' = s\<lparr>next12 := (next12 s + 1) mod BACKEND_COUNT12\<rparr>;
               (backend_fd, o1) = connect_to_backend12 backend_port (socket12 e) (connect12 e)
           in if backend_fd < 0 then Inr (s', map Call (o1 @ [Close client_fd]))
              else Inr (s', map Call (o1 @ [Fork])
                     @ (if 0 \<le> fork12 e then [Child (relay_child12 client_fd backend_fd (req12 e) (resp12 e))] else [])
                     @ map Call [Close client_fd, Close backend_fd])
      else Inr (s, []))"

definition setup_lb12 :: "int \<Rightarrow> lb12 \<times> sys list" where
  "setup_lb12 server_fd =
     (\<lparr>server12 = server_fd, next12 = 0\<rparr>,
      [Socket_stream, Bind server_fd LISTEN_PORT12, Listen server_fd 32, Epoll_create, Epoll_add server_fd False,
       Print (''[LOAD BALANCER] Listening on port '' @ show_int LISTEN_PORT12 @ ''...'' @ nl)])"

text \<open>The backend on one connection, and the client on its input and the result of its \<^verbatim>\<open>read\<close>.\<close>

definition backend_turn12 :: "int \<Rightarrow> int \<Rightarrow> rd \<Rightarrow> sys list res" where
  "backend_turn12 port client_fd r =
     (if 0 < rd_len r
      then bindR (terminate 1024 (rd_data r)) (\<lambda>buffer.
        Inr [Print (''[BACKEND:'' @ show_int port @ ''] Got: '' @ buffer @ nl), Send client_fd (rd_data r), Close client_fd])
      else Inr [Close client_fd])"

definition client12 :: "int \<Rightarrow> string \<Rightarrow> rd \<Rightarrow> sys list res" where
  "client12 sock inp r =
     (case fgets 100 inp of
        None \<Rightarrow> Inl Bad_pointer
      | Some (msg, rest) \<Rightarrow>
          if rd_len r < 0 then Inl Out_of_bounds
          else bindR (terminate 100 (rd_data r)) (\<lambda>buf.
            Inr [Socket_stream, Connect sock LISTEN_PORT12, Print ''Enter message: '', Send sock (cstr msg),
                 Print (''Response: '' @ buf @ nl), Close sock]))"

section \<open>The balancer\<close>

definition uses12 :: "lb12 \<Rightarrow> conn_ev12 \<Rightarrow> bool" where
  "uses12 s e \<longleftrightarrow> fd12 e = server12 s"

interpretation balancer12: round_robin step_lb12 next12 uses12 3
proof
  fix s s' e out
  assume "step_lb12 s e = Inr (s', out)"
  then show "next12 s' = (if uses12 s e then (next12 s + 1) mod 3 else next12 s)"
    by (auto simp: step_lb12_def uses12_def BACKEND_COUNT12_def Let_def split: if_splits prod.splits)
qed simp

lemma step_lb12_eq:
  assumes "uses12 s e" and "next12 s < 3"
  obtains (refused) out where "connect12 e < 0" "calls out = [Socket_stream, Connect (socket12 e) (9001 + int (next12 s)),
      Perror ''connect_to_backend'', Close (socket12 e), Close (accept12 e)]" "children out = []"
      "step_lb12 s e = Inr (s\<lparr>next12 := (next12 s + 1) mod 3\<rparr>, out)"
  | (no_socket) out where "0 \<le> connect12 e" "socket12 e < 0" "closed (calls out) = [accept12 e]" "children out = []"
      "step_lb12 s e = Inr (s\<lparr>next12 := (next12 s + 1) mod 3\<rparr>, out)"
  | (served) out where "0 \<le> connect12 e" "0 \<le> socket12 e" "calls out = [Socket_stream, Connect (socket12 e) (9001 + int (next12 s)),
      Fork, Close (accept12 e), Close (socket12 e)]"
      "children out = (if 0 \<le> fork12 e then [relay_child12 (accept12 e) (socket12 e) (req12 e) (resp12 e)] else [])"
      "step_lb12 s e = Inr (s\<lparr>next12 := (next12 s + 1) mod 3\<rparr>, out)"
proof -
  have p: "[9001, 9002, 9003] ! next12 s = 9001 + int (next12 s)"
    using assms(2) by (auto simp: numeral_3_eq_3 less_Suc_eq)
  show thesis
  proof (cases "connect12 e < 0")
    case True
    with assms p show thesis
      by (intro refused) (auto simp: step_lb12_def uses12_def connect_to_backend12_def BACKEND_COUNT12_def Let_def)
  next
    case False
    show thesis
    proof (cases "socket12 e < 0")
      case True
      with False assms p show thesis
        by (intro no_socket) (auto simp: step_lb12_def uses12_def connect_to_backend12_def BACKEND_COUNT12_def Let_def)
    next
      case sock: False
      with False assms p show thesis
        by (intro served) (auto simp: step_lb12_def uses12_def connect_to_backend12_def BACKEND_COUNT12_def Let_def)
    qed
  qed
qed

text \<open>The kernel's side: \<^verbatim>\<open>connect\<close> fails on a descriptor that is none.\<close>

definition ok12 :: "conn_ev12 \<Rightarrow> bool" where
  "ok12 e \<longleftrightarrow> (socket12 e < 0 \<longrightarrow> connect12 e < 0)"

definition served12 :: "conn_ev12 \<Rightarrow> bool" where
  "served12 e \<longleftrightarrow> 0 \<le> connect12 e \<and> 0 \<le> fork12 e"

lemma run_lb12:
  "next12 s < 3 \<Longrightarrow> \<forall>e \<in> set es. ok12 e \<Longrightarrow>
     \<exists>s' out. run step_lb12 s es = Inr (s', out) \<and> server12 s' = server12 s
       \<and> mset (closed (calls out)) = mset (concat (map (\<lambda>e. [accept12 e, socket12 e]) (filter (uses12 s) es)))
       \<and> children out = map (\<lambda>e. relay_child12 (accept12 e) (socket12 e) (req12 e) (resp12 e))
           (filter (\<lambda>e. uses12 s e \<and> served12 e) es)"
proof (induction es arbitrary: s)
  case Nil
  then show ?case by simp
next
  case (Cons e es)
  show ?case
  proof (cases "uses12 s e")
    case False
    then have st: "step_lb12 s e = Inr (s, [])" by (simp add: step_lb12_def uses12_def)
    have "\<forall>e \<in> set es. ok12 e" using Cons.prems(2) by simp
    from Cons.IH [OF Cons.prems(1) this] obtain s' o2 where "run step_lb12 s es = Inr (s', o2)" "server12 s' = server12 s"
      "mset (closed (calls o2)) = mset (concat (map (\<lambda>e. [accept12 e, socket12 e]) (filter (uses12 s) es)))"
      "children o2 = map (\<lambda>e. relay_child12 (accept12 e) (socket12 e) (req12 e) (resp12 e))
           (filter (\<lambda>e. uses12 s e \<and> served12 e) es)" by blast
    with st False show ?thesis by auto
  next
    case True
    let ?s = "s\<lparr>next12 := (next12 s + 1) mod 3\<rparr>"
    obtain o1 where st: "step_lb12 s e = Inr (?s, o1)" and c: "mset (closed (calls o1)) = {#accept12 e, socket12 e#}"
      and ch: "children o1 = (if served12 e then [relay_child12 (accept12 e) (socket12 e) (req12 e) (resp12 e)] else [])"
      using Cons.prems(2) by (cases rule: step_lb12_eq [OF True Cons.prems(1)]) (auto simp: ok12_def served12_def)
    have u: "uses12 ?s = uses12 s" by (simp add: uses12_def fun_eq_iff)
    have "next12 ?s < 3" by simp
    with Cons.IH [of ?s] Cons.prems(2) u obtain s' o2 where "run step_lb12 ?s es = Inr (s', o2)" "server12 s' = server12 s"
      "mset (closed (calls o2)) = mset (concat (map (\<lambda>e. [accept12 e, socket12 e]) (filter (uses12 s) es)))"
      "children o2 = map (\<lambda>e. relay_child12 (accept12 e) (socket12 e) (req12 e) (resp12 e))
           (filter (\<lambda>e. uses12 s e \<and> served12 e) es)" by auto
    with st c ch True show ?thesis by (auto simp: union_assoc)
  qed
qed

section \<open>Properties\<close>

text \<open>
  C28: the forking balancer. Over any run the parent never faults, gives each connection to the next port
  in rotation, also when the last one refused, and keeps no descriptor: it closes exactly the clients
  and backend sockets of the connections, each once, and starts one child per connection served. A
  child faults exactly when one of its reads fails (the \<open>-1\<close> is used as a length); otherwise it relays one
  request and one reply unchanged and closes both ends. With the backend of the lab, the client
  prints the line it was given.
\<close>

theorem lb12_serves:
  assumes "next12 s < 3" and "\<forall>e \<in> set es. ok12 e"
  shows "(\<exists>s' out. run step_lb12 s es = Inr (s', out)
      \<and> mset (closed (calls out)) = mset (concat (map (\<lambda>e. [accept12 e, socket12 e]) (filter (uses12 s) es)))
      \<and> children out = map (\<lambda>e. relay_child12 (accept12 e) (socket12 e) (req12 e) (resp12 e))
          (filter (\<lambda>e. uses12 s e \<and> served12 e) es))
    \<and> (\<forall>k < length (picks step_lb12 next12 uses12 s es). picks step_lb12 next12 uses12 s es ! k = (next12 s + k) mod 3)
    \<and> (is_fault (relay_child12 c b r1 r2) \<longleftrightarrow> r1 = Fail \<or> r2 = Fail)
    \<and> (r1 \<noteq> Fail \<longrightarrow> r2 \<noteq> Fail \<longrightarrow> (\<exists>out. relay_child12 c b r1 r2 = Inr out
        \<and> sends out = [(b, rd_data r1), (c, rd_data r2)] \<and> closed out = [c, b]))
    \<and> (fgets 100 inp = Some (msg, rest) \<longrightarrow> NUL \<notin> set msg \<longrightarrow>
        (\<exists>o1 o2 o3. backend_turn12 port bfd (Got msg) = Inr o1 \<and> sends o1 = [(bfd, msg)]
          \<and> relay_child12 c b (Got msg) (Got (snd (hd (sends o1)))) = Inr o2 \<and> sends o2 = [(b, msg), (c, msg)]
          \<and> client12 sock inp (Got (snd (sends o2 ! 1))) = Inr o3
          \<and> o3 = [Socket_stream, Connect sock 8080, Print ''Enter message: '', Send sock msg,
                  Print (''Response: '' @ msg @ nl), Close sock]))"
proof (intro conjI impI)
  show "\<exists>s' out. run step_lb12 s es = Inr (s', out)
      \<and> mset (closed (calls out)) = mset (concat (map (\<lambda>e. [accept12 e, socket12 e]) (filter (uses12 s) es)))
      \<and> children out = map (\<lambda>e. relay_child12 (accept12 e) (socket12 e) (req12 e) (resp12 e))
          (filter (\<lambda>e. uses12 s e \<and> served12 e) es)"
    using run_lb12 [OF assms] by blast
  show "\<forall>k < length (picks step_lb12 next12 uses12 s es). picks step_lb12 next12 uses12 s es ! k = (next12 s + k) mod 3"
    using balancer12.picks_cyclic [OF assms(1)] by blast
  have neg: "rd_len r < 0 \<longleftrightarrow> r = Fail" for r by (cases r) auto
  show "is_fault (relay_child12 c b r1 r2) \<longleftrightarrow> r1 = Fail \<or> r2 = Fail"
    by (simp add: relay_child12_def write_back12_def neg)
  show "\<exists>out. relay_child12 c b r1 r2 = Inr out \<and> sends out = [(b, rd_data r1), (c, rd_data r2)] \<and> closed out = [c, b]"
    if "r1 \<noteq> Fail" "r2 \<noteq> Fail"
    using that by (simp add: relay_child12_def write_back12_def neg)
  assume f: "fgets 100 inp = Some (msg, rest)" and n: "NUL \<notin> set msg"
  from fgets_length [OF _ f] have len: "length msg < 100" by simp
  from fgets_progress [OF _ f] fgets_split [OF f] have "0 < length msg" by auto
  with len n f show "\<exists>o1 o2 o3. backend_turn12 port bfd (Got msg) = Inr o1 \<and> sends o1 = [(bfd, msg)]
          \<and> relay_child12 c b (Got msg) (Got (snd (hd (sends o1)))) = Inr o2 \<and> sends o2 = [(b, msg), (c, msg)]
          \<and> client12 sock inp (Got (snd (sends o2 ! 1))) = Inr o3
          \<and> o3 = [Socket_stream, Connect sock 8080, Print ''Enter message: '', Send sock msg,
                  Print (''Response: '' @ msg @ nl), Close sock]"
    by (simp add: backend_turn12_def terminate_def relay_child12_def write_back12_def client12_def LISTEN_PORT12_def)
qed

theorem lb12_serves_witness:
  "\<exists>s' out. run step_lb12 \<lparr>server12 = 3, next12 = 2\<rparr>
       [\<lparr>fd12 = 3, accept12 = 5, socket12 = 6, connect12 = 0, fork12 = 77, req12 = Got ''hi'', resp12 = Fail\<rparr>,
        \<lparr>fd12 = 3, accept12 = 7, socket12 = 8, connect12 = -1, fork12 = 0, req12 = Eof, resp12 = Eof\<rparr>] = Inr (s', out)
     \<and> mset (closed (calls out)) = {#5, 6, 7, 8#} \<and> children out = [relay_child12 5 6 (Got ''hi'') Fail]"
proof -
  let ?s = "\<lparr>server12 = 3, next12 = 2\<rparr>"
  let ?es = "[\<lparr>fd12 = 3, accept12 = 5, socket12 = 6, connect12 = 0, fork12 = 77, req12 = Got ''hi'', resp12 = Fail\<rparr>,
        \<lparr>fd12 = 3, accept12 = 7, socket12 = 8, connect12 = -1, fork12 = 0, req12 = Eof, resp12 = Eof\<rparr>]"
  have "next12 ?s < 3" "\<forall>e \<in> set ?es. ok12 e" by (simp_all add: ok12_def)
  from conjunct1 [OF lb12_serves [OF this]] show ?thesis
    by (auto simp: uses12_def served12_def)
qed

end
