(* ===== verification/Backends.thy ===== *)
theory Backends
  imports Balance10_Epoll Balance12_Fork
begin

text \<open>
  The programs the load balancers of labs 09, 10 and 12 under \<^verbatim>\<open>03_networking\<close> forward to, as whole
  processes: the command line, the set-up and the loop over requests or connections. The answers
  themselves are in the theories of the balancers.
\<close>

section \<open>Command lines\<close>

text \<open>\<^verbatim>\<open>htons\<close> keeps the low 16 bits of the port.\<close>

definition htons :: "int \<Rightarrow> int" where
  "htons port = port mod 2 ^ 16"

definition usage_line :: "string \<Rightarrow> sys" where
  "usage_line prog = Eprint (''Usage: '' @ prog @ '' <port>'' @ nl)"

text \<open>
  Lab 09, with the results of \<^verbatim>\<open>socket\<close> and \<^verbatim>\<open>bind\<close>: the port of a process that goes on to its loop. Without
  even a program name, \<^verbatim>\<open>argv[0]\<close> is a null pointer.
\<close>

definition start_backend09 :: "string list \<Rightarrow> int \<Rightarrow> int \<Rightarrow> (int option \<times> sys list) res" where
  "start_backend09 argv sockfd bind_ret =
     (case argv of
        [] \<Rightarrow> Inl Bad_pointer
      | [prog, p] \<Rightarrow>
          bindR (atoi p) (\<lambda>port.
            if sockfd < 0 then Inr (None, [Socket_dgram, Perror ''socket'', Exit 1])
            else if bind_ret < 0
            then Inr (None, [Socket_dgram, Bind_dgram sockfd (htons port), Perror ''bind'', Exit 1])
            else Inr (Some port, [Socket_dgram, Bind_dgram sockfd (htons port),
                                  Print (''[BACKEND '' @ show_int port @ ''] Listening...'' @ nl)]))
      | prog # _ \<Rightarrow> Inr (None, [usage_line prog, Exit 1]))"

text \<open>Lab 10: nothing after the command line is tested.\<close>

definition start_backend10 :: "string list \<Rightarrow> int \<Rightarrow> (int option \<times> sys list) res" where
  "start_backend10 argv sfd =
     (case argv of
        [] \<Rightarrow> Inl Bad_pointer
      | [prog, p] \<Rightarrow>
          bindR (atoi p) (\<lambda>port.
            Inr (Some port, [Socket_stream, Bind sfd (htons port), Listen sfd 5,
                             Print (''[BACKEND '' @ show_int port @ ''] Listening...'' @ nl)]))
      | prog # _ \<Rightarrow> Inr (None, [usage_line prog, Exit 1]))"

text \<open>Lab 12: the port is optional and further arguments are ignored.\<close>

definition start_backend12 :: "string list \<Rightarrow> int \<Rightarrow> (int \<times> sys list) res" where
  "start_backend12 argv server_fd =
     bindR (case argv of prog # p # _ \<Rightarrow> atoi p | _ \<Rightarrow> Inr 9001) (\<lambda>port.
       Inr (port, [Socket_stream, Bind server_fd (htons port), Listen server_fd 5,
                   Print (''[BACKEND:'' @ show_int port @ ''] Listening...'' @ nl)]))"

section \<open>Loops\<close>

fun backend_loop09 :: "int \<Rightarrow> int \<Rightarrow> (rd \<times> addr) list \<Rightarrow> sys list res" where
  "backend_loop09 sockfd port [] = Inr []"
| "backend_loop09 sockfd port ((r, client_addr) # es) =
     bindR (backend09 sockfd port r client_addr) (\<lambda>o1.
       bindR (backend_loop09 sockfd port es) (\<lambda>o2. Inr (o1 @ o2)))"

fun backend_loop12 :: "int \<Rightarrow> (int \<times> rd) list \<Rightarrow> sys list res" where
  "backend_loop12 port [] = Inr []"
| "backend_loop12 port ((client_fd, r) # es) =
     bindR (backend_turn12 port client_fd r) (\<lambda>o1.
       bindR (backend_loop12 port es) (\<lambda>o2. Inr (o1 @ o2)))"

text \<open>The three processes, on the results of their calls.\<close>

definition backend_main09 :: "string list \<Rightarrow> int \<Rightarrow> int \<Rightarrow> (rd \<times> addr) list \<Rightarrow> sys list res" where
  "backend_main09 argv sockfd bind_ret es =
     bindR (start_backend09 argv sockfd bind_ret) (\<lambda>(p, o1).
       case p of None \<Rightarrow> Inr o1
       | Some port \<Rightarrow> bindR (backend_loop09 sockfd port es) (\<lambda>o2. Inr (o1 @ o2)))"

definition backend_main10 :: "string list \<Rightarrow> int \<Rightarrow> (int \<times> rd list) list \<Rightarrow> sys list res" where
  "backend_main10 argv sfd cs =
     bindR (start_backend10 argv sfd) (\<lambda>(p, o1).
       case p of None \<Rightarrow> Inr o1
       | Some port \<Rightarrow> bindR (backend_loop10 port cs) (\<lambda>o2. Inr (o1 @ o2)))"

definition backend_main12 :: "string list \<Rightarrow> int \<Rightarrow> (int \<times> rd) list \<Rightarrow> sys list res" where
  "backend_main12 argv server_fd es =
     bindR (start_backend12 argv server_fd) (\<lambda>(port, o1).
       bindR (backend_loop12 port es) (\<lambda>o2. Inr (o1 @ o2)))"

text \<open>
  The backends and the clients of labs 11 and 13 are the texts of labs 10 and 12, but for a blank line.
\<close>

definition backend_main11 :: "string list \<Rightarrow> int \<Rightarrow> (int \<times> rd list) list \<Rightarrow> sys list res" where
  "backend_main11 = backend_main10"

definition client_lb11 :: "int \<Rightarrow> int \<Rightarrow> (nat \<Rightarrow> rd) \<Rightarrow> string \<Rightarrow> sys list res" where
  "client_lb11 = client_lb10"

definition backend_main13 :: "string list \<Rightarrow> int \<Rightarrow> (int \<times> rd) list \<Rightarrow> sys list res" where
  "backend_main13 = backend_main12"

definition client13 :: "int \<Rightarrow> string \<Rightarrow> rd \<Rightarrow> sys list res" where
  "client13 = client12"

section \<open>What they answer\<close>

definition port_ok :: "int \<Rightarrow> bool" where
  "port_ok p \<longleftrightarrow> 0 \<le> p \<and> p < 2 ^ 16"

lemma port_ok_atoi: "port_ok p \<Longrightarrow> atoi (show_int p) = Inr p \<and> htons p = p"
  by (simp add: port_ok_def atoi_show_int htons_def int_min_def int_max_def)

text \<open>A request that can be answered: \<^verbatim>\<open>recvfrom\<close> failed, or at most 1023 bytes.\<close>

lemma backend_loop09_eq:
  "\<forall>(r, a) \<in> set es. length (rd_data r) \<le> 1023 \<Longrightarrow>
     \<exists>out. backend_loop09 sockfd port es = Inr out
       \<and> sendtos out = map (\<lambda>(r, a). (a, cstr (backend_reply 1024 port (cstr (rd_data r)))))
           (filter (\<lambda>(r, a). 0 \<le> rd_len r) es)"
proof (induction es)
  case Nil
  then show ?case by simp
next
  case (Cons e es)
  then obtain out where "backend_loop09 sockfd port es = Inr out"
    "sendtos out = map (\<lambda>(r, a). (a, cstr (backend_reply 1024 port (cstr (rd_data r))))) (filter (\<lambda>(r, a). 0 \<le> rd_len r) es)"
    by auto
  with Cons.prems show ?case
    by (cases e) (auto simp: backend09_def terminate_def BUF_SIZE09_def)
qed

lemma backend_loop12_eq:
  "\<forall>(fd, r) \<in> set es. length (rd_data r) \<le> 1023 \<Longrightarrow>
     \<exists>out. backend_loop12 port es = Inr out
       \<and> sends out = map (\<lambda>(fd, r). (fd, rd_data r)) (filter (\<lambda>(fd, r). 0 < rd_len r) es) \<and> closed out = map fst es"
proof (induction es)
  case Nil
  then show ?case by simp
next
  case (Cons e es)
  then obtain out where "backend_loop12 port es = Inr out"
    "sends out = map (\<lambda>(fd, r). (fd, rd_data r)) (filter (\<lambda>(fd, r). 0 < rd_len r) es)" "closed out = map fst es"
    by auto
  with Cons.prems show ?case
    by (cases e) (auto simp: backend_turn12_def terminate_def)
qed

text \<open>The reads of a connection before the one that ends it.\<close>

definition heard10 :: "rd list \<Rightarrow> rd list" where
  "heard10 rs = takeWhile (\<lambda>r. 0 < rd_len r) rs"

lemma serve10_eq:
  "\<forall>r \<in> set rs. length (rd_data r) \<le> 4095 \<Longrightarrow>
     \<exists>out. serve10 port cfd rs = Inr out \<and> closed out = [cfd]
       \<and> sends out = map (\<lambda>r. (cfd, backend_reply 4096 port (cstr (rd_data r)))) (heard10 rs)"
proof (induction rs)
  case Nil
  then show ?case by (simp add: heard10_def)
next
  case (Cons r rs)
  then obtain out where "serve10 port cfd rs = Inr out" "closed out = [cfd]"
    "sends out = map (\<lambda>r. (cfd, backend_reply 4096 port (cstr (rd_data r)))) (heard10 rs)"
    by auto
  with Cons.prems show ?case
    by (auto simp: heard10_def terminate_def BUF_SIZE10_def)
qed

lemma backend_loop10_eq:
  "\<forall>(cfd, rs) \<in> set cs. \<forall>r \<in> set rs. length (rd_data r) \<le> 4095 \<Longrightarrow>
     \<exists>out. backend_loop10 port cs = Inr out
       \<and> sends out = concat (map (\<lambda>(cfd, rs). map (\<lambda>r. (cfd, backend_reply 4096 port (cstr (rd_data r)))) (heard10 rs))
           (filter (\<lambda>(cfd, rs). 0 \<le> cfd) cs))
       \<and> closed out = filter (\<lambda>fd. 0 \<le> fd) (map fst cs)"
proof (induction cs)
  case Nil
  then show ?case by simp
next
  case (Cons c cs)
  obtain cfd rs where c: "c = (cfd, rs)" by (cases c)
  from Cons obtain out where "backend_loop10 port cs = Inr out"
    "sends out = concat (map (\<lambda>(cfd, rs). map (\<lambda>r. (cfd, backend_reply 4096 port (cstr (rd_data r)))) (heard10 rs))
       (filter (\<lambda>(cfd, rs). 0 \<le> cfd) cs))" "closed out = filter (\<lambda>fd. 0 \<le> fd) (map fst cs)"
    by auto
  moreover from Cons.prems c serve10_eq [of rs port cfd] obtain o1 where "serve10 port cfd rs = Inr o1" "closed o1 = [cfd]"
    "sends o1 = map (\<lambda>r. (cfd, backend_reply 4096 port (cstr (rd_data r)))) (heard10 rs)"
    by auto
  ultimately show ?case by (simp add: c)
qed

text \<open>
  Started with a port in decimal, a backend binds that port and answers every request it can read, in order: those
  of labs 09 and 10 with the text of the request behind a tag that names the port, cut to the buffer; that of lab 12
  with the bytes of the request as they are, and it closes every connection.
\<close>

theorem backends_answer:
  assumes "port_ok p" and "0 \<le> fd" and "0 \<le> bind_ret"
    and "\<forall>(r, a) \<in> set es. length (rd_data r) \<le> 1023"
    and "\<forall>(cfd, rs) \<in> set cs. \<forall>r \<in> set rs. length (rd_data r) \<le> 4095"
    and "\<forall>(cfd, r) \<in> set ts. length (rd_data r) \<le> 1023"
  shows "\<exists>out. backend_main09 [prog, show_int p] fd bind_ret es = Inr out \<and> Bind_dgram fd p \<in> set out
      \<and> sendtos out = map (\<lambda>(r, a). (a, cstr (backend_reply 1024 p (cstr (rd_data r))))) (filter (\<lambda>(r, a). 0 \<le> rd_len r) es)"
    and "\<exists>out. backend_main10 [prog, show_int p] fd cs = Inr out \<and> Bind fd p \<in> set out
      \<and> sends out = concat (map (\<lambda>(cfd, rs). map (\<lambda>r. (cfd, backend_reply 4096 p (cstr (rd_data r)))) (heard10 rs))
          (filter (\<lambda>(cfd, rs). 0 \<le> cfd) cs))
      \<and> closed out = filter (\<lambda>c. 0 \<le> c) (map fst cs)"
    and "\<exists>out. backend_main12 [prog, show_int p] fd ts = Inr out \<and> Bind fd p \<in> set out
      \<and> sends out = map (\<lambda>(c, r). (c, rd_data r)) (filter (\<lambda>(c, r). 0 < rd_len r) ts) \<and> closed out = map fst ts"
proof -
  note port = port_ok_atoi [OF assms(1)]
  show "\<exists>out. backend_main09 [prog, show_int p] fd bind_ret es = Inr out \<and> Bind_dgram fd p \<in> set out
      \<and> sendtos out = map (\<lambda>(r, a). (a, cstr (backend_reply 1024 p (cstr (rd_data r))))) (filter (\<lambda>(r, a). 0 \<le> rd_len r) es)"
    using backend_loop09_eq [OF assms(4), of fd p] port assms(2,3)
    by (auto simp: backend_main09_def start_backend09_def)
  show "\<exists>out. backend_main10 [prog, show_int p] fd cs = Inr out \<and> Bind fd p \<in> set out
      \<and> sends out = concat (map (\<lambda>(cfd, rs). map (\<lambda>r. (cfd, backend_reply 4096 p (cstr (rd_data r)))) (heard10 rs))
          (filter (\<lambda>(cfd, rs). 0 \<le> cfd) cs))
      \<and> closed out = filter (\<lambda>c. 0 \<le> c) (map fst cs)"
    using backend_loop10_eq [OF assms(5), of p] port by (auto simp: backend_main10_def start_backend10_def)
  show "\<exists>out. backend_main12 [prog, show_int p] fd ts = Inr out \<and> Bind fd p \<in> set out
      \<and> sends out = map (\<lambda>(c, r). (c, rd_data r)) (filter (\<lambda>(c, r). 0 < rd_len r) ts) \<and> closed out = map fst ts"
    using backend_loop12_eq [OF assms(6), of p] port by (auto simp: backend_main12_def start_backend12_def)
qed

text \<open>
  The backend of lab 10 does not notice that it could not bind its port: it says that it listens, and every
  \<^verbatim>\<open>accept\<close> fails, so that it goes round its loop for ever without a call that blocks.
\<close>

lemma backend10_unbound:
  "port_ok p \<Longrightarrow> backend_main10 [prog, show_int p] (-1) (replicate k (-1, [])) =
     Inr [Socket_stream, Bind (-1) p, Listen (-1) 5, Print (''[BACKEND '' @ show_int p @ ''] Listening...'' @ nl)]"
proof -
  have "backend_loop10 p (replicate k (-1, [])) = Inr []" by (induction k) auto
  then show "port_ok p \<Longrightarrow> ?thesis" by (simp add: backend_main10_def start_backend10_def port_ok_atoi)
qed

end
