(* ===== verification/Interleaving.thy ===== *)
theory Interleaving
  imports Main
begin

text \<open>
  Two processes over a shared state, as partial step functions: \<open>None\<close> where a process is blocked
  or has ended. A schedule says who takes each step, \<open>True\<close> for the parent. The locale states
  what the labs with a parent and a child have in common: an invariant every step keeps and a number
  of operations left that every step lowers.
\<close>

fun sched :: "('s \<Rightarrow> 's option) \<Rightarrow> ('s \<Rightarrow> 's option) \<Rightarrow> bool list \<Rightarrow> 's \<Rightarrow> 's option" where
  "sched p c [] s = Some s"
| "sched p c (b # bs) s = Option.bind (if b then p s else c s) (sched p c bs)"

text \<open>No step is possible.\<close>

definition stuck :: "('s \<Rightarrow> 's option) \<Rightarrow> ('s \<Rightarrow> 's option) \<Rightarrow> 's \<Rightarrow> bool" where
  "stuck p c s \<longleftrightarrow> p s = None \<and> c s = None"

lemma sched_append: "sched p c (as @ bs) s = Option.bind (sched p c as s) (sched p c bs)"
  by (induction as arbitrary: s) (auto split: bind_split)

lemma not_stuckE:
  assumes "\<not> stuck p c s"
  obtains b s1 where "(if b then p s else c s) = Some s1"
proof (cases "p s")
  case None
  with assms that [of False] show thesis by (auto simp: stuck_def)
next
  case (Some s1)
  with that [of True] show thesis by auto
qed

locale two_processes =
  fixes par :: "'s \<Rightarrow> 's option"
    and chi :: "'s \<Rightarrow> 's option"
    and ok :: "'s \<Rightarrow> bool"
    and left :: "'s \<Rightarrow> nat"
  assumes par_ok: "ok s \<Longrightarrow> par s = Some s' \<Longrightarrow> ok s' \<and> left s' < left s"
    and chi_ok: "ok s \<Longrightarrow> chi s = Some s' \<Longrightarrow> ok s' \<and> left s' < left s"
begin

lemma sched_ok: "ok s \<Longrightarrow> sched par chi bs s = Some s' \<Longrightarrow> ok s' \<and> length bs + left s' \<le> left s"
proof (induction bs arbitrary: s)
  case Nil
  then show ?case by simp
next
  case (Cons b bs)
  then obtain s1 where st: "(if b then par s else chi s) = Some s1" and r: "sched par chi bs s1 = Some s'"
    by (auto simp: bind_eq_Some_conv)
  from st Cons.prems(1) have "ok s1 \<and> left s1 < left s"
    by (cases b) (auto dest: par_ok chi_ok)
  with Cons.IH [OF _ r] show ?case by auto
qed

text \<open>Every schedule can be continued to one that ends where no step is possible.\<close>

lemma runs_to_stuck: "ok s \<Longrightarrow> \<exists>bs s'. sched par chi bs s = Some s' \<and> stuck par chi s'"
proof (induction "left s" arbitrary: s rule: less_induct)
  case less
  show ?case
  proof (cases "stuck par chi s")
    case True
    then show ?thesis by (intro exI [of _ "[]"]) simp
  next
    case False
    then obtain b s1 where st: "(if b then par s else chi s) = Some s1" by (rule not_stuckE)
    with less.prems have "ok s1 \<and> left s1 < left s" by (cases b) (auto dest: par_ok chi_ok)
    with less.hyps [of s1] obtain bs s' where "sched par chi bs s1 = Some s'" "stuck par chi s'" by auto
    with st show ?thesis by (intro exI [of _ "b # bs"]) simp
  qed
qed

end

text \<open>With one operation per step, the length of a schedule is known.\<close>

locale counted_processes = two_processes +
  assumes par_one: "ok s \<Longrightarrow> par s = Some s' \<Longrightarrow> left s = Suc (left s')"
    and chi_one: "ok s \<Longrightarrow> chi s = Some s' \<Longrightarrow> left s = Suc (left s')"
begin

lemma sched_count: "ok s \<Longrightarrow> sched par chi bs s = Some s' \<Longrightarrow> left s = length bs + left s'"
proof (induction bs arbitrary: s)
  case Nil
  then show ?case by simp
next
  case (Cons b bs)
  then obtain s1 where st: "(if b then par s else chi s) = Some s1" and r: "sched par chi bs s1 = Some s'"
    by (auto simp: bind_eq_Some_conv)
  from st Cons.prems(1) have "ok s1" "left s = Suc (left s1)"
    by (cases b; auto dest: par_ok chi_ok par_one chi_one)+
  with Cons.IH [OF _ r] show ?case by simp
qed

end

end
