(* ===== verification/Ipc_Semaphores.thy ===== *)
theory Ipc_Semaphores
  imports C_Strings Interleaving
begin

text \<open>
  \<^verbatim>\<open>02_ipc/lab_04_shared_memory\<close> and \<^verbatim>\<open>02_ipc/lab_05_synchronization\<close>: a parent that writes five messages into
  shared memory and a child that reads them, first with a busy wait on a member of the message, then with
  three semaphores. Each process has a program counter; a step of either is one operation on the shared state
  or one line printed, and the steps of the two interleave freely. \<^verbatim>\<open>sem_wait\<close> is enabled when
  the value is positive. The delays (\<^verbatim>\<open>usleep\<close>) have no effect on the state.
\<close>

definition QUEUE_LENGTH :: nat where "QUEUE_LENGTH = 5"
definition MSG_SIZE :: nat where "MSG_SIZE = 64"

section \<open>Lab 05: semaphores\<close>

datatype ppc5 = P_empty nat | P_mutex nat | P_id nat | P_text nat | P_print nat | P_unlock nat | P_full nat | P_wait | P_end

datatype cpc5 = C_full nat | C_mutex nat | C_print nat | C_clear nat | C_unlock nat | C_empty nat | C_end

record shm5 =
  mutex5 :: nat
  empty5 :: nat
  full5 :: nat
  ids5 :: "int list"
  texts5 :: "string list"
  ppc :: ppc5
  cpc :: cpc5
  parent_out5 :: "string list"
  child_out5 :: "string list"

definition start5 :: shm5 where
  "start5 = \<lparr>mutex5 = 1, empty5 = QUEUE_LENGTH, full5 = 0, ids5 = replicate QUEUE_LENGTH 0,
     texts5 = replicate QUEUE_LENGTH [], ppc = P_empty 0, cpc = C_full 0, parent_out5 = [], child_out5 = []\<rparr>"

definition text5 :: "nat \<Rightarrow> string" where
  "text5 i = snprintf MSG_SIZE (''Hello Child via shared memory with semaphores '' @ show_int (int i + 1))"

definition read_line5 :: "int \<Rightarrow> string \<Rightarrow> string" where
  "read_line5 n t = ''[CHILD] Read message '' @ show_int n @ '': '' @ t @ nl"

definition p_head5 :: "nat \<Rightarrow> ppc5" where
  "p_head5 i = (if i < QUEUE_LENGTH then P_empty i else P_wait)"

definition c_head5 :: "nat \<Rightarrow> cpc5" where
  "c_head5 i = (if i < QUEUE_LENGTH then C_full i else C_end)"

text \<open>One step of the parent, and of the child; \<open>None\<close>: it is blocked, or has ended.\<close>

definition producer5 :: "shm5 \<Rightarrow> shm5 option" where
  "producer5 s =
     (case ppc s of
        P_empty i \<Rightarrow> if 0 < empty5 s then Some (s\<lparr>empty5 := empty5 s - 1, ppc := P_mutex i\<rparr>) else None
      | P_mutex i \<Rightarrow> if 0 < mutex5 s then Some (s\<lparr>mutex5 := mutex5 s - 1, ppc := P_id i\<rparr>) else None
      | P_id i \<Rightarrow> Some (s\<lparr>ids5 := (ids5 s)[i := int i + 1], ppc := P_text i\<rparr>)
      | P_text i \<Rightarrow> Some (s\<lparr>texts5 := (texts5 s)[i := text5 i], ppc := P_print i\<rparr>)
      | P_print i \<Rightarrow> Some (s\<lparr>parent_out5 := parent_out5 s @ [''[PARENT] Wrote message '' @ show_int (ids5 s ! i) @ nl],
                         ppc := P_unlock i\<rparr>)
      | P_unlock i \<Rightarrow> Some (s\<lparr>mutex5 := mutex5 s + 1, ppc := P_full i\<rparr>)
      | P_full i \<Rightarrow> Some (s\<lparr>full5 := full5 s + 1, ppc := p_head5 (Suc i)\<rparr>)
      | P_wait \<Rightarrow> if cpc s = C_end then Some (s\<lparr>ppc := P_end\<rparr>) else None
      | P_end \<Rightarrow> None)"

definition consumer5 :: "shm5 \<Rightarrow> shm5 option" where
  "consumer5 s =
     (case cpc s of
        C_full i \<Rightarrow> if 0 < full5 s then Some (s\<lparr>full5 := full5 s - 1, cpc := C_mutex i\<rparr>) else None
      | C_mutex i \<Rightarrow> if 0 < mutex5 s then Some (s\<lparr>mutex5 := mutex5 s - 1, cpc := C_print i\<rparr>) else None
      | C_print i \<Rightarrow> Some (s\<lparr>child_out5 := child_out5 s @ [read_line5 (ids5 s ! i) (texts5 s ! i)], cpc := C_clear i\<rparr>)
      | C_clear i \<Rightarrow> Some (s\<lparr>ids5 := (ids5 s)[i := 0], cpc := C_unlock i\<rparr>)
      | C_unlock i \<Rightarrow> Some (s\<lparr>mutex5 := mutex5 s + 1, cpc := C_empty i\<rparr>)
      | C_empty i \<Rightarrow> Some (s\<lparr>empty5 := empty5 s + 1, cpc := c_head5 (Suc i)\<rparr>)
      | C_end \<Rightarrow> None)"

inductive step5 :: "shm5 \<Rightarrow> shm5 \<Rightarrow> bool" where
  parent5: "producer5 s = Some s' \<Longrightarrow> step5 s s'"
| child5: "consumer5 s = Some s' \<Longrightarrow> step5 s s'"

code_pred step5 .

inductive_simps step5_simps: "step5 s s'"

text \<open>Where the two processes are: their turns, and whether they hold the mutex.\<close>

primrec p_turn :: "ppc5 \<Rightarrow> nat" where
  "p_turn (P_empty i) = i" | "p_turn (P_mutex i) = i" | "p_turn (P_id i) = i" | "p_turn (P_text i) = i"
| "p_turn (P_print i) = i" | "p_turn (P_unlock i) = i" | "p_turn (P_full i) = i" | "p_turn P_wait = 5" | "p_turn P_end = 5"

primrec c_turn :: "cpc5 \<Rightarrow> nat" where
  "c_turn (C_full i) = i" | "c_turn (C_mutex i) = i" | "c_turn (C_print i) = i" | "c_turn (C_clear i) = i"
| "c_turn (C_unlock i) = i" | "c_turn (C_empty i) = i" | "c_turn C_end = 5"

definition p_crit :: "ppc5 \<Rightarrow> bool" where
  "p_crit p \<longleftrightarrow> (\<exists>i. p = P_id i \<or> p = P_text i \<or> p = P_print i \<or> p = P_unlock i)"

definition c_crit :: "cpc5 \<Rightarrow> bool" where
  "c_crit c \<longleftrightarrow> (\<exists>i. c = C_print i \<or> c = C_clear i \<or> c = C_unlock i)"

text \<open>The operations each process has still to do.\<close>

primrec p_left :: "ppc5 \<Rightarrow> nat" where
  "p_left (P_empty i) = 7 * (5 - i) + 1" | "p_left (P_mutex i) = 7 * (5 - i)" | "p_left (P_id i) = 7 * (5 - i) - 1"
| "p_left (P_text i) = 7 * (5 - i) - 2" | "p_left (P_print i) = 7 * (5 - i) - 3" | "p_left (P_unlock i) = 7 * (5 - i) - 4"
| "p_left (P_full i) = 7 * (5 - i) - 5" | "p_left P_wait = 1" | "p_left P_end = 0"

primrec c_left :: "cpc5 \<Rightarrow> nat" where
  "c_left (C_full i) = 6 * (5 - i)" | "c_left (C_mutex i) = 6 * (5 - i) - 1" | "c_left (C_print i) = 6 * (5 - i) - 2"
| "c_left (C_clear i) = 6 * (5 - i) - 3" | "c_left (C_unlock i) = 6 * (5 - i) - 4" | "c_left (C_empty i) = 6 * (5 - i) - 5"
| "c_left C_end = 0"

definition left5 :: "shm5 \<Rightarrow> nat" where
  "left5 s = p_left (ppc s) + c_left (cpc s)"

section \<open>The invariant\<close>

definition p_ok :: "ppc5 \<Rightarrow> bool" where "p_ok p \<longleftrightarrow> (p = P_wait \<or> p = P_end \<or> p_turn p < 5)"
definition c_ok :: "cpc5 \<Rightarrow> bool" where "c_ok c \<longleftrightarrow> (c = C_end \<or> c_turn c < 5)"

text \<open>Waits on \<^verbatim>\<open>empty\<close> done, posts of \<^verbatim>\<open>empty\<close>, waits on \<^verbatim>\<open>full\<close>, posts of \<^verbatim>\<open>full\<close>; messages written, printed, cleared.\<close>

definition took_full :: "cpc5 \<Rightarrow> nat" where
  "took_full c = (case c of C_full i \<Rightarrow> i | C_end \<Rightarrow> 5 | _ \<Rightarrow> Suc (c_turn c))"

definition took_empty :: "ppc5 \<Rightarrow> nat" where
  "took_empty p = (case p of P_empty i \<Rightarrow> i | P_wait \<Rightarrow> 5 | P_end \<Rightarrow> 5 | _ \<Rightarrow> Suc (p_turn p))"

definition id_done :: "ppc5 \<Rightarrow> nat" where
  "id_done p = (case p of P_empty i \<Rightarrow> i | P_mutex i \<Rightarrow> i | P_id i \<Rightarrow> i | P_wait \<Rightarrow> 5 | P_end \<Rightarrow> 5 | _ \<Rightarrow> Suc (p_turn p))"

definition text_done :: "ppc5 \<Rightarrow> nat" where
  "text_done p = (case p of P_empty i \<Rightarrow> i | P_mutex i \<Rightarrow> i | P_id i \<Rightarrow> i | P_text i \<Rightarrow> i | P_wait \<Rightarrow> 5 | P_end \<Rightarrow> 5 | _ \<Rightarrow> Suc (p_turn p))"

definition printed :: "cpc5 \<Rightarrow> nat" where
  "printed c = (case c of C_full i \<Rightarrow> i | C_mutex i \<Rightarrow> i | C_print i \<Rightarrow> i | C_end \<Rightarrow> 5 | _ \<Rightarrow> Suc (c_turn c))"

definition cleared :: "cpc5 \<Rightarrow> nat" where
  "cleared c = (case c of C_full i \<Rightarrow> i | C_mutex i \<Rightarrow> i | C_print i \<Rightarrow> i | C_clear i \<Rightarrow> i | C_end \<Rightarrow> 5 | _ \<Rightarrow> Suc (c_turn c))"

definition inv5 :: "shm5 \<Rightarrow> bool" where
  "inv5 s \<longleftrightarrow> p_ok (ppc s) \<and> c_ok (cpc s)
     \<and> mutex5 s + of_bool (p_crit (ppc s)) + of_bool (c_crit (cpc s)) = 1
     \<and> empty5 s + took_empty (ppc s) = 5 + c_turn (cpc s)
     \<and> full5 s + took_full (cpc s) = p_turn (ppc s)
     \<and> length (ids5 s) = 5 \<and> length (texts5 s) = 5
     \<and> (\<forall>j < 5. ids5 s ! j = (if cleared (cpc s) \<le> j \<and> j < id_done (ppc s) then int j + 1 else 0))
     \<and> (\<forall>j < text_done (ppc s). texts5 s ! j = text5 j)
     \<and> child_out5 s = map (\<lambda>j. read_line5 (int j + 1) (text5 j)) [0..<printed (cpc s)]
     \<and> (ppc s = P_end \<longrightarrow> cpc s = C_end)"

lemmas pc_defs = p_ok_def c_ok_def took_full_def took_empty_def id_done_def text_done_def printed_def cleared_def
  p_head5_def c_head5_def QUEUE_LENGTH_def p_crit_def c_crit_def

lemmas p_defs = p_ok_def took_empty_def id_done_def text_done_def p_crit_def p_head5_def QUEUE_LENGTH_def

lemmas c_defs = c_ok_def took_full_def printed_def cleared_def c_crit_def c_head5_def QUEUE_LENGTH_def

lemma inv5_start: "inv5 start5"
  by (simp add: inv5_def start5_def pc_defs)

lemma cleared_le: "cleared c \<le> took_full c" "printed c \<le> took_full c" "cleared c \<le> printed c"
  by (cases c; simp add: cleared_def took_full_def printed_def)+

lemma inv5_producer:
  assumes inv: "inv5 s" and st: "producer5 s = Some s'"
  shows "inv5 s' \<and> left5 s = Suc (left5 s')"
proof (cases "ppc s")
  case (P_empty i)
  with st have s': "s' = s\<lparr>empty5 := empty5 s - 1, ppc := P_mutex i\<rparr>" "0 < empty5 s"
    by (simp_all add: producer5_def split: if_splits)
  with inv P_empty show ?thesis by (simp add: inv5_def left5_def p_defs)
next
  case (P_mutex i)
  with st have s': "s' = s\<lparr>mutex5 := mutex5 s - 1, ppc := P_id i\<rparr>" "0 < mutex5 s"
    by (simp_all add: producer5_def split: if_splits)
  with inv P_mutex show ?thesis by (cases "c_crit (cpc s)") (auto simp: inv5_def left5_def p_defs)
next
  case (P_id i)
  with st have s': "s' = s\<lparr>ids5 := (ids5 s)[i := int i + 1], ppc := P_text i\<rparr>" by (simp add: producer5_def)
  from inv P_id have len: "length (ids5 s) = 5" and i: "i < 5" and c: "cleared (cpc s) \<le> i"
    and ids: "\<forall>j < 5. ids5 s ! j = (if cleared (cpc s) \<le> j \<and> j < i then int j + 1 else 0)"
    using cleared_le [of "cpc s"] by (auto simp: inv5_def p_ok_def id_done_def)
  have "ids5 s' ! j = (if cleared (cpc s) \<le> j \<and> j < Suc i then int j + 1 else 0)" if "j < 5" for j
    using ids len i c that by (cases "j = i") (auto simp: s' nth_list_update)
  with inv P_id s' i show ?thesis
    by (simp add: inv5_def left5_def p_ok_def took_empty_def id_done_def text_done_def p_crit_def)
next
  case (P_text i)
  with st have s': "s' = s\<lparr>texts5 := (texts5 s)[i := text5 i], ppc := P_print i\<rparr>" by (simp add: producer5_def)
  from inv P_text have len: "length (texts5 s) = 5" and i: "i < 5" and tx: "\<forall>j < i. texts5 s ! j = text5 j"
    by (auto simp: inv5_def p_ok_def text_done_def)
  have "texts5 s' ! j = text5 j" if "j < Suc i" for j
    using tx len i that by (cases "j = i") (auto simp: s' nth_list_update)
  with inv P_text s' i show ?thesis
    by (simp add: inv5_def left5_def p_ok_def took_empty_def id_done_def text_done_def p_crit_def)
next
  case (P_print i)
  with st have s': "s' = s\<lparr>parent_out5 := parent_out5 s @ [''[PARENT] Wrote message '' @ show_int (ids5 s ! i) @ nl], ppc := P_unlock i\<rparr>"
    by (simp add: producer5_def)
  with inv P_print show ?thesis by (auto simp: inv5_def left5_def p_defs)
next
  case (P_unlock i)
  with st have "s' = s\<lparr>mutex5 := mutex5 s + 1, ppc := P_full i\<rparr>" by (simp add: producer5_def)
  with inv P_unlock show ?thesis by (auto simp: inv5_def left5_def p_defs)
next
  case (P_full i)
  with st have s': "s' = s\<lparr>full5 := full5 s + 1, ppc := p_head5 (Suc i)\<rparr>" by (simp add: producer5_def)
  show ?thesis
  proof (cases "Suc i < 5")
    case True
    with inv P_full s' show ?thesis by (simp add: inv5_def left5_def p_defs)
  next
    case False
    with inv P_full have "i = 4" by (simp add: inv5_def p_ok_def)
    with inv P_full s' show ?thesis by (simp add: inv5_def left5_def p_defs)
  qed
next
  case P_wait
  with st have "s' = s\<lparr>ppc := P_end\<rparr>" "cpc s = C_end" by (simp_all add: producer5_def split: if_splits)
  with inv P_wait show ?thesis by (simp add: inv5_def left5_def p_defs)
next
  case P_end
  with st show ?thesis by (simp add: producer5_def)
qed

lemma inv5_consumer:
  assumes inv: "inv5 s" and st: "consumer5 s = Some s'"
  shows "inv5 s' \<and> left5 s = Suc (left5 s')"
proof (cases "cpc s")
  case (C_full i)
  with st have "s' = s\<lparr>full5 := full5 s - 1, cpc := C_mutex i\<rparr>" "0 < full5 s"
    by (simp_all add: consumer5_def split: if_splits)
  with inv C_full show ?thesis by (simp add: inv5_def left5_def c_defs)
next
  case (C_mutex i)
  with st have "s' = s\<lparr>mutex5 := mutex5 s - 1, cpc := C_print i\<rparr>" "0 < mutex5 s"
    by (simp_all add: consumer5_def split: if_splits)
  with inv C_mutex show ?thesis by (cases "p_crit (ppc s)") (auto simp: inv5_def left5_def c_defs)
next
  case (C_print i)
  with st have s': "s' = s\<lparr>child_out5 := child_out5 s @ [read_line5 (ids5 s ! i) (texts5 s ! i)], cpc := C_clear i\<rparr>"
    by (simp add: consumer5_def)
  from inv C_print have i: "i < 5" "Suc i \<le> p_turn (ppc s)" by (auto simp: inv5_def c_defs)
  have "p_turn (ppc s) \<le> id_done (ppc s)" "p_turn (ppc s) \<le> text_done (ppc s)"
    by (cases "ppc s"; simp add: id_done_def text_done_def)+
  with i inv C_print have "ids5 s ! i = int i + 1" "texts5 s ! i = text5 i" by (auto simp: inv5_def c_defs)
  with inv C_print s' i show ?thesis by (simp add: inv5_def left5_def c_defs)
next
  case (C_clear i)
  with st have s': "s' = s\<lparr>ids5 := (ids5 s)[i := 0], cpc := C_unlock i\<rparr>" by (simp add: consumer5_def)
  from inv C_clear have len: "length (ids5 s) = 5" and i: "i < 5"
    and ids: "\<forall>j < 5. ids5 s ! j = (if i \<le> j \<and> j < id_done (ppc s) then int j + 1 else 0)"
    by (auto simp: inv5_def c_defs)
  have "ids5 s' ! j = (if Suc i \<le> j \<and> j < id_done (ppc s) then int j + 1 else 0)" if "j < 5" for j
    using ids len i that by (cases "j = i") (auto simp: s' nth_list_update)
  with inv C_clear s' i show ?thesis by (simp add: inv5_def left5_def c_defs)
next
  case (C_unlock i)
  with st have "s' = s\<lparr>mutex5 := mutex5 s + 1, cpc := C_empty i\<rparr>" by (simp add: consumer5_def)
  with inv C_unlock show ?thesis by (auto simp: inv5_def left5_def c_defs)
next
  case (C_empty i)
  with st have s': "s' = s\<lparr>empty5 := empty5 s + 1, cpc := c_head5 (Suc i)\<rparr>" by (simp add: consumer5_def)
  show ?thesis
  proof (cases "Suc i < 5")
    case True
    with inv C_empty s' show ?thesis by (simp add: inv5_def left5_def c_defs)
  next
    case False
    with inv C_empty have "i = 4" by (simp add: inv5_def c_ok_def)
    with inv C_empty s' show ?thesis by (simp add: inv5_def left5_def c_defs)
  qed
next
  case C_end
  with st show ?thesis by (simp add: consumer5_def)
qed

lemma inv5_step: "inv5 s \<Longrightarrow> step5 s s' \<Longrightarrow> inv5 s' \<and> left5 s = Suc (left5 s')"
  by (auto simp: step5_simps dest: inv5_producer inv5_consumer)

text \<open>Some process can always go on, until both have ended.\<close>

lemma no_deadlock5:
  assumes inv: "inv5 s" and left: "0 < left5 s"
  shows "\<exists>s'. step5 s s'"
proof (rule ccontr)
  assume "\<not> ?thesis"
  then have p: "producer5 s = None" and c: "consumer5 s = None"
    by (auto simp: step5_simps) (metis not_None_eq)+
  from inv have m: "mutex5 s + of_bool (p_crit (ppc s)) + of_bool (c_crit (cpc s)) = 1"
    and e: "empty5 s + took_empty (ppc s) = 5 + c_turn (cpc s)"
    and f: "full5 s + took_full (cpc s) = p_turn (ppc s)" and ok: "p_ok (ppc s)" "c_ok (cpc s)"
    by (simp_all add: inv5_def)
  have not_crit: "\<not> p_crit (ppc s)" "\<not> c_crit (cpc s)"
    using p c by (auto simp: producer5_def consumer5_def p_crit_def c_crit_def)
  with m have "mutex5 s = 1" by simp
  with p c have pc: "(\<exists>i. ppc s = P_empty i) \<or> ppc s = P_wait \<or> ppc s = P_end"
    and cc: "(\<exists>i. cpc s = C_full i) \<or> cpc s = C_end"
    by (auto simp: producer5_def consumer5_def split: ppc5.splits cpc5.splits)
  show False
  proof (cases "cpc s")
    case (C_full i)
    with c f have "p_turn (ppc s) = i" "i < 5" using ok by (auto simp: consumer5_def c_defs split: if_splits)
    moreover with pc obtain j where "ppc s = P_empty j" using C_full p inv by (auto simp: inv5_def)
    ultimately show False using e p C_full by (auto simp: producer5_def p_defs split: if_splits)
  next
    case C_end
    have "ppc s = P_end" using pc p C_end e ok(1) by (auto simp: producer5_def p_defs split: if_splits)
    with C_end left show False by (simp add: left5_def)
  qed (use cc in auto)
qed

interpretation sem5: counted_processes producer5 consumer5 inv5 left5
  by unfold_locales (auto dest: inv5_producer inv5_consumer)

text \<open>Executions: paths of \<open>n\<close> steps.\<close>

inductive path5 :: "nat \<Rightarrow> shm5 \<Rightarrow> shm5 \<Rightarrow> bool" where
  path5_0: "path5 0 s s"
| path5_Suc: "path5 n s s1 \<Longrightarrow> step5 s1 s2 \<Longrightarrow> path5 (Suc n) s s2"

inductive_cases path5_E: "path5 n s s'"

lemma path5_inv: "path5 n s s' \<Longrightarrow> inv5 s \<Longrightarrow> inv5 s' \<and> left5 s = n + left5 s'"
  by (induction rule: path5.induct) (auto dest: inv5_step)

lemma left5_start: "left5 start5 = 66"
  by (simp add: left5_def start5_def)

lemma inv5_final:
  assumes "inv5 s" and "left5 s = 0"
  shows "ppc s = P_end" and "cpc s = C_end"
    and "child_out5 s = map (\<lambda>j. read_line5 (int j + 1) (text5 j)) [0..<5]"
proof -
  from assms have ok: "p_ok (ppc s)" "c_ok (cpc s)" and z: "p_left (ppc s) = 0" "c_left (cpc s) = 0"
    by (simp_all add: inv5_def left5_def)
  then show "ppc s = P_end" by (cases "ppc s") (auto simp: p_ok_def)
  show c: "cpc s = C_end" using ok z by (cases "cpc s") (auto simp: c_ok_def)
  with assms(1) show "child_out5 s = map (\<lambda>j. read_line5 (int j + 1) (text5 j)) [0..<5]"
    by (simp add: inv5_def printed_def)
qed

section \<open>Lab 04: a busy wait\<close>

datatype ppc4 = Q_id nat | Q_text nat | Q_print nat | Q_wait | Q_end

datatype cpc4 = D_poll nat | D_print nat | D_end

record shm4 =
  ids4 :: "int list"
  texts4 :: "string list"
  ppc4 :: ppc4
  cpc4 :: cpc4
  parent_out4 :: "string list"
  child_out4 :: "string list"

definition start4 :: shm4 where
  "start4 = \<lparr>ids4 = replicate QUEUE_LENGTH 0, texts4 = replicate QUEUE_LENGTH [], ppc4 = Q_id 0, cpc4 = D_poll 0,
     parent_out4 = [], child_out4 = []\<rparr>"

definition text4 :: "nat \<Rightarrow> string" where
  "text4 i = snprintf MSG_SIZE (''Hello Child via shared memory '' @ show_int (int i + 1))"

definition producer4 :: "shm4 \<Rightarrow> shm4 option" where
  "producer4 s =
     (case ppc4 s of
        Q_id i \<Rightarrow> Some (s\<lparr>ids4 := (ids4 s)[i := int i + 1], ppc4 := Q_text i\<rparr>)
      | Q_text i \<Rightarrow> Some (s\<lparr>texts4 := (texts4 s)[i := text4 i], ppc4 := Q_print i\<rparr>)
      | Q_print i \<Rightarrow> Some (s\<lparr>parent_out4 := parent_out4 s @ [''[PARENT] Wrote message '' @ show_int (ids4 s ! i) @ nl],
                         ppc4 := (if Suc i < QUEUE_LENGTH then Q_id (Suc i) else Q_wait)\<rparr>)
      | Q_wait \<Rightarrow> if cpc4 s = D_end then Some (s\<lparr>ppc4 := Q_end\<rparr>) else None
      | Q_end \<Rightarrow> None)"

definition consumer4 :: "shm4 \<Rightarrow> shm4 option" where
  "consumer4 s =
     (case cpc4 s of
        D_poll i \<Rightarrow> Some (if ids4 s ! i = 0 then s else s\<lparr>cpc4 := D_print i\<rparr>)
      | D_print i \<Rightarrow> Some (s\<lparr>child_out4 := child_out4 s @ [read_line5 (ids4 s ! i) (texts4 s ! i)],
                         cpc4 := (if Suc i < QUEUE_LENGTH then D_poll (Suc i) else D_end)\<rparr>)
      | D_end \<Rightarrow> None)"

definition id_done4 :: "ppc4 \<Rightarrow> nat" where
  "id_done4 p = (case p of Q_id i \<Rightarrow> i | Q_text i \<Rightarrow> Suc i | Q_print i \<Rightarrow> Suc i | _ \<Rightarrow> 5)"

definition text_done4 :: "ppc4 \<Rightarrow> nat" where
  "text_done4 p = (case p of Q_id i \<Rightarrow> i | Q_text i \<Rightarrow> i | Q_print i \<Rightarrow> Suc i | _ \<Rightarrow> 5)"

definition read4 :: "cpc4 \<Rightarrow> nat" where
  "read4 c = (case c of D_poll i \<Rightarrow> i | D_print i \<Rightarrow> i | D_end \<Rightarrow> 5)"

definition inv4 :: "shm4 \<Rightarrow> bool" where
  "inv4 s \<longleftrightarrow> length (ids4 s) = 5 \<and> length (texts4 s) = 5 \<and> id_done4 (ppc4 s) \<le> 5
     \<and> (case ppc4 s of Q_id i \<Rightarrow> i < 5 | _ \<Rightarrow> True) \<and> (case cpc4 s of D_poll i \<Rightarrow> i < 5 | D_print i \<Rightarrow> i < id_done4 (ppc4 s) | D_end \<Rightarrow> True)
     \<and> (\<forall>j < 5. ids4 s ! j = (if j < id_done4 (ppc4 s) then int j + 1 else 0))
     \<and> (\<forall>j < 5. texts4 s ! j = (if j < text_done4 (ppc4 s) then text4 j else []))
     \<and> length (child_out4 s) = read4 (cpc4 s)
     \<and> (\<forall>j < read4 (cpc4 s). child_out4 s ! j \<in> {read_line5 (int j + 1) (text4 j), read_line5 (int j + 1) []})"

lemma inv4_start: "inv4 start4"
  by (simp add: inv4_def start4_def id_done4_def text_done4_def read4_def QUEUE_LENGTH_def)

lemma inv4_producer:
  assumes "inv4 s" and "producer4 s = Some s'"
  shows "inv4 s'"
proof (cases "ppc4 s")
  case (Q_id i)
  with assms(2) have s': "s' = s\<lparr>ids4 := (ids4 s)[i := int i + 1], ppc4 := Q_text i\<rparr>" by (simp add: producer4_def)
  from assms(1) Q_id have i: "i < 5" "length (ids4 s) = 5" and ids: "\<forall>j < 5. ids4 s ! j = (if j < i then int j + 1 else 0)"
    by (auto simp: inv4_def id_done4_def)
  have "ids4 s' ! j = (if j < Suc i then int j + 1 else 0)" if "j < 5" for j
    using ids i that by (cases "j = i") (auto simp: s' nth_list_update)
  with assms(1) Q_id s' i show ?thesis
    by (auto simp: inv4_def id_done4_def text_done4_def split: cpc4.splits)
next
  case (Q_text i)
  with assms(2) have s': "s' = s\<lparr>texts4 := (texts4 s)[i := text4 i], ppc4 := Q_print i\<rparr>" by (simp add: producer4_def)
  from assms(1) Q_text have i: "i < 5" "length (texts4 s) = 5" and ts: "\<forall>j < 5. texts4 s ! j = (if j < i then text4 j else [])"
    by (auto simp: inv4_def id_done4_def text_done4_def)
  have "texts4 s' ! j = (if j < Suc i then text4 j else [])" if "j < 5" for j
    using ts i that by (cases "j = i") (auto simp: s' nth_list_update)
  with assms(1) Q_text s' i show ?thesis
    by (auto simp: inv4_def id_done4_def text_done4_def split: cpc4.splits)
next
  case (Q_print i)
  with assms show ?thesis
    by (cases "Suc i < 5") (auto simp: inv4_def producer4_def id_done4_def text_done4_def QUEUE_LENGTH_def not_less split: cpc4.splits)
next
  case Q_wait
  with assms show ?thesis by (auto simp: inv4_def producer4_def id_done4_def text_done4_def split: if_splits)
next
  case Q_end
  with assms(2) show ?thesis by (simp add: producer4_def)
qed

lemma inv4_consumer:
  assumes "inv4 s" and "consumer4 s = Some s'"
  shows "inv4 s'"
proof (cases "cpc4 s")
  case (D_poll i)
  show ?thesis
  proof (cases "ids4 s ! i = 0")
    case True
    with assms D_poll show ?thesis by (simp add: consumer4_def)
  next
    case False
    with assms D_poll have s': "s' = s\<lparr>cpc4 := D_print i\<rparr>" by (simp add: consumer4_def)
    from assms(1) D_poll False have "i < id_done4 (ppc4 s)" by (auto simp: inv4_def split: if_splits)
    with assms(1) D_poll s' show ?thesis by (simp add: inv4_def read4_def)
  qed
next
  case (D_print i)
  with assms(2) have s': "s' = s\<lparr>child_out4 := child_out4 s @ [read_line5 (ids4 s ! i) (texts4 s ! i)],
      cpc4 := (if Suc i < QUEUE_LENGTH then D_poll (Suc i) else D_end)\<rparr>" by (simp add: consumer4_def)
  from assms(1) D_print have i: "i < id_done4 (ppc4 s)" "id_done4 (ppc4 s) \<le> 5" and len: "length (child_out4 s) = i"
    and old: "\<forall>j < i. child_out4 s ! j \<in> {read_line5 (int j + 1) (text4 j), read_line5 (int j + 1) []}"
    by (auto simp: inv4_def read4_def)
  have new: "read_line5 (ids4 s ! i) (texts4 s ! i) \<in> {read_line5 (int i + 1) (text4 i), read_line5 (int i + 1) []}"
    using assms(1) i by (auto simp: inv4_def)
  have r: "read4 (cpc4 s') = Suc i" using i by (auto simp: s' read4_def QUEUE_LENGTH_def)
  have "child_out4 s' ! j \<in> {read_line5 (int j + 1) (text4 j), read_line5 (int j + 1) []}" if "j < Suc i" for j
    using old new len that by (cases "j = i") (auto simp: s' nth_append)
  with assms(1) r len show ?thesis
    by (auto simp: inv4_def s' QUEUE_LENGTH_def)
next
  case D_end
  with assms(2) show ?thesis by (simp add: consumer4_def)
qed

lemma sched4_inv: "inv4 s \<Longrightarrow> sched producer4 consumer4 bs s = Some s' \<Longrightarrow> inv4 s'"
proof (induction bs arbitrary: s)
  case Nil
  then show ?case by simp
next
  case (Cons b bs)
  then show ?case by (auto simp: bind_eq_Some_conv intro: inv4_producer inv4_consumer split: if_splits)
qed

section \<open>Properties\<close>

text \<open>
  C30: the two processes of lab 05, however they interleave. They are never in their critical sections at the
  same time; the lines the child has printed are at every moment the first messages, complete and in
  order; a step is possible until both have ended, and every execution ends after exactly 66 steps, with
  all five messages printed and the parent past its \<^verbatim>\<open>wait\<close>.
\<close>

theorem semaphores5:
  assumes "path5 n start5 s"
  shows "\<not> (p_crit (ppc s) \<and> c_crit (cpc s))
    \<and> (\<exists>k \<le> 5. child_out5 s = map (\<lambda>j. read_line5 (int j + 1) (text5 j)) [0..<k])
    \<and> n \<le> 66 \<and> (n < 66 \<longrightarrow> (\<exists>s'. step5 s s'))
    \<and> (n = 66 \<longrightarrow> ppc s = P_end \<and> cpc s = C_end
        \<and> child_out5 s = map (\<lambda>j. read_line5 (int j + 1) (text5 j)) [0..<5])"
proof -
  from path5_inv [OF assms inv5_start] have inv: "inv5 s" and n: "66 = n + left5 s" by (simp_all add: left5_start)
  have "printed (cpc s) \<le> 5" using inv by (cases "cpc s") (auto simp: inv5_def c_defs)
  moreover have "\<not> (p_crit (ppc s) \<and> c_crit (cpc s))" using inv by (auto simp: inv5_def)
  ultimately show ?thesis
    using n inv no_deadlock5 [OF inv] inv5_final [OF inv] by (auto simp: inv5_def)
qed

lemma path5_exists: "n \<le> 66 \<Longrightarrow> \<exists>s. path5 n start5 s"
proof (induction n)
  case 0
  then show ?case by (blast intro: path5_0)
next
  case (Suc n)
  then obtain s where p: "path5 n start5 s" by auto
  from path5_inv [OF p inv5_start] have inv: "inv5 s" and n: "66 = n + left5 s" by (simp_all add: left5_start)
  from n Suc.prems have "0 < left5 s" by linarith
  from no_deadlock5 [OF inv this] obtain s' where "step5 s s'" by blast
  with p show ?case by (blast intro: path5_Suc)
qed

theorem semaphores5_witness:
  "\<exists>s. path5 66 start5 s \<and> ppc s = P_end \<and> cpc s = C_end
     \<and> child_out5 s = map (\<lambda>j. read_line5 (int j + 1) (text5 j)) [0..<5]"
proof -
  obtain s where p: "path5 66 start5 s" using path5_exists [of 66] by auto
  with semaphores5 [OF p] show ?thesis by blast
qed



end
