(* ===== verification/Ipc_Messages.thy ===== *)
theory Ipc_Messages
  imports C_Strings Interleaving
begin

text \<open>
  \<^verbatim>\<open>02_ipc/lab_03_message_queue\<close>: a parent that writes five structures into a pipe and a child that reads
  them. The pipe is the bytes in it, its capacity and the ends that are open; the structures cross it as
  the bytes of their memory. A write of at most \<^verbatim>\<open>PIPE_BUF\<close> bytes is atomic and waits for room; a
  read returns what there is, waits while the pipe is empty and has a writer, and returns \<open>0\<close> when
  it has none. The contents of the memory before it is written are parameters.
\<close>

section \<open>Integers in memory\<close>

text \<open>The four bytes of an \<^verbatim>\<open>int\<close>, low byte first.\<close>

definition enc_int :: "int \<Rightarrow> string" where
  "enc_int i = map (\<lambda>k. char_of (nat (i div 256 ^ k mod 256))) [0, 1, 2, 3]"

definition dec_int :: "string \<Rightarrow> int" where
  "dec_int bs = signed_take_bit 31 (foldr (\<lambda>c v. int (of_char c) + 256 * v) (take 4 bs) 0)"

lemma length_enc_int [simp]: "length (enc_int i) = 4"
  by (simp add: enc_int_def)

lemma of_char_byte: "0 \<le> x \<Longrightarrow> x < 256 \<Longrightarrow> int (of_char (char_of (nat x) :: char)) = x"
  by simp

lemma digits4: "(i::int) mod 256 + 256 * (i div 256 mod 256 + 256 * (i div 65536 mod 256 + 256 * (i div 16777216 mod 256)))
    = i mod 4294967296"
proof -
  have "i div (256 * 256) = i div 256 div 256" by (rule zdiv_zmult2_eq) simp
  then have d1: "i div 65536 = i div 256 div 256" by simp
  have "i div (65536 * 256) = i div 65536 div 256" by (rule zdiv_zmult2_eq) simp
  then have d2: "i div 16777216 = i div 256 div 256 div 256" unfolding d1 by simp
  have "i mod 4294967296 = i mod (256 * (256 * (256 * 256)))" by simp
  also have "\<dots> = 256 * (i div 256 mod (256 * (256 * 256))) + i mod 256"
    by (rule zmod_zmult2_eq) simp
  also have "i div 256 mod (256 * (256 * 256)) = 256 * (i div 256 div 256 mod (256 * 256)) + i div 256 mod 256"
    by (rule zmod_zmult2_eq) simp
  also have "i div 256 div 256 mod (256 * 256) = 256 * (i div 256 div 256 div 256 mod 256) + i div 256 div 256 mod 256"
    by (rule zmod_zmult2_eq) simp
  finally show ?thesis unfolding d1 d2 by (simp only: add.commute)
qed

lemma dec_enc_int:
  assumes "int_min \<le> i" and "i \<le> int_max"
  shows "dec_int (enc_int i @ bs) = i"
proof -
  have "foldr (\<lambda>c v. int (of_char c) + 256 * v) (enc_int i) 0 = i mod 4294967296"
    unfolding digits4 [symmetric] by (simp add: enc_int_def power2_eq_square power3_eq_cube)
  then have "dec_int (enc_int i @ bs) = signed_take_bit 31 (i mod 2 ^ 32)"
    by (simp add: dec_int_def)
  also have "\<dots> = signed_take_bit 31 i"
    by (simp only: take_bit_eq_mod [symmetric] signed_take_bit_take_bit) simp
  also have "\<dots> = i"
    using assms by (intro signed_take_bit_int_eq_self) (auto simp: int_min_def int_max_def)
  finally show ?thesis .
qed

section \<open>The model\<close>

definition QUEUE_LENGTH3 :: nat where "QUEUE_LENGTH3 = 5"
definition MSG_SIZE3 :: nat where "MSG_SIZE3 = 64"

text \<open>\<^verbatim>\<open>sizeof(message_t)\<close>: the number and the text, without padding.\<close>

definition sizeof_msg3 :: nat where "sizeof_msg3 = 4 + MSG_SIZE3"

definition msg_id3 :: "string \<Rightarrow> int" where "msg_id3 m = dec_int m"
definition msg_text3 :: "string \<Rightarrow> string" where "msg_text3 m = cstr (drop 4 m)"

definition text3 :: "nat \<Rightarrow> string" where
  "text3 i = snprintf MSG_SIZE3 (''Hello from parent, message '' @ show_int (int i + 1))"

text \<open>The two stores into \<open>messages[i]\<close>, over its old bytes \<open>m\<close>.\<close>

definition fill3 :: "nat \<Rightarrow> string \<Rightarrow> string" where
  "fill3 i m = enc_int (int i + 1) @ text3 i @ NUL # drop (4 + length (text3 i) + 1) m"

datatype ppc3 = A_close | A_fill nat | A_write nat | A_print nat | A_close_write | A_wait | A_end | A_killed

datatype cpc3 = B_close | B_read nat | B_print nat | B_close_read | B_end

record queue3 =
  bytes3 :: string
  parent_r :: bool
  parent_w :: bool
  child_r :: bool
  child_w :: bool
  messages3 :: "string list"
  msg3 :: string
  ppc_3 :: ppc3
  cpc_3 :: cpc3
  parent_out3 :: "string list"
  child_out3 :: "string list"

definition start3 :: "string list \<Rightarrow> string \<Rightarrow> queue3" where
  "start3 mem m = \<lparr>bytes3 = [], parent_r = True, parent_w = True, child_r = True, child_w = True,
     messages3 = mem, msg3 = m, ppc_3 = A_close, cpc_3 = B_close, parent_out3 = [], child_out3 = []\<rparr>"

definition received3 :: "string \<Rightarrow> string" where
  "received3 m = ''[CHILD] Received message '' @ show_int (msg_id3 m) @ '': '' @ msg_text3 m @ nl"

definition p_for3 :: "nat \<Rightarrow> ppc3" where
  "p_for3 i = (if i < QUEUE_LENGTH3 then A_fill i else A_close_write)"

definition c_for3 :: "nat \<Rightarrow> cpc3" where
  "c_for3 i = (if i < QUEUE_LENGTH3 then B_read i else B_close_read)"

definition producer3 :: "nat \<Rightarrow> queue3 \<Rightarrow> queue3 option" where
  "producer3 cap s =
     (case ppc_3 s of
        A_close \<Rightarrow> Some (s\<lparr>parent_r := False, ppc_3 := p_for3 0\<rparr>)
      | A_fill i \<Rightarrow> Some (s\<lparr>messages3 := (messages3 s)[i := fill3 i (messages3 s ! i)], ppc_3 := A_write i\<rparr>)
      | A_write i \<Rightarrow>
          if \<not> parent_r s \<and> \<not> child_r s then Some (s\<lparr>ppc_3 := A_killed\<rparr>)
          else if length (bytes3 s) + sizeof_msg3 \<le> cap
          then Some (s\<lparr>bytes3 := bytes3 s @ messages3 s ! i, ppc_3 := A_print i\<rparr>)
          else None
      | A_print i \<Rightarrow> Some (s\<lparr>parent_out3 := parent_out3 s
                         @ [''[PARENT] Sent message '' @ show_int (msg_id3 (messages3 s ! i)) @ nl],
                         ppc_3 := p_for3 (Suc i)\<rparr>)
      | A_close_write \<Rightarrow> Some (s\<lparr>parent_w := False, ppc_3 := A_wait\<rparr>)
      | A_wait \<Rightarrow> if cpc_3 s = B_end then Some (s\<lparr>ppc_3 := A_end\<rparr>) else None
      | A_end \<Rightarrow> None
      | A_killed \<Rightarrow> None)"

definition consumer3 :: "queue3 \<Rightarrow> queue3 option" where
  "consumer3 s =
     (case cpc_3 s of
        B_close \<Rightarrow> Some (s\<lparr>child_w := False, cpc_3 := c_for3 0\<rparr>)
      | B_read i \<Rightarrow>
          if bytes3 s \<noteq> []
          then Some (s\<lparr>msg3 := take sizeof_msg3 (bytes3 s) @ drop (length (take sizeof_msg3 (bytes3 s))) (msg3 s),
                      bytes3 := drop sizeof_msg3 (bytes3 s), cpc_3 := B_print i\<rparr>)
          else if parent_w s \<or> child_w s then None
          else Some (s\<lparr>cpc_3 := c_for3 (Suc i)\<rparr>)
      | B_print i \<Rightarrow> Some (s\<lparr>child_out3 := child_out3 s @ [received3 (msg3 s)], cpc_3 := c_for3 (Suc i)\<rparr>)
      | B_close_read \<Rightarrow> Some (s\<lparr>child_r := False, cpc_3 := B_end\<rparr>)
      | B_end \<Rightarrow> None)"

section \<open>Messages\<close>

definition line3 :: "nat \<Rightarrow> string" where
  "line3 j = ''[CHILD] Received message '' @ show_int (int j + 1) @ '': '' @ text3 j @ nl"

definition sent3 :: "nat \<Rightarrow> string" where
  "sent3 j = ''[PARENT] Sent message '' @ show_int (int j + 1) @ nl"

lemma text3_no_NUL: "NUL \<notin> set (text3 i)"
  unfolding text3_def by (rule snprintf_no_NUL) simp

lemma length_text3: "length (text3 i) < MSG_SIZE3"
  unfolding text3_def by (rule length_snprintf) (simp add: MSG_SIZE3_def)

lemma length_fill3: "length m = sizeof_msg3 \<Longrightarrow> length (fill3 i m) = sizeof_msg3"
  using length_text3 [of i] by (simp add: fill3_def sizeof_msg3_def)

text \<open>What the child makes of the bytes of a message is what the parent put in.\<close>

lemma decode_fill3:
  assumes "i < 5"
  shows "msg_id3 (fill3 i m) = int i + 1" and "msg_text3 (fill3 i m) = text3 i"
proof -
  show "msg_id3 (fill3 i m) = int i + 1"
    unfolding msg_id3_def fill3_def using assms by (intro dec_enc_int) (auto simp: int_min_def int_max_def)
  show "msg_text3 (fill3 i m) = text3 i"
    using text3_no_NUL by (simp add: msg_text3_def fill3_def cstr_terminated)
qed

lemma received_fill3: "i < 5 \<Longrightarrow> received3 (fill3 i m) = line3 i"
  by (simp add: received3_def line3_def decode_fill3)

section \<open>The invariant\<close>

primrec written3 :: "ppc3 \<Rightarrow> nat" where
  "written3 A_close = 0" | "written3 (A_fill i) = i" | "written3 (A_write i) = i" | "written3 (A_print i) = Suc i"
| "written3 A_close_write = 5" | "written3 A_wait = 5" | "written3 A_end = 5" | "written3 A_killed = 0"

primrec filled3 :: "ppc3 \<Rightarrow> nat" where
  "filled3 A_close = 0" | "filled3 (A_fill i) = i" | "filled3 (A_write i) = Suc i" | "filled3 (A_print i) = Suc i"
| "filled3 A_close_write = 5" | "filled3 A_wait = 5" | "filled3 A_end = 5" | "filled3 A_killed = 0"

primrec told3 :: "ppc3 \<Rightarrow> nat" where
  "told3 A_close = 0" | "told3 (A_fill i) = i" | "told3 (A_write i) = i" | "told3 (A_print i) = i"
| "told3 A_close_write = 5" | "told3 A_wait = 5" | "told3 A_end = 5" | "told3 A_killed = 0"

primrec taken3 :: "cpc3 \<Rightarrow> nat" where
  "taken3 B_close = 0" | "taken3 (B_read i) = i" | "taken3 (B_print i) = Suc i" | "taken3 B_close_read = 5" | "taken3 B_end = 5"

primrec printed3 :: "cpc3 \<Rightarrow> nat" where
  "printed3 B_close = 0" | "printed3 (B_read i) = i" | "printed3 (B_print i) = i" | "printed3 B_close_read = 5" | "printed3 B_end = 5"

primrec p_left3 :: "ppc3 \<Rightarrow> nat" where
  "p_left3 A_close = 18" | "p_left3 (A_fill i) = 3 * (5 - i) + 2" | "p_left3 (A_write i) = 3 * (5 - i) + 1"
| "p_left3 (A_print i) = 3 * (5 - i)" | "p_left3 A_close_write = 2" | "p_left3 A_wait = 1" | "p_left3 A_end = 0" | "p_left3 A_killed = 0"

primrec c_left3 :: "cpc3 \<Rightarrow> nat" where
  "c_left3 B_close = 12" | "c_left3 (B_read i) = 2 * (5 - i) + 1" | "c_left3 (B_print i) = 2 * (5 - i)"
| "c_left3 B_close_read = 1" | "c_left3 B_end = 0"

definition left3 :: "queue3 \<Rightarrow> nat" where "left3 s = p_left3 (ppc_3 s) + c_left3 (cpc_3 s)"

primrec p_in3 :: "ppc3 \<Rightarrow> bool" where
  "p_in3 A_close = True" | "p_in3 (A_fill i) = (i < 5)" | "p_in3 (A_write i) = (i < 5)" | "p_in3 (A_print i) = (i < 5)"
| "p_in3 A_close_write = True" | "p_in3 A_wait = True" | "p_in3 A_end = True" | "p_in3 A_killed = False"

primrec c_in3 :: "cpc3 \<Rightarrow> bool" where
  "c_in3 B_close = True" | "c_in3 (B_read i) = (i < 5)" | "c_in3 (B_print i) = (i < 5)" | "c_in3 B_close_read = True" | "c_in3 B_end = True"

definition rec3 :: "string list \<Rightarrow> nat \<Rightarrow> string" where "rec3 mem j = fill3 j (mem ! j)"

definition mem_ok3 :: "string list \<Rightarrow> bool" where
  "mem_ok3 mem \<longleftrightarrow> length mem = 5 \<and> (\<forall>m \<in> set mem. length m = sizeof_msg3)"

definition inv3 :: "string list \<Rightarrow> queue3 \<Rightarrow> bool" where
  "inv3 mem s \<longleftrightarrow> p_in3 (ppc_3 s) \<and> c_in3 (cpc_3 s)
     \<and> (child_r s \<longleftrightarrow> cpc_3 s \<noteq> B_end) \<and> (parent_w s \<longleftrightarrow> ppc_3 s \<noteq> A_wait \<and> ppc_3 s \<noteq> A_end)
     \<and> messages3 s = map (rec3 mem) [0..<filled3 (ppc_3 s)] @ drop (filled3 (ppc_3 s)) mem
     \<and> taken3 (cpc_3 s) \<le> written3 (ppc_3 s)
     \<and> bytes3 s = concat (map (rec3 mem) [taken3 (cpc_3 s)..<written3 (ppc_3 s)])
     \<and> length (msg3 s) = sizeof_msg3 \<and> (\<forall>i. cpc_3 s = B_print i \<longrightarrow> msg3 s = rec3 mem i)
     \<and> parent_out3 s = map sent3 [0..<told3 (ppc_3 s)]
     \<and> child_out3 s = map line3 [0..<printed3 (cpc_3 s)]
     \<and> (ppc_3 s = A_end \<longrightarrow> cpc_3 s = B_end)"

lemma inv3_start: "mem_ok3 mem \<Longrightarrow> length m = sizeof_msg3 \<Longrightarrow> inv3 mem (start3 mem m)"
  by (simp add: inv3_def start3_def)

lemma rec3_length: "mem_ok3 mem \<Longrightarrow> j < 5 \<Longrightarrow> length (rec3 mem j) = sizeof_msg3"
  by (simp add: rec3_def mem_ok3_def length_fill3)

lemma fill_next3:
  assumes "mem_ok3 mem" and "i < 5"
  shows "(map (rec3 mem) [0..<i] @ drop i mem)[i := fill3 i ((map (rec3 mem) [0..<i] @ drop i mem) ! i)]
    = map (rec3 mem) [0..<Suc i] @ drop (Suc i) mem"
proof -
  have d: "drop i mem = mem ! i # drop (Suc i) mem" using assms by (simp add: mem_ok3_def Cons_nth_drop_Suc)
  have "(map (rec3 mem) [0..<i] @ drop i mem) ! i = mem ! i" by (simp add: nth_append d)
  then show ?thesis by (simp add: d list_update_append rec3_def)
qed

lemma map_upt_5: "map f [0..<4] @ [f 4] = map f [0..<5]"
  by (simp add: eval_nat_numeral)

lemma inv3_producer:
  assumes mem: "mem_ok3 mem" and inv: "inv3 mem s" and st: "producer3 cap s = Some s'"
  shows "inv3 mem s' \<and> left3 s = Suc (left3 s')"
proof (cases "ppc_3 s")
  case A_close
  with inv st show ?thesis by (auto simp: inv3_def left3_def producer3_def p_for3_def QUEUE_LENGTH3_def)
next
  case (A_fill i)
  with inv st fill_next3 [OF mem, of i] show ?thesis by (auto simp: inv3_def left3_def producer3_def)
next
  case (A_write i)
  with inv have i: "i < 5" and r: "child_r s" and t: "taken3 (cpc_3 s) \<le> i"
    by (auto simp: inv3_def)
  from inv A_write have "messages3 s ! i = rec3 mem i" by (simp add: inv3_def nth_append)
  with st A_write r have "s' = s\<lparr>bytes3 := bytes3 s @ rec3 mem i, ppc_3 := A_print i\<rparr>"
    by (auto simp: producer3_def split: if_splits)
  with inv A_write i t show ?thesis by (auto simp: inv3_def left3_def)
next
  case (A_print i)
  with inv have i: "i < 5" by (simp add: inv3_def)
  from inv A_print have "messages3 s ! i = rec3 mem i" by (simp add: inv3_def nth_append)
  with i have "''[PARENT] Sent message '' @ show_int (msg_id3 (messages3 s ! i)) @ nl = sent3 i"
    by (simp add: rec3_def decode_fill3 sent3_def)
  with st A_print have m: "s' = s\<lparr>parent_out3 := parent_out3 s @ [sent3 i], ppc_3 := p_for3 (Suc i)\<rparr>"
    by (simp add: producer3_def)
  show ?thesis
  proof (cases "Suc i < 5")
    case True
    with inv A_print m show ?thesis by (auto simp: inv3_def left3_def p_for3_def QUEUE_LENGTH3_def)
  next
    case False
    with i have "i = 4" by simp
    with inv A_print m show ?thesis by (auto simp: map_upt_5 inv3_def left3_def p_for3_def QUEUE_LENGTH3_def)
  qed
next
  case A_close_write
  with inv st show ?thesis by (auto simp: inv3_def left3_def producer3_def)
next
  case A_wait
  with inv st show ?thesis by (auto simp: inv3_def left3_def producer3_def split: if_splits)
qed (use st inv in \<open>auto simp: producer3_def\<close>)

lemma inv3_consumer:
  assumes mem: "mem_ok3 mem" and inv: "inv3 mem s" and st: "consumer3 s = Some s'"
  shows "inv3 mem s' \<and> left3 s = Suc (left3 s')"
proof (cases "cpc_3 s")
  case B_close
  with inv st show ?thesis by (auto simp: inv3_def left3_def consumer3_def c_for3_def QUEUE_LENGTH3_def)
next
  case (B_read i)
  with inv have i: "i < 5" "i \<le> written3 (ppc_3 s)" by (auto simp: inv3_def)
  show ?thesis
  proof (cases "i < written3 (ppc_3 s)")
    case True
    with inv B_read have b: "bytes3 s = rec3 mem i @ concat (map (rec3 mem) [Suc i..<written3 (ppc_3 s)])"
      by (simp add: inv3_def upt_conv_Cons)
    have l: "length (rec3 mem i) = sizeof_msg3" by (rule rec3_length [OF mem i(1)])
    then have "bytes3 s \<noteq> []" unfolding b by (auto simp: sizeof_msg3_def)
    moreover have "length (msg3 s) = sizeof_msg3" using inv by (simp add: inv3_def)
    ultimately have "s' = s\<lparr>msg3 := rec3 mem i, bytes3 := concat (map (rec3 mem) [Suc i..<written3 (ppc_3 s)]),
        cpc_3 := B_print i\<rparr>"
      using st B_read l by (auto simp: consumer3_def b)
    with inv B_read True i l show ?thesis by (auto simp: inv3_def left3_def)
  next
    case False
    with i have w: "written3 (ppc_3 s) = i" by simp
    then have "parent_w s" "bytes3 s = []" using inv B_read i(1) by (auto simp: inv3_def)
    with st B_read show ?thesis by (simp add: consumer3_def)
  qed
next
  case (B_print i)
  with inv have i: "i < 5" and "msg3 s = rec3 mem i" by (auto simp: inv3_def)
  then have m: "received3 (msg3 s) = line3 i" by (simp add: rec3_def received_fill3)
  show ?thesis
  proof (cases "Suc i < 5")
    case True
    with inv st B_print m show ?thesis by (auto simp: inv3_def left3_def consumer3_def c_for3_def QUEUE_LENGTH3_def)
  next
    case False
    with i have "i = 4" by simp
    with inv st B_print m show ?thesis by (auto simp: map_upt_5 inv3_def left3_def consumer3_def c_for3_def QUEUE_LENGTH3_def)
  qed
next
  case B_close_read
  with inv st show ?thesis by (auto simp: inv3_def left3_def consumer3_def)
qed (use st in \<open>simp add: consumer3_def\<close>)

lemma no_deadlock3:
  assumes mem: "mem_ok3 mem" and inv: "inv3 mem s" and cap: "sizeof_msg3 \<le> cap" and left: "0 < left3 s"
  shows "\<not> stuck (producer3 cap) consumer3 s"
proof
  assume "stuck (producer3 cap) consumer3 s"
  then have p: "producer3 cap s = None" and c: "consumer3 s = None" by (simp_all add: stuck_def)
  show False
  proof (cases "cpc_3 s")
    case (B_read i)
    with c have "bytes3 s = []" by (auto simp: consumer3_def split: if_splits)
    with p cap have "ppc_3 s = A_wait \<or> ppc_3 s = A_end \<or> ppc_3 s = A_killed"
      by (auto simp: producer3_def split: ppc3.splits if_splits)
    with inv B_read have w: "written3 (ppc_3 s) = 5" and i: "i < 5" by (auto simp: inv3_def)
    then have "[i..<5] \<noteq> []" by simp
    then have "rec3 mem i = []" using \<open>bytes3 s = []\<close> inv B_read w i by (simp add: inv3_def upt_conv_Cons)
    with rec3_length [OF mem i] show False by (simp add: sizeof_msg3_def)
  next
    case B_end
    with inv have "written3 (ppc_3 s) = 5" "p_in3 (ppc_3 s)" using B_end by (cases "ppc_3 s"; auto simp: inv3_def)+
    with p B_end left show False
      by (cases "ppc_3 s") (auto simp: producer3_def left3_def inv3_def split: if_splits)
  qed (use c in \<open>simp_all add: consumer3_def\<close>)
qed

lemma inv3_final:
  assumes "inv3 mem s" and "left3 s = 0"
  shows "ppc_3 s = A_end" and "cpc_3 s = B_end"
proof -
  from assms have p: "p_in3 (ppc_3 s)" "p_left3 (ppc_3 s) = 0" and c: "c_in3 (cpc_3 s)" "c_left3 (cpc_3 s) = 0"
    by (simp_all add: inv3_def left3_def)
  from p show "ppc_3 s = A_end" by (cases "ppc_3 s") auto
  from c show "cpc_3 s = B_end" by (cases "cpc_3 s") auto
qed

interpretation mq3: counted_processes "producer3 cap" consumer3 "\<lambda>s. mem_ok3 mem \<and> inv3 mem s" left3 for cap mem
  by unfold_locales (auto dest: inv3_producer inv3_consumer)

section \<open>Properties\<close>

text \<open>
  C35: lab 03, for a pipe that holds at least the 512 bytes the standard asks for and whatever the
  memory held before. However the two processes interleave, neither is killed, the child has at every moment
  printed the first messages, complete and in order, some step is possible until both have ended, and that is
  after exactly 30 steps, with all five messages reported sent and received.
\<close>

theorem message_queue3:
  assumes "512 \<le> cap" and "length mem = QUEUE_LENGTH3" and "\<forall>m \<in> set mem. length m = sizeof_msg3"
    and "length m0 = sizeof_msg3"
    and run: "sched (producer3 cap) consumer3 bs (start3 mem m0) = Some s"
  shows "ppc_3 s \<noteq> A_killed
    \<and> (\<exists>k \<le> 5. child_out3 s = map line3 [0..<k])
    \<and> length bs \<le> 30 \<and> (stuck (producer3 cap) consumer3 s \<longleftrightarrow> length bs = 30)
    \<and> (length bs = 30 \<longrightarrow> ppc_3 s = A_end \<and> cpc_3 s = B_end
         \<and> child_out3 s = map line3 [0..<5] \<and> parent_out3 s = map sent3 [0..<5])"
proof -
  have mem: "mem_ok3 mem" using assms by (simp add: mem_ok3_def QUEUE_LENGTH3_def)
  from mem inv3_start [OF mem assms(4)] have "mem_ok3 mem \<and> inv3 mem (start3 mem m0)" by simp
  note ok = mq3.sched_ok [OF this run] and count = mq3.sched_count [OF this run]
  from ok have inv: "inv3 mem s" by simp
  from count have n: "30 = length bs + left3 s" by (simp add: left3_def start3_def)
  have k: "printed3 (cpc_3 s) \<le> 5" using inv by (cases "cpc_3 s") (auto simp: inv3_def)
  have cap: "sizeof_msg3 \<le> cap" using assms(1) by (simp add: sizeof_msg3_def MSG_SIZE3_def)
  have "stuck (producer3 cap) consumer3 s" if "left3 s = 0"
    using inv3_final [OF inv that] by (simp add: stuck_def producer3_def consumer3_def)
  with no_deadlock3 [OF mem inv cap] have "stuck (producer3 cap) consumer3 s \<longleftrightarrow> left3 s = 0" by blast
  with n k inv inv3_final [OF inv] show ?thesis by (auto simp: inv3_def)
qed

lemma first_message3:
  "\<exists>s. sched (producer3 512) consumer3 [True, True, True, False, False, False]
     (start3 (replicate 5 (replicate sizeof_msg3 NUL)) (replicate sizeof_msg3 NUL)) = Some s"
  by (simp add: start3_def producer3_def consumer3_def p_for3_def c_for3_def QUEUE_LENGTH3_def sizeof_msg3_def
      MSG_SIZE3_def fill3_def)

theorem message_queue3_witness:
  "\<exists>s. sched (producer3 512) consumer3 [True, True, True, False, False, False]
        (start3 (replicate 5 (replicate sizeof_msg3 NUL)) (replicate sizeof_msg3 NUL)) = Some s
     \<and> ppc_3 s \<noteq> A_killed \<and> \<not> stuck (producer3 512) consumer3 s"
proof -
  obtain s where run: "sched (producer3 512) consumer3 [True, True, True, False, False, False]
      (start3 (replicate 5 (replicate sizeof_msg3 NUL)) (replicate sizeof_msg3 NUL)) = Some s"
    using first_message3 by blast
  have "ppc_3 s \<noteq> A_killed \<and> \<not> stuck (producer3 512) consumer3 s"
    using message_queue3 [OF _ _ _ _ run] by (simp add: QUEUE_LENGTH3_def)
  with run show ?thesis by blast
qed

end
