(* ===== verification/Ipc_Fifo.thy ===== *)
theory Ipc_Fifo
  imports Syscalls Interleaving
begin

text \<open>
  \<^verbatim>\<open>02_ipc/lab_02_pipes\<close>: a message through a pipe, then one through a named pipe that the parent creates
  with \<^verbatim>\<open>mkfifo\<close> after the \<^verbatim>\<open>fork\<close>. The named pipe is whether its name exists, the bytes in it, its
  open ends, and whether each end has ever been opened: \<^verbatim>\<open>open\<close> of one end announces it and then waits for the
  other. \<open>can\<close> tells whether \<^verbatim>\<open>mkfifo\<close> may create the name; a name that exists already is the named
  pipe an earlier run left behind.
\<close>

section \<open>The model\<close>

definition FIFO_NAME :: string where "FIFO_NAME = ''/tmp/lab2_fifo''"

datatype ppc2 = E_close | E_write | E_close_write | E_mkfifo | E_open | E_opening | E_write_fifo | E_close_fifo
  | E_wait | E_unlink | E_end | E_killed

datatype cpc2 = F_close | F_read | F_print | F_close_read | F_open | F_opening | F_read_fifo | F_print_fifo
  | F_close_fifo | F_end

record fifo2 =
  pipe2 :: string
  pr2 :: bool        \<comment> \<open>\<^verbatim>\<open>pipefd[0]\<close> of the parent is open\<close>
  pw2 :: bool
  cr2 :: bool        \<comment> \<open>\<^verbatim>\<open>pipefd[0]\<close> of the child\<close>
  cw2 :: bool
  exists2 :: bool    \<comment> \<open>the name of the named pipe\<close>
  fifo_bytes2 :: string
  w_came2 :: bool
  w_open2 :: bool
  r_came2 :: bool
  r_open2 :: bool
  pfd2 :: bool       \<comment> \<open>\<^verbatim>\<open>fd\<close> of the parent is not \<open>-1\<close>\<close>
  cfd2 :: bool
  buffer2 :: string
  ppc_2 :: ppc2
  cpc_2 :: cpc2
  parent_out2 :: "sys list"
  child_out2 :: "sys list"

definition start2 :: "bool \<Rightarrow> string \<Rightarrow> fifo2" where
  "start2 pre b = \<lparr>pipe2 = [], pr2 = True, pw2 = True, cr2 = True, cw2 = True, exists2 = pre, fifo_bytes2 = [],
     w_came2 = False, w_open2 = False, r_came2 = False, r_open2 = False, pfd2 = True, cfd2 = True, buffer2 = b,
     ppc_2 = E_close, cpc_2 = F_close, parent_out2 = [], child_out2 = []\<rparr>"

definition msg2_pipe :: string where "msg2_pipe = ''Hello Child via pipe!'' @ [NUL]"
definition msg2_fifo :: string where "msg2_fifo = ''Hello Child via FIFO!'' @ [NUL]"

definition BUFFER2 :: nat where "BUFFER2 = 128"

text \<open>\<^verbatim>\<open>read(fd, buffer, sizeof(buffer))\<close> with these bytes to be read.\<close>

definition read_into2 :: "string \<Rightarrow> string \<Rightarrow> string" where
  "read_into2 bs b = take BUFFER2 bs @ drop (length (take BUFFER2 bs)) b"

definition via2 :: "string \<Rightarrow> string \<Rightarrow> sys" where
  "via2 what b = Print (''[CHILD] Received via '' @ what @ '': '' @ cstr b @ nl)"

definition parent2 :: "bool \<Rightarrow> fifo2 \<Rightarrow> fifo2 option" where
  "parent2 can s =
     (case ppc_2 s of
        E_close \<Rightarrow> Some (s\<lparr>pr2 := False, ppc_2 := E_write\<rparr>)
      | E_write \<Rightarrow> Some (if pr2 s \<or> cr2 s then s\<lparr>pipe2 := pipe2 s @ msg2_pipe, ppc_2 := E_close_write\<rparr>
                         else s\<lparr>ppc_2 := E_killed\<rparr>)
      | E_close_write \<Rightarrow> Some (s\<lparr>pw2 := False, ppc_2 := E_mkfifo\<rparr>)
      | E_mkfifo \<Rightarrow> Some (s\<lparr>exists2 := exists2 s \<or> can, ppc_2 := E_open\<rparr>)
      | E_open \<Rightarrow> Some (if exists2 s then s\<lparr>w_came2 := True, w_open2 := True, ppc_2 := E_opening\<rparr>
                        else s\<lparr>pfd2 := False, parent_out2 := parent_out2 s @ [Perror ''open fifo''], ppc_2 := E_write_fifo\<rparr>)
      | E_opening \<Rightarrow> if r_came2 s then Some (s\<lparr>ppc_2 := E_write_fifo\<rparr>) else None
      | E_write_fifo \<Rightarrow> Some (if \<not> pfd2 s then s\<lparr>ppc_2 := E_close_fifo\<rparr>
                              else if r_open2 s then s\<lparr>fifo_bytes2 := fifo_bytes2 s @ msg2_fifo, ppc_2 := E_close_fifo\<rparr>
                              else s\<lparr>ppc_2 := E_killed\<rparr>)
      | E_close_fifo \<Rightarrow> Some (s\<lparr>w_open2 := False, ppc_2 := E_wait\<rparr>)
      | E_wait \<Rightarrow> if cpc_2 s = F_end then Some (s\<lparr>ppc_2 := E_unlink\<rparr>) else None
      | E_unlink \<Rightarrow> Some (s\<lparr>exists2 := False, parent_out2 := parent_out2 s @ [Unlink FIFO_NAME], ppc_2 := E_end\<rparr>)
      | E_end \<Rightarrow> None
      | E_killed \<Rightarrow> None)"

definition child2 :: "fifo2 \<Rightarrow> fifo2 option" where
  "child2 s =
     (case cpc_2 s of
        F_close \<Rightarrow> Some (s\<lparr>cw2 := False, cpc_2 := F_read\<rparr>)
      | F_read \<Rightarrow>
          if pipe2 s \<noteq> []
          then Some (s\<lparr>buffer2 := read_into2 (pipe2 s) (buffer2 s), pipe2 := drop BUFFER2 (pipe2 s), cpc_2 := F_print\<rparr>)
          else if pw2 s \<or> cw2 s then None else Some (s\<lparr>cpc_2 := F_print\<rparr>)
      | F_print \<Rightarrow> Some (s\<lparr>child_out2 := child_out2 s @ [via2 ''pipe'' (buffer2 s)], cpc_2 := F_close_read\<rparr>)
      | F_close_read \<Rightarrow> Some (s\<lparr>cr2 := False, cpc_2 := F_open\<rparr>)
      | F_open \<Rightarrow> Some (if exists2 s then s\<lparr>r_came2 := True, r_open2 := True, cpc_2 := F_opening\<rparr>
                        else s\<lparr>cfd2 := False, child_out2 := child_out2 s @ [Perror ''open fifo''], cpc_2 := F_read_fifo\<rparr>)
      | F_opening \<Rightarrow> if w_came2 s then Some (s\<lparr>cpc_2 := F_read_fifo\<rparr>) else None
      | F_read_fifo \<Rightarrow>
          if \<not> cfd2 s then Some (s\<lparr>cpc_2 := F_print_fifo\<rparr>)
          else if fifo_bytes2 s \<noteq> []
          then Some (s\<lparr>buffer2 := read_into2 (fifo_bytes2 s) (buffer2 s), fifo_bytes2 := drop BUFFER2 (fifo_bytes2 s),
                      cpc_2 := F_print_fifo\<rparr>)
          else if w_open2 s then None else Some (s\<lparr>cpc_2 := F_print_fifo\<rparr>)
      | F_print_fifo \<Rightarrow> Some (s\<lparr>child_out2 := child_out2 s @ [via2 ''FIFO'' (buffer2 s)], cpc_2 := F_close_fifo\<rparr>)
      | F_close_fifo \<Rightarrow> Some (s\<lparr>r_open2 := False, cpc_2 := F_end\<rparr>)
      | F_end \<Rightarrow> None)"

section \<open>The invariant\<close>

text \<open>How far the two have come.\<close>

primrec pn :: "ppc2 \<Rightarrow> nat" where
  "pn E_close = 0" | "pn E_write = 1" | "pn E_close_write = 2" | "pn E_mkfifo = 3" | "pn E_open = 4" | "pn E_opening = 5"
| "pn E_write_fifo = 6" | "pn E_close_fifo = 7" | "pn E_wait = 8" | "pn E_unlink = 9" | "pn E_end = 10" | "pn E_killed = 11"

primrec cn :: "cpc2 \<Rightarrow> nat" where
  "cn F_close = 0" | "cn F_read = 1" | "cn F_print = 2" | "cn F_close_read = 3" | "cn F_open = 4" | "cn F_opening = 5"
| "cn F_read_fifo = 6" | "cn F_print_fifo = 7" | "cn F_close_fifo = 8" | "cn F_end = 9"

definition left2 :: "fifo2 \<Rightarrow> nat" where
  "left2 s = (10 - pn (ppc_2 s)) + (9 - cn (cpc_2 s))"

text \<open>What the child prints: the first message, and the second or, when \<^verbatim>\<open>open\<close> failed, the first again.\<close>

definition first2 :: sys where
  "first2 = Print (''[CHILD] Received via pipe: Hello Child via pipe!'' @ nl)"

definition second2 :: "bool \<Rightarrow> sys" where
  "second2 b = Print (''[CHILD] Received via FIFO: '' @ (if b then ''Hello Child via FIFO!'' else ''Hello Child via pipe!'') @ nl)"

definition control2 :: "bool \<Rightarrow> bool \<Rightarrow> nat \<Rightarrow> nat \<Rightarrow> fifo2 \<Rightarrow> bool" where
  "control2 pre can p c s \<longleftrightarrow> p \<le> 10
     \<and> (pr2 s \<longleftrightarrow> p < 1) \<and> (pw2 s \<longleftrightarrow> p < 3) \<and> (cw2 s \<longleftrightarrow> c < 1) \<and> (cr2 s \<longleftrightarrow> c < 4)
     \<and> (2 \<le> c \<longrightarrow> 2 \<le> p) \<and> (9 \<le> p \<longrightarrow> c = 9)
     \<and> (exists2 s \<longleftrightarrow> (if p < 4 then pre else p < 10 \<and> (pre \<or> can)))
     \<and> (p < 6 \<longrightarrow> pfd2 s) \<and> (\<not> pfd2 s \<longrightarrow> \<not> pre \<and> \<not> can) \<and> (5 \<le> p \<and> pfd2 s \<longrightarrow> pre \<or> can)
     \<and> (c < 6 \<longrightarrow> cfd2 s) \<and> (\<not> cfd2 s \<longrightarrow> \<not> pre) \<and> (5 \<le> c \<and> cfd2 s \<longrightarrow> pre \<or> can)
     \<and> (w_came2 s \<longleftrightarrow> 5 \<le> p \<and> pfd2 s) \<and> (w_open2 s \<longleftrightarrow> w_came2 s \<and> p < 8)
     \<and> (r_came2 s \<longleftrightarrow> 5 \<le> c \<and> cfd2 s) \<and> (r_open2 s \<longleftrightarrow> r_came2 s \<and> c < 9)
     \<and> (6 \<le> p \<and> pfd2 s \<longrightarrow> 5 \<le> c \<and> cfd2 s) \<and> (6 \<le> c \<and> cfd2 s \<longrightarrow> 5 \<le> p) \<and> (7 \<le> c \<and> cfd2 s \<longrightarrow> 7 \<le> p)"

definition data2 :: "nat \<Rightarrow> nat \<Rightarrow> fifo2 \<Rightarrow> bool" where
  "data2 p c s \<longleftrightarrow> length (buffer2 s) = BUFFER2
     \<and> pipe2 s = (if 1 < p \<and> c < 2 then msg2_pipe else [])
     \<and> fifo_bytes2 s = (if 7 \<le> p \<and> pfd2 s \<and> c < 7 then msg2_fifo else [])
     \<and> (2 \<le> c \<longrightarrow> cstr (buffer2 s) = (if 7 \<le> c \<and> cfd2 s then butlast msg2_fifo else butlast msg2_pipe))
     \<and> parent_out2 s = (if pfd2 s then [] else [Perror ''open fifo'']) @ (if 10 \<le> p then [Unlink FIFO_NAME] else [])
     \<and> child_out2 s = (if 3 \<le> c then [first2] else []) @ (if cfd2 s then [] else [Perror ''open fifo''])
         @ (if 8 \<le> c then [second2 (cfd2 s)] else [])"

definition inv2 :: "bool \<Rightarrow> bool \<Rightarrow> fifo2 \<Rightarrow> bool" where
  "inv2 pre can s \<longleftrightarrow> control2 pre can (pn (ppc_2 s)) (cn (cpc_2 s)) s \<and> data2 (pn (ppc_2 s)) (cn (cpc_2 s)) s"

lemma inv2_start: "length b = BUFFER2 \<Longrightarrow> inv2 pre can (start2 pre b)"
  by (simp add: inv2_def control2_def data2_def start2_def)

lemma cn_le: "cn c \<le> 9"
  by (cases c) simp_all

lemma read_msg2:
  "length b = BUFFER2 \<Longrightarrow> length (read_into2 msg2_pipe b) = BUFFER2"
  "length b = BUFFER2 \<Longrightarrow> length (read_into2 msg2_fifo b) = BUFFER2"
  "cstr (read_into2 msg2_pipe b) = butlast msg2_pipe"
  "cstr (read_into2 msg2_fifo b) = butlast msg2_fifo"
  "drop BUFFER2 msg2_pipe = []" "drop BUFFER2 msg2_fifo = []" "length msg2_fifo \<le> BUFFER2" "length msg2_pipe \<le> BUFFER2" "msg2_pipe \<noteq> []" "msg2_fifo \<noteq> []"
  "[] \<noteq> msg2_pipe" "[] \<noteq> msg2_fifo"
  by (simp_all add: read_into2_def msg2_pipe_def msg2_fifo_def BUFFER2_def cstr_def)

lemma via2_first: "cstr b = butlast msg2_pipe \<Longrightarrow> via2 ''pipe'' b = first2"
  by (simp add: via2_def first2_def msg2_pipe_def)

lemma via2_second:
  "cstr b = butlast msg2_pipe \<Longrightarrow> via2 ''FIFO'' b = second2 False"
  "cstr b = butlast msg2_fifo \<Longrightarrow> via2 ''FIFO'' b = second2 True"
  by (simp_all add: via2_def second2_def msg2_pipe_def msg2_fifo_def)

lemma inv2_parent:
  "inv2 pre can s \<Longrightarrow> parent2 can s = Some s' \<Longrightarrow> inv2 pre can s' \<and> left2 s' < left2 s"
  by (cases "ppc_2 s"; cases "cpc_2 s"; clarsimp simp: parent2_def inv2_def split: if_splits; clarsimp simp: control2_def;
      clarsimp simp: data2_def; simp add: left2_def)

lemma inv2_child:
  "inv2 pre can s \<Longrightarrow> child2 s = Some s' \<Longrightarrow> inv2 pre can s' \<and> left2 s' < left2 s"
  by (cases "cpc_2 s"; cases "ppc_2 s"; clarsimp simp: child2_def inv2_def split: if_splits; clarsimp simp: control2_def;
      clarsimp simp: data2_def read_msg2 via2_first via2_second split: if_splits; auto simp: left2_def read_msg2)

interpretation ff2: two_processes "parent2 can" child2 "inv2 pre can" left2 for can pre
  by unfold_locales (auto dest: inv2_parent inv2_child)

section \<open>Properties\<close>

definition done2 :: "fifo2 \<Rightarrow> bool" where
  "done2 s \<longleftrightarrow> ppc_2 s = E_end \<and> cpc_2 s = F_end \<and> \<not> exists2 s"

lemma inv2_stuck:
  assumes inv: "inv2 pre can s" and "stuck (parent2 can) child2 s"
  shows "(pre \<or> can) \<and> done2 s \<and> child_out2 s = [first2, second2 True] \<and> parent_out2 s = [Unlink FIFO_NAME]
    \<or> \<not> pre \<and> can \<and> ppc_2 s = E_opening \<and> cpc_2 s = F_end \<and> exists2 s
        \<and> child_out2 s = [first2, Perror ''open fifo'', second2 False] \<and> parent_out2 s = []
    \<or> \<not> pre \<and> \<not> can \<and> done2 s \<and> child_out2 s = [first2, Perror ''open fifo'', second2 False]
        \<and> parent_out2 s = [Perror ''open fifo'', Unlink FIFO_NAME]"
  using assms
  by (cases "ppc_2 s"; cases "cpc_2 s"; clarsimp simp: stuck_def parent2_def child2_def inv2_def split: if_splits;
      clarsimp simp: control2_def; clarsimp simp: data2_def done2_def split: if_splits)

text \<open>The two ends of a run in which the name is not there at first.\<close>

lemma good_schedule2:
  "\<exists>bs s. sched (parent2 True) child2 bs (start2 False b) = Some s \<and> stuck (parent2 True) child2 s \<and> done2 s"
  by (rule exI [of _ "replicate 5 True @ replicate 6 False @ [True, True] @ replicate 3 False @ replicate 3 True"])
    (simp add: eval_nat_numeral start2_def parent2_def child2_def read_msg2 stuck_def done2_def)

lemma bad_schedule2:
  "\<exists>bs s. sched (parent2 True) child2 bs (start2 False b) = Some s \<and> stuck (parent2 True) child2 s
     \<and> ppc_2 s = E_opening"
  by (rule exI [of _ "replicate 3 True @ replicate 8 False @ [True, True]"])
    (simp add: eval_nat_numeral start2_def parent2_def child2_def read_msg2 stuck_def)

text \<open>
  C36: lab 02. Every schedule has at most 19 steps, and where it cannot go on is one of three ends. When the
  named pipe can be created or is there, both messages may arrive, both processes end and the name is removed; and
  when it is there from the start that is the only end. When it is not, the child may call \<^verbatim>\<open>open\<close> before the
  parent has called \<^verbatim>\<open>mkfifo\<close>: then it reports the error, prints the first message a second time and ends, and
  the parent waits in \<^verbatim>\<open>open\<close> for ever. Both of these happen.
\<close>

theorem fifo_race2:
  assumes "length b = BUFFER2"
  shows "(\<forall>bs s. sched (parent2 can) child2 bs (start2 pre b) = Some s \<longrightarrow> length bs \<le> 19
      \<and> (stuck (parent2 can) child2 s \<longrightarrow>
          (pre \<or> can) \<and> done2 s \<and> child_out2 s = [first2, second2 True] \<and> parent_out2 s = [Unlink FIFO_NAME]
        \<or> \<not> pre \<and> can \<and> ppc_2 s = E_opening \<and> cpc_2 s = F_end \<and> exists2 s
            \<and> child_out2 s = [first2, Perror ''open fifo'', second2 False] \<and> parent_out2 s = []
        \<or> \<not> pre \<and> \<not> can \<and> done2 s \<and> child_out2 s = [first2, Perror ''open fifo'', second2 False]
            \<and> parent_out2 s = [Perror ''open fifo'', Unlink FIFO_NAME]))
    \<and> (\<exists>bs s. sched (parent2 True) child2 bs (start2 False b) = Some s \<and> stuck (parent2 True) child2 s \<and> done2 s)
    \<and> (\<exists>bs s. sched (parent2 True) child2 bs (start2 False b) = Some s \<and> stuck (parent2 True) child2 s
         \<and> ppc_2 s = E_opening)"
proof (intro conjI good_schedule2 bad_schedule2 allI impI)
  fix bs s
  assume run: "sched (parent2 can) child2 bs (start2 pre b) = Some s"
  note ok = ff2.sched_ok [OF inv2_start [OF assms] run]
  then show "length bs \<le> 19" by (simp add: left2_def start2_def)
  assume "stuck (parent2 can) child2 s"
  with inv2_stuck conjunct1 [OF ok]
  show "(pre \<or> can) \<and> done2 s \<and> child_out2 s = [first2, second2 True] \<and> parent_out2 s = [Unlink FIFO_NAME]
        \<or> \<not> pre \<and> can \<and> ppc_2 s = E_opening \<and> cpc_2 s = F_end \<and> exists2 s
            \<and> child_out2 s = [first2, Perror ''open fifo'', second2 False] \<and> parent_out2 s = []
        \<or> \<not> pre \<and> \<not> can \<and> done2 s \<and> child_out2 s = [first2, Perror ''open fifo'', second2 False]
            \<and> parent_out2 s = [Perror ''open fifo'', Unlink FIFO_NAME]" .
qed

theorem fifo_race2_witness:
  "\<exists>s. sched (parent2 True) child2 [False] (start2 True (replicate BUFFER2 NUL)) = Some s
     \<and> (stuck (parent2 True) child2 s \<longrightarrow> done2 s \<and> child_out2 s = [first2, second2 True])"
proof -
  obtain s where run: "sched (parent2 True) child2 [False] (start2 True (replicate BUFFER2 NUL)) = Some s"
    by (simp add: child2_def start2_def)
  with conjunct1 [OF fifo_race2 [of "replicate BUFFER2 NUL" True True]] show ?thesis
    by (auto simp del: sched.simps)
qed

end
