(* ===== verification/Signals.thy ===== *)
theory Signals
  imports Line_Input
begin

text \<open>
  The labs about signals: \<^verbatim>\<open>02_ipc/lab_01_signals\<close>, \<^verbatim>\<open>01_processes/lab08_signal_control\<close> and
  \<^verbatim>\<open>01_processes/lab09_process_groups\<close>. What the kernel does with a signal is written out as far as
  the programs use it: a pending signal is a member of a set, a caught one runs the handler of the program, the
  default action ends or stops the process, and a stopped process takes no signal but the one that continues it.
\<close>

abbreviation SIGINT :: int where "SIGINT \<equiv> 2"
abbreviation SIGUSR1 :: int where "SIGUSR1 \<equiv> 10"
abbreviation SIGUSR2 :: int where "SIGUSR2 \<equiv> 12"
abbreviation SIGTERM :: int where "SIGTERM \<equiv> 15"
abbreviation SIGCONT :: int where "SIGCONT \<equiv> 18"
abbreviation SIGSTOP :: int where "SIGSTOP \<equiv> 19"

section \<open>IPC lab 01: a parent that signals its child\<close>

datatype ppc1 = S_usr1 | S_usr2 | S_term | S_wait | S_end

record sig1 =
  pending1 :: "int set"
  alive1 :: bool
  waiting1 :: bool     \<comment> \<open>the child has printed its line and is in its loop\<close>
  ppc_1 :: ppc1
  parent_out1 :: "sys list"
  child_out1 :: "sys list"

definition start1 :: sig1 where
  "start1 = \<lparr>pending1 = {}, alive1 = True, waiting1 = False, ppc_1 = S_usr1, parent_out1 = [], child_out1 = []\<rparr>"

text \<open>\<^verbatim>\<open>handler\<close>; \<open>strsignal\<close> is the library function of that name and \<open>info\<close> the sender, when the kernel says it.\<close>

definition handler1 :: "(int \<Rightarrow> string) \<Rightarrow> int option \<Rightarrow> int \<Rightarrow> sys list" where
  "handler1 strsignal info sg =
     [Print (''[CHILD] Received signal '' @ show_int sg @ '' ('' @ strsignal sg @ '')'' @ nl)]
     @ (case info of Some p \<Rightarrow> if 0 < p then [Print (''[CHILD] Signal sent from PID: '' @ show_int p @ nl)] else [] | None \<Rightarrow> [])
     @ (if sg = SIGUSR1 then [Print (''[CHILD] Performing action for SIGUSR1'' @ nl)]
        else if sg = SIGUSR2 then [Print (''[CHILD] Performing action for SIGUSR2'' @ nl)] else [])
     @ [Print (''------------------------------------------'' @ nl)]"

definition send1 :: "int \<Rightarrow> int \<Rightarrow> string \<Rightarrow> ppc1 \<Rightarrow> sig1 \<Rightarrow> sig1" where
  "send1 pid sg line next s =
     s\<lparr>pending1 := (if alive1 s then insert sg (pending1 s) else pending1 s), ppc_1 := next,
       parent_out1 := parent_out1 s @ [Sleep 1, Print line, Kill pid sg]\<rparr>"

definition parent1 :: "int \<Rightarrow> sig1 \<Rightarrow> sig1 option" where
  "parent1 pid s =
     (case ppc_1 s of
        S_usr1 \<Rightarrow> Some (send1 pid SIGUSR1 (''[PARENT] Sending SIGUSR1 to child ('' @ show_int pid @ '')'' @ nl) S_usr2 s)
      | S_usr2 \<Rightarrow> Some (send1 pid SIGUSR2 (''[PARENT] Sending SIGUSR2 to child ('' @ show_int pid @ '')'' @ nl) S_term s)
      | S_term \<Rightarrow> Some (send1 pid SIGTERM (''[PARENT] Done, terminating child.'' @ nl) S_wait s)
      | S_wait \<Rightarrow> if alive1 s then None else Some (s\<lparr>ppc_1 := S_end, parent_out1 := parent_out1 s @ [Wait (-1)]\<rparr>)
      | S_end \<Rightarrow> None)"

text \<open>The child goes on to its loop; the kernel delivers one of the pending signals, whichever it likes.\<close>

datatype ev1 = Parent1 | Child1 | Deliver1 int

definition step1 :: "(int \<Rightarrow> string) \<Rightarrow> int \<Rightarrow> int \<Rightarrow> ev1 \<Rightarrow> sig1 \<Rightarrow> sig1 option" where
  "step1 strsignal parent pid e s =
     (case e of
        Parent1 \<Rightarrow> parent1 pid s
      | Child1 \<Rightarrow>
          if alive1 s \<and> \<not> waiting1 s
          then Some (s\<lparr>waiting1 := True,
                 child_out1 := child_out1 s @ [Print (''[CHILD] PID = '' @ show_int pid @ '' waiting for signals...'' @ nl)]\<rparr>)
          else None
      | Deliver1 sg \<Rightarrow>
          if \<not> alive1 s \<or> sg \<notin> pending1 s then None
          else if sg = SIGTERM then Some (s\<lparr>alive1 := False, pending1 := {}\<rparr>)
          else Some (s\<lparr>pending1 := pending1 s - {sg}, child_out1 := child_out1 s @ handler1 strsignal (Some parent) sg\<rparr>))"

fun steps1 :: "(int \<Rightarrow> string) \<Rightarrow> int \<Rightarrow> int \<Rightarrow> ev1 list \<Rightarrow> sig1 \<Rightarrow> sig1 option" where
  "steps1 str p c [] s = Some s"
| "steps1 str p c (e # es) s = Option.bind (step1 str p c e s) (steps1 str p c es)"

text \<open>The signals whose handler a run executes, in order.\<close>

fun handled1 :: "ev1 list \<Rightarrow> int list" where
  "handled1 [] = []"
| "handled1 (Deliver1 sg # es) = (if sg = SIGTERM then handled1 es else sg # handled1 es)"
| "handled1 (Parent1 # es) = handled1 es"
| "handled1 (Child1 # es) = handled1 es"

text \<open>Signals that may still be handled, and the steps left.\<close>

definition due1 :: "sig1 \<Rightarrow> int set" where
  "due1 s = (case ppc_1 s of S_usr1 \<Rightarrow> {SIGUSR1, SIGUSR2} | S_usr2 \<Rightarrow> {SIGUSR2} | _ \<Rightarrow> {}) \<union> (pending1 s - {SIGTERM})"

definition todo1 :: "ppc1 \<Rightarrow> nat" where
  "todo1 p = (case p of S_usr1 \<Rightarrow> 7 | S_usr2 \<Rightarrow> 5 | S_term \<Rightarrow> 3 | S_wait \<Rightarrow> 1 | S_end \<Rightarrow> 0)"

definition left1 :: "sig1 \<Rightarrow> nat" where
  "left1 s = todo1 (ppc_1 s) + card (pending1 s) + (if waiting1 s then 0 else 1)"

definition ok1 :: "sig1 \<Rightarrow> bool" where
  "ok1 s \<longleftrightarrow> pending1 s \<subseteq> {SIGUSR1, SIGUSR2, SIGTERM}
     \<and> (ppc_1 s = S_usr1 \<longrightarrow> pending1 s = {} \<and> alive1 s) \<and> (ppc_1 s = S_usr2 \<longrightarrow> pending1 s \<subseteq> {SIGUSR1} \<and> alive1 s)
     \<and> (ppc_1 s = S_term \<longrightarrow> pending1 s \<subseteq> {SIGUSR1, SIGUSR2} \<and> alive1 s)
     \<and> (ppc_1 s = S_wait \<longrightarrow> alive1 s \<longrightarrow> SIGTERM \<in> pending1 s) \<and> (ppc_1 s = S_end \<longrightarrow> \<not> alive1 s)"

text \<open>What an event of the child prints.\<close>

fun prints1 :: "(int \<Rightarrow> string) \<Rightarrow> int \<Rightarrow> int \<Rightarrow> ev1 \<Rightarrow> sys list" where
  "prints1 str p c Parent1 = []"
| "prints1 str p c Child1 = [Print (''[CHILD] PID = '' @ show_int c @ '' waiting for signals...'' @ nl)]"
| "prints1 str p c (Deliver1 sg) = (if sg = SIGTERM then [] else handler1 str (Some p) sg)"

lemma step1_ok:
  assumes ok: "ok1 s" and st: "step1 str p c e s = Some s'"
  shows "ok1 s' \<and> left1 s' < left1 s \<and> set (handled1 [e]) \<subseteq> due1 s \<and> due1 s' \<subseteq> due1 s - set (handled1 [e])
    \<and> child_out1 s' = child_out1 s @ prints1 str p c e"
proof (cases e)
  case Parent1
  have fin: "finite (pending1 s)" using ok by (auto simp: ok1_def intro: finite_subset)
  have c: "card (insert x (pending1 s)) \<le> Suc (card (pending1 s))" for x
    by (rule card_insert_le_m1) simp_all
  from st Parent1 have st1: "parent1 c s = Some s'" by (simp add: step1_def)
  show ?thesis
  proof (cases "ppc_1 s")
    case S_usr1
    with st1 ok Parent1 show ?thesis
      by (auto simp: parent1_def send1_def ok1_def left1_def todo1_def due1_def)
  next
    case S_usr2
    with st1 ok Parent1 c [of SIGUSR2] show ?thesis
      by (auto simp: parent1_def send1_def ok1_def left1_def todo1_def due1_def)
  next
    case S_term
    with st1 ok Parent1 c [of SIGTERM] show ?thesis
      by (auto simp: parent1_def send1_def ok1_def left1_def todo1_def due1_def)
  next
    case S_wait
    with st1 ok Parent1 show ?thesis
      by (auto simp: parent1_def ok1_def left1_def todo1_def due1_def split: if_splits)
  qed (use st1 in \<open>simp add: parent1_def\<close>)
next
  case Child1
  with st have s': "s' = s\<lparr>waiting1 := True, child_out1 := child_out1 s @ prints1 str p c Child1\<rparr>" "\<not> waiting1 s"
    by (simp_all add: step1_def split: if_splits)
  have "ok1 s'" using ok by (simp add: s' ok1_def)
  moreover have "due1 s' = due1 s" "left1 s' < left1 s" using s'(2) by (simp_all add: s'(1) due1_def left1_def)
  ultimately show ?thesis using Child1 by (simp add: s')
next
  case (Deliver1 sg)
  have fin: "finite (pending1 s)" using ok by (auto simp: ok1_def intro: finite_subset)
  from st Deliver1 have sg: "sg \<in> pending1 s" "alive1 s" by (auto simp: step1_def split: if_splits)
  have d: "card (pending1 s - {sg}) < card (pending1 s)" by (rule card_Diff1_less [OF fin sg(1)])
  from d have "0 < card (pending1 s)" by linarith
  with d st Deliver1 sg ok show ?thesis
    by (cases "ppc_1 s") (auto simp: step1_def ok1_def left1_def due1_def split: if_splits)
qed

lemma steps1_ok:
  "ok1 s \<Longrightarrow> steps1 str p c es s = Some s' \<Longrightarrow> ok1 s' \<and> length es + left1 s' \<le> left1 s
     \<and> distinct (handled1 es) \<and> set (handled1 es) \<subseteq> due1 s \<and> child_out1 s' = child_out1 s @ concat (map (prints1 str p c) es)"
proof (induction es arbitrary: s)
  case Nil
  then show ?case by simp
next
  case (Cons e es)
  then obtain s1 where st: "step1 str p c e s = Some s1" and r: "steps1 str p c es s1 = Some s'"
    by (auto simp: bind_eq_Some_conv)
  have h: "handled1 (e # es) = handled1 [e] @ handled1 es" by (cases e) auto
  have "distinct (handled1 [e])" by (cases e) auto
  with step1_ok [OF Cons.prems(1) st] Cons.IH [OF _ r] show ?case by (auto simp: h)
qed

text \<open>
  IPC lab 01. In at most eight steps, and whatever the kernel does, the child handles some of the two
  signals, each at most once, and prints exactly the reports of those; a run that cannot go on has ended with
  the child dead. Nothing but the delays of the parent says that both are handled, and in order: there is a run in
  which the child handles none, and one in which it handles the second first.
\<close>

theorem signals1:
  "(\<forall>es s. steps1 str p c es start1 = Some s \<longrightarrow> length es \<le> 8 \<and> distinct (handled1 es)
      \<and> set (handled1 es) \<subseteq> {SIGUSR1, SIGUSR2} \<and> child_out1 s = concat (map (prints1 str p c) es)
      \<and> ((\<forall>e. step1 str p c e s = None) \<longrightarrow> ppc_1 s = S_end \<and> \<not> alive1 s))
   \<and> (\<exists>es s. steps1 str p c es start1 = Some s \<and> ppc_1 s = S_end \<and> handled1 es = [SIGUSR1, SIGUSR2])
   \<and> (\<exists>es s. steps1 str p c es start1 = Some s \<and> ppc_1 s = S_end \<and> handled1 es = [SIGUSR2, SIGUSR1])
   \<and> (\<exists>es s. steps1 str p c es start1 = Some s \<and> ppc_1 s = S_end \<and> handled1 es = [])"
proof (intro conjI)
  have ok: "ok1 start1" and l: "left1 start1 = 8" and d: "due1 start1 = {SIGUSR1, SIGUSR2}"
    and o: "child_out1 start1 = []"
    by (simp_all add: ok1_def start1_def left1_def todo1_def due1_def)
  show "\<forall>es s. steps1 str p c es start1 = Some s \<longrightarrow> length es \<le> 8 \<and> distinct (handled1 es)
      \<and> set (handled1 es) \<subseteq> {SIGUSR1, SIGUSR2} \<and> child_out1 s = concat (map (prints1 str p c) es)
      \<and> ((\<forall>e. step1 str p c e s = None) \<longrightarrow> ppc_1 s = S_end \<and> \<not> alive1 s)"
  proof (intro allI impI)
    fix es s
    assume run: "steps1 str p c es start1 = Some s"
    from steps1_ok [OF ok run] l d o have r: "ok1 s" "length es \<le> 8" "distinct (handled1 es)"
      "set (handled1 es) \<subseteq> {SIGUSR1, SIGUSR2}" "child_out1 s = concat (map (prints1 str p c) es)" by auto
    have "ppc_1 s = S_end \<and> \<not> alive1 s" if none: "\<forall>e. step1 str p c e s = None"
    proof -
      have p: "parent1 c s = None" using none [rule_format, of Parent1] by (simp add: step1_def)
      note dl = none [rule_format, of "Deliver1 SIGTERM"]
      from p have "ppc_1 s = S_end \<or> ppc_1 s = S_wait \<and> alive1 s"
        by (auto simp: parent1_def split: ppc1.splits if_splits)
      moreover have "\<not> (alive1 s \<and> SIGTERM \<in> pending1 s)" using dl by (auto simp: step1_def split: if_splits)
      ultimately show ?thesis using r(1) by (auto simp: ok1_def)
    qed
    with r show "length es \<le> 8 \<and> distinct (handled1 es) \<and> set (handled1 es) \<subseteq> {SIGUSR1, SIGUSR2}
      \<and> child_out1 s = concat (map (prints1 str p c) es)
      \<and> ((\<forall>e. step1 str p c e s = None) \<longrightarrow> ppc_1 s = S_end \<and> \<not> alive1 s)" by blast
  qed
  show "\<exists>es s. steps1 str p c es start1 = Some s \<and> ppc_1 s = S_end \<and> handled1 es = [SIGUSR1, SIGUSR2]"
    by (rule exI [of _ "[Parent1, Deliver1 SIGUSR1, Parent1, Deliver1 SIGUSR2, Parent1, Deliver1 SIGTERM, Parent1]"])
      (simp add: step1_def parent1_def send1_def start1_def)
  show "\<exists>es s. steps1 str p c es start1 = Some s \<and> ppc_1 s = S_end \<and> handled1 es = [SIGUSR2, SIGUSR1]"
    by (rule exI [of _ "[Parent1, Parent1, Deliver1 SIGUSR2, Deliver1 SIGUSR1, Parent1, Deliver1 SIGTERM, Parent1]"])
      (simp add: step1_def parent1_def send1_def start1_def)
  show "\<exists>es s. steps1 str p c es start1 = Some s \<and> ppc_1 s = S_end \<and> handled1 es = []"
    by (rule exI [of _ "[Parent1, Parent1, Parent1, Deliver1 SIGTERM, Parent1]"])
      (simp add: step1_def parent1_def send1_def start1_def)
qed

section \<open>Lab 08: a menu that stops, continues and ends a child\<close>

text \<open>
  The child is running, stopped, stopped with \<^verbatim>\<open>SIGTERM\<close> waiting, or dead. The call of \<^verbatim>\<open>sigaction\<close> for
  \<^verbatim>\<open>SIGSTOP\<close> fails, since that signal cannot be caught, and the child ignores that. A signal is taken to reach the
  child before the parent reads its next choice.
\<close>

datatype child8 = Running | Stopped | Stopped_term | Dead

definition handle_signal8 :: "int \<Rightarrow> sys list" where
  "handle_signal8 sg =
     Print (''[CHILD] Received signal: '' @ show_int sg @ nl)
     # (if sg = SIGTERM then [Print (''[CHILD] Terminating gracefully...'' @ nl), Exit 0]
        else if sg = SIGSTOP then [Print (''[CHILD] (SIGSTOP received - will actually stop now)'' @ nl), Flush]
        else if sg = SIGCONT then [Print (''[CHILD] Resuming work after SIGCONT!'' @ nl), Flush]
        else [])"

definition run_child8 :: "int \<Rightarrow> sys list" where
  "run_child8 pid = [Sigaction SIGTERM, Sigaction SIGSTOP, Sigaction SIGCONT,
     Print (''[CHILD] PID '' @ show_int pid @ '' started and waiting for signals.'' @ nl)]"

text \<open>A turn of the loop of the child, when it runs.\<close>

definition work8 :: "child8 \<Rightarrow> sys list" where
  "work8 c = (if c = Running then [Print (''[CHILD] Working...'' @ nl), Flush, Sleep 2] else [])"

text \<open>What a signal does to the child, and what the child then prints.\<close>

definition deliver8 :: "int \<Rightarrow> child8 \<Rightarrow> child8 \<times> sys list" where
  "deliver8 sg c =
     (case c of
        Dead \<Rightarrow> (Dead, [])
      | Running \<Rightarrow> if sg = SIGSTOP then (Stopped, [])
                   else (if sg = SIGTERM then Dead else Running, handle_signal8 sg)
      | Stopped \<Rightarrow> if sg = SIGCONT then (Running, handle_signal8 SIGCONT)
                   else if sg = SIGTERM then (Stopped_term, []) else (Stopped, [])
      | Stopped_term \<Rightarrow> if sg = SIGCONT then (Dead, handle_signal8 SIGTERM) else (Stopped_term, []))"

definition menu8 :: "sys list" where
  "menu8 = [Print (nl @ ''=== '' @ [CHR 0xF0, CHR 0x9F, CHR 0xA7, CHR 0xAA] @ '' Lab 08: Parent '' @ [CHR 0xE2, CHR 0x86, CHR 0x94]
       @ '' Child Signal Control ==='' @ nl),
     Print (''1. Stop child (SIGSTOP)'' @ nl), Print (''2. Continue child (SIGCONT)'' @ nl),
     Print (''3. Terminate child (SIGTERM)'' @ nl), Print (''4. Exit parent'' @ nl), Print ''Choose option: '']"

text \<open>
  \<^verbatim>\<open>scanf("%d", &choice)\<close> on the characters still to be read: white space, an optional sign and digits; a
  number that does not fit is undefined. \<open>None\<close>: it does not return \<open>1\<close>.
\<close>

definition scan_int :: "string \<Rightarrow> (int \<times> string) option res" where
  "scan_int inp =
     (let s1 = dropWhile is_space inp;
          sign = (s1 \<noteq> [] \<and> (hd s1 = CHR ''-'' \<or> hd s1 = CHR ''+''));
          ds = (if sign then tl s1 else s1)
      in if takeWhile is_digit ds = [] then Inr None
         else bindR (atoi s1) (\<lambda>v. Inr (Some (v, dropWhile is_digit ds))))"

text \<open>How the parent ends: by \<^verbatim>\<open>exit\<close>, by leaving the loop, or never, waiting for the child.\<close>

datatype end8 = Exited8 int | Returned8 | Waits8

lemma scan_int_progress: "scan_int inp = Inr (Some (v, rest)) \<Longrightarrow> length rest < length inp"
proof -
  let ?s1 = "dropWhile is_space inp"
  let ?ds = "if ?s1 \<noteq> [] \<and> (hd ?s1 = CHR ''-'' \<or> hd ?s1 = CHR ''+'') then tl ?s1 else ?s1"
  assume "scan_int inp = Inr (Some (v, rest))"
  then have ne: "takeWhile is_digit ?ds \<noteq> []" and r: "rest = dropWhile is_digit ?ds"
    by (auto simp: scan_int_def Let_def bindR_eq_Inr split: if_splits)
  have "length (takeWhile is_digit ?ds) + length (dropWhile is_digit ?ds) = length ?ds"
    by (metis length_append takeWhile_dropWhile_id)
  moreover have "length ?ds \<le> length ?s1" by simp
  moreover have "length ?s1 \<le> length inp" by (rule length_dropWhile_le)
  moreover have "0 < length (takeWhile is_digit ?ds)" using ne by blast
  ultimately show ?thesis unfolding r by linarith
qed

function parent8 :: "int \<Rightarrow> child8 \<Rightarrow> string \<Rightarrow> (end8 \<times> child8 \<times> sys list \<times> sys list) res" where
  "parent8 pid c inp =
     bindR (scan_int inp) (\<lambda>r. case r of
        None \<Rightarrow> Inr (Returned8, c, menu8, [])
      | Some (choice, rest) \<Rightarrow>
          if choice = 1 then
            (let (c1, oc) = deliver8 SIGSTOP c
             in bindR (parent8 pid c1 rest) (\<lambda>(e, c2, op, oc2).
               Inr (e, c2, menu8 @ [Kill pid SIGSTOP, Print (''[PARENT] Sent SIGSTOP to child.'' @ nl)] @ op, oc @ oc2)))
          else if choice = 2 then
            (let (c1, oc) = deliver8 SIGCONT c
             in bindR (parent8 pid c1 rest) (\<lambda>(e, c2, op, oc2).
               Inr (e, c2, menu8 @ [Kill pid SIGCONT, Print (''[PARENT] Sent SIGCONT to child.'' @ nl)] @ op, oc @ oc2)))
          else if choice = 3 then
            (let (c1, oc) = deliver8 SIGTERM c;
                 o1 = menu8 @ [Kill pid SIGTERM, Print (''[PARENT] Sent SIGTERM to child.'' @ nl), Wait pid]
             in Inr (if c1 = Dead then (Exited8 0, c1, o1 @ [Print (''[PARENT] Child terminated.'' @ nl), Exit 0], oc)
                     else (Waits8, c1, o1, oc)))
          else if choice = 4 then
            (let (c1, oc) = deliver8 SIGTERM c
             in Inr (Exited8 0, c1, menu8 @ [Print (''[PARENT] Exiting...'' @ nl), Kill pid SIGTERM, Exit 0], oc))
          else bindR (parent8 pid c rest) (\<lambda>(e, c2, op, oc2). Inr (e, c2, menu8 @ [Print (''Invalid option.'' @ nl)] @ op, oc2)))"
  by pat_completeness auto
termination
  by (relation "measure (\<lambda>(pid, c, inp). length inp)") (auto dest: scan_int_progress)

declare parent8.simps [simp del]

definition main8 :: "int \<Rightarrow> string \<Rightarrow> (end8 \<times> child8 \<times> sys list \<times> sys list) res" where
  "main8 pid inp =
     (if pid = -1 then Inr (Exited8 1, Dead, [Fork, Perror ''fork failed'', Exit 1], [])
      else bindR (parent8 pid Running inp) (\<lambda>(e, c, op, oc). Inr (e, c, Fork # op, run_child8 pid @ oc)))"

text \<open>Reading back numbers printed one on a line.\<close>

lemma takeWhile_number: "takeWhile is_digit (show_nat n @ NL # r) = show_nat n" "dropWhile is_digit (show_nat n @ NL # r) = NL # r"
  using show_nat_digits [of n] by (auto intro!: takeWhile_stop dropWhile_stop simp: is_digit_def)

lemma show_nat_hd: "is_digit (hd (show_nat n))"
  using show_nat_digits [of n] hd_in_set [of "show_nat n"] by simp

lemma scan_int_show_nat: "scan_int (show_nat n @ NL # r) =
    (if int n \<le> int_max then Inr (Some (int n, NL # r)) else Inl Int_overflow)"
proof -
  obtain d ds where n: "show_nat n = d # ds" by (cases "show_nat n") simp_all
  have d: "is_digit d" using show_nat_hd [of n] by (simp add: n)
  then have sp: "\<not> is_space d" and sg: "d \<noteq> CHR ''-'' \<and> d \<noteq> CHR ''+''" by (auto dest: digit_not_space digit_not_sign)
  have t: "takeWhile is_digit (d # ds @ NL # r) = d # ds" "dropWhile is_digit (d # ds @ NL # r) = NL # r"
    using takeWhile_number [of n r] by (simp_all add: n)
  have "atoi_val (d # ds @ NL # r) = int n"
    using sp sg t digits_val_show_nat [of n] by (simp add: atoi_val_def n del: takeWhile.simps)
  then have "atoi (d # ds @ NL # r) = (if int n \<le> int_max then Inr (int n) else Inl Int_overflow)"
    by (simp add: atoi_def int_min_def)
  with sp sg t show ?thesis by (simp add: scan_int_def n del: takeWhile.simps dropWhile.simps(2)) (simp add: sp)
qed

lemma scan_int_show_int:
  assumes "int_min \<le> i" and "i \<le> int_max"
  shows "scan_int (show_int i @ NL # r) = Inr (Some (i, NL # r))"
proof (cases "i < 0")
  case True
  have "atoi_val (CHR ''-'' # show_nat (nat (- i)) @ NL # r) = i"
    using True by (simp add: atoi_val_def is_space_def takeWhile_number digits_val_show_nat)
  with True assms show ?thesis
    by (simp add: scan_int_def show_int_def is_space_def atoi_def takeWhile_number)
next
  case False
  with assms show ?thesis by (simp add: show_int_def scan_int_show_nat)
qed

lemma scan_int_NL: "scan_int (NL # s) = scan_int s"
  by (simp add: scan_int_def is_space_def)

lemma parent8_NL: "parent8 pid c (NL # s) = parent8 pid c s"
  by (subst (1 2) parent8.simps) (simp add: scan_int_NL)

lemma parent8_end: "parent8 pid c [] = Inr (Returned8, c, menu8, [])"
  by (subst parent8.simps) (simp add: scan_int_def)

text \<open>The choices of a user, one on a line, and whether they leave the child stopped.\<close>

definition typed8 :: "int list \<Rightarrow> string" where
  "typed8 cs = concat (map (\<lambda>i. show_int i @ nl) cs)"

definition stopped8 :: "int list \<Rightarrow> bool" where
  "stopped8 cs = (let ys = filter (\<lambda>i. i = 1 \<or> i = 2) cs in ys \<noteq> [] \<and> last ys = 1)"

definition sent8 :: "int \<Rightarrow> int list \<Rightarrow> (int \<times> int) list" where
  "sent8 pid cs = map (\<lambda>i. (pid, if i = 1 then SIGSTOP else SIGCONT)) (filter (\<lambda>i. i = 1 \<or> i = 2) cs)"

lemma kills_menu8 [simp]: "kills menu8 = []"
  by (simp add: menu8_def)

lemma parent8_line:
  assumes "int_min \<le> i" and "i \<le> int_max" and "c = Running \<or> c = Stopped"
  shows "parent8 pid c (show_int i @ NL # rest) =
    (if i = 3 then
       (if c = Running then Inr (Exited8 0, Dead, menu8 @ [Kill pid SIGTERM, Print (''[PARENT] Sent SIGTERM to child.'' @ nl),
             Wait pid, Print (''[PARENT] Child terminated.'' @ nl), Exit 0], handle_signal8 SIGTERM)
        else Inr (Waits8, Stopped_term, menu8 @ [Kill pid SIGTERM, Print (''[PARENT] Sent SIGTERM to child.'' @ nl), Wait pid], []))
     else if i = 4 then
       Inr (Exited8 0, if c = Running then Dead else Stopped_term, menu8 @ [Print (''[PARENT] Exiting...'' @ nl), Kill pid SIGTERM, Exit 0],
         if c = Running then handle_signal8 SIGTERM else [])
     else bindR (parent8 pid (if i = 1 then Stopped else if i = 2 then Running else c) rest) (\<lambda>(e, c2, op, oc2).
       Inr (e, c2, menu8 @ (if i = 1 then [Kill pid SIGSTOP, Print (''[PARENT] Sent SIGSTOP to child.'' @ nl)]
                            else if i = 2 then [Kill pid SIGCONT, Print (''[PARENT] Sent SIGCONT to child.'' @ nl)]
                            else [Print (''Invalid option.'' @ nl)]) @ op,
            (if i = 2 then handle_signal8 SIGCONT else []) @ oc2)))"
  using assms(3)
  by (subst parent8.simps) (auto simp: scan_int_show_int [OF assms(1,2)] parent8_NL deliver8_def Let_def)

definition outcome8 :: "bool \<Rightarrow> int list \<Rightarrow> end8 \<times> child8" where
  "outcome8 stopped post =
     (case post of [] \<Rightarrow> (Returned8, if stopped then Stopped else Running)
      | i # _ \<Rightarrow> (if i = 3 \<and> stopped then Waits8 else Exited8 0, if stopped then Stopped_term else Dead))"

lemma stopped8_fold: "foldl (\<lambda>b i. if i = 1 then True else if i = 2 then False else b) False cs = stopped8 cs"
  by (induction cs rule: rev_induct) (auto simp: stopped8_def Let_def)

lemma parent8_run:
  assumes "\<forall>i \<in> set (pre @ post). int_min \<le> i \<and> i \<le> int_max" and "\<forall>i \<in> set pre. i \<noteq> 3 \<and> i \<noteq> 4"
    and "post \<noteq> [] \<longrightarrow> hd post = 3 \<or> hd post = 4"
  shows "\<exists>op oc. parent8 pid (if st then Stopped else Running) (typed8 (pre @ post)) =
      (case outcome8 (foldl (\<lambda>b i. if i = 1 then True else if i = 2 then False else b) st pre) post of
         (e, c) \<Rightarrow> Inr (e, c, op, oc))
      \<and> kills op = sent8 pid pre @ (if post = [] then [] else [(pid, SIGTERM)])"
  using assms
proof (induction pre arbitrary: st)
  case Nil
  show ?case
  proof (cases post)
    case Nil
    then show ?thesis by (simp add: typed8_def parent8_end outcome8_def sent8_def)
  next
    case (Cons i rest)
    with Nil.prems have i: "int_min \<le> i" "i \<le> int_max" and ch: "i = 3 \<or> i = 4" by auto
    have t: "typed8 ([] @ post) = show_int i @ NL # typed8 rest" by (simp add: Cons typed8_def nl_def)
    show ?thesis unfolding t
      using ch Cons by (auto simp: parent8_line [OF i] outcome8_def sent8_def)
  qed
next
  case (Cons i pre)
  let ?c = "if st then Stopped else Running" and ?st = "if i = 1 then True else if i = 2 then False else st"
  from Cons.prems have i: "int_min \<le> i" "i \<le> int_max" and ch: "i \<noteq> 3" "i \<noteq> 4" by auto
  have c: "?c = Running \<or> ?c = Stopped" by simp
  have t: "typed8 ((i # pre) @ post) = show_int i @ NL # typed8 (pre @ post)" by (simp add: typed8_def nl_def)
  have s: "(if i = 1 then Stopped else if i = 2 then Running else ?c) = (if ?st then Stopped else Running)" by simp
  from Cons.prems have "\<forall>i \<in> set (pre @ post). int_min \<le> i \<and> i \<le> int_max" "\<forall>i \<in> set pre. i \<noteq> 3 \<and> i \<noteq> 4" by auto
  from Cons.IH [OF this Cons.prems(3), of ?st] obtain op oc where
    "parent8 pid (if ?st then Stopped else Running) (typed8 (pre @ post)) =
      (case outcome8 (foldl (\<lambda>b i. if i = 1 then True else if i = 2 then False else b) ?st pre) post of
         (e, c) \<Rightarrow> Inr (e, c, op, oc))"
    and k: "kills op = sent8 pid pre @ (if post = [] then [] else [(pid, SIGTERM)])" by blast
  then show ?case
    unfolding t parent8_line [OF i c] s using ch k by (auto simp: sent8_def split: prod.splits)
qed

text \<open>
  C37: lab 08, for a user who types choices one on a line. The parent sends exactly one signal for each choice
  that asks for one, in order, up to the first \<^verbatim>\<open>3\<close> or \<^verbatim>\<open>4\<close>. If that is a \<^verbatim>\<open>3\<close> and the last of the choices \<^verbatim>\<open>1\<close> and
  \<^verbatim>\<open>2\<close> before it was a \<^verbatim>\<open>1\<close>, the child is stopped, does not take the \<^verbatim>\<open>SIGTERM\<close>, and the parent waits for it
  for ever; with any other order it ends. A user who leaves by end of input leaves a child that runs on or
  stays stopped.
\<close>

theorem signal_control8:
  assumes "pid \<noteq> -1" and "\<forall>i \<in> set (pre @ post). int_min \<le> i \<and> i \<le> int_max" and "\<forall>i \<in> set pre. i \<noteq> 3 \<and> i \<noteq> 4"
    and "post \<noteq> [] \<longrightarrow> hd post = 3 \<or> hd post = 4"
  shows "\<exists>e c op oc. main8 pid (typed8 (pre @ post)) = Inr (e, c, op, oc)
      \<and> kills op = sent8 pid pre @ (if post = [] then [] else [(pid, SIGTERM)])
      \<and> (e = Waits8 \<longleftrightarrow> post \<noteq> [] \<and> hd post = 3 \<and> stopped8 pre)
      \<and> (e = Returned8 \<longleftrightarrow> post = [])
      \<and> c = (if post = [] then (if stopped8 pre then Stopped else Running)
             else if stopped8 pre then Stopped_term else Dead)"
proof -
  from parent8_run [OF assms(2,3,4), of pid False] obtain op oc where
    "parent8 pid Running (typed8 (pre @ post)) = (case outcome8 (stopped8 pre) post of (e, c) \<Rightarrow> Inr (e, c, op, oc))"
    and "kills op = sent8 pid pre @ (if post = [] then [] else [(pid, SIGTERM)])"
    by (auto simp: stopped8_fold)
  then show ?thesis
    using assms(1) by (cases post) (auto simp: main8_def outcome8_def)
qed

theorem signal_control8_witness:
  "\<exists>e c op oc. main8 100 (typed8 [1, 3]) = Inr (e, c, op, oc) \<and> e = Waits8 \<and> c = Stopped_term
     \<and> kills op = [(100, SIGSTOP), (100, SIGTERM)]"
  using signal_control8 [of 100 "[1]" "[3]"] by (auto simp: int_min_def int_max_def stopped8_def sent8_def)

end
