(* ===== verification/Ipc_Main.thy ===== *)
theory Ipc_Main
  imports Ipc_Semaphores Ipc_Messages Ipc_Fifo Signals
begin

text \<open>
  The programs under \<^verbatim>\<open>02_ipc\<close> from the first call of \<^verbatim>\<open>main\<close> to its return: what is set up before the process
  is split in two, the failures of that, the two processes until no step is possible any more, and what the
  parent does after its \<^verbatim>\<open>wait\<close>. The two processes themselves are in the theories of the labs.
\<close>

section \<open>Whole programs\<close>

text \<open>The state where a schedule leaves two processes that cannot go on; \<open>None\<close> for any other schedule.\<close>

definition complete :: "('s \<Rightarrow> 's option) \<Rightarrow> ('s \<Rightarrow> 's option) \<Rightarrow> bool list \<Rightarrow> 's \<Rightarrow> 's option" where
  "complete p c bs s =
     Option.bind (sched p c bs s) (\<lambda>s'. if p s' = None \<and> c s' = None then Some s' else None)"

lemma complete_eq_Some: "complete p c bs s = Some s' \<longleftrightarrow> sched p c bs s = Some s' \<and> stuck p c s'"
  by (auto simp: complete_def stuck_def bind_eq_Some_conv)

text \<open>Lab 05, with the results of \<^verbatim>\<open>mmap\<close>, \<^verbatim>\<open>fork\<close> and \<^verbatim>\<open>munmap\<close>.\<close>

definition begin5 :: "bool \<Rightarrow> int \<Rightarrow> sys list + shm5" where
  "begin5 mapped pid =
     (if \<not> mapped then Inl [Perror ''mmap'', Exit 1]
      else if pid < 0 then Inl [Perror ''fork'', Exit 1]
      else Inr start5)"

definition release :: "int \<Rightarrow> sys list" where
  "release munmap_ret = (if munmap_ret = -1 then [Perror ''munmap''] else [])"

definition main5 :: "bool \<Rightarrow> int \<Rightarrow> int \<Rightarrow> bool list \<Rightarrow> (sys list + sys list \<times> sys list) option" where
  "main5 mapped pid munmap_ret bs =
     (case begin5 mapped pid of
        Inl out \<Rightarrow> Some (Inl out)
      | Inr s \<Rightarrow> map_option (\<lambda>s'. Inr (map Print (parent_out5 s') @ release munmap_ret, map Print (child_out5 s')))
                   (complete producer5 consumer5 bs s))"

text \<open>Lab 04.\<close>

definition begin4 :: "bool \<Rightarrow> int \<Rightarrow> sys list + shm4" where
  "begin4 mapped pid =
     (if \<not> mapped then Inl [Perror ''mmap'', Exit 1]
      else if pid < 0 then Inl [Perror ''fork'', Exit 1]
      else Inr start4)"

definition main4 :: "bool \<Rightarrow> int \<Rightarrow> int \<Rightarrow> bool list \<Rightarrow> (sys list + sys list \<times> sys list) option" where
  "main4 mapped pid munmap_ret bs =
     (case begin4 mapped pid of
        Inl out \<Rightarrow> Some (Inl out)
      | Inr s \<Rightarrow> map_option (\<lambda>s'. Inr (map Print (parent_out4 s') @ release munmap_ret, map Print (child_out4 s')))
                   (complete producer4 consumer4 bs s))"

text \<open>Lab 03, with the results of \<^verbatim>\<open>pipe\<close> and \<^verbatim>\<open>fork\<close>, the bytes of the locals and the capacity of the pipe.\<close>

definition begin3 :: "int \<Rightarrow> int \<Rightarrow> string list \<Rightarrow> string \<Rightarrow> sys list + queue3" where
  "begin3 pipe_ret pid mem m =
     (if pipe_ret = -1 then Inl [Perror ''pipe'', Exit 1]
      else if pid < 0 then Inl [Perror ''fork'', Exit 1]
      else Inr (start3 mem m))"

definition main3 :: "int \<Rightarrow> int \<Rightarrow> nat \<Rightarrow> string list \<Rightarrow> string \<Rightarrow> bool list \<Rightarrow> (sys list + sys list \<times> sys list) option" where
  "main3 pipe_ret pid cap mem m bs =
     (case begin3 pipe_ret pid mem m of
        Inl out \<Rightarrow> Some (Inl out)
      | Inr s \<Rightarrow> map_option (\<lambda>s'. Inr (map Print (parent_out3 s'), map Print (child_out3 s')))
                   (complete (producer3 cap) consumer3 bs s))"

text \<open>
  Lab 02: \<open>pre\<close> tells whether the name of the named pipe is there already, \<open>can\<close> whether \<^verbatim>\<open>mkfifo\<close> can make it. The
  result also tells whether the parent returned from \<^verbatim>\<open>main\<close>.
\<close>

definition begin2 :: "int \<Rightarrow> int \<Rightarrow> bool \<Rightarrow> string \<Rightarrow> sys list + fifo2" where
  "begin2 pipe_ret pid pre b =
     (if pipe_ret = -1 then Inl [Perror ''pipe'', Exit 1]
      else if pid < 0 then Inl [Perror ''fork'', Exit 1]
      else Inr (start2 pre b))"

definition main2 :: "int \<Rightarrow> int \<Rightarrow> bool \<Rightarrow> bool \<Rightarrow> string \<Rightarrow> bool list \<Rightarrow> (sys list + bool \<times> sys list \<times> sys list) option" where
  "main2 pipe_ret pid pre can b bs =
     (case begin2 pipe_ret pid pre b of
        Inl out \<Rightarrow> Some (Inl out)
      | Inr s \<Rightarrow> map_option (\<lambda>s'. Inr (ppc_2 s' = E_end, parent_out2 s', child_out2 s'))
                   (complete (parent2 can) child2 bs s))"

text \<open>Lab 01: the handlers are set before \<^verbatim>\<open>fork\<close>, so the child has them from its first step.\<close>

definition main1 :: "(int \<Rightarrow> string) \<Rightarrow> int \<Rightarrow> int \<Rightarrow> ev1 list \<Rightarrow> sys list + sig1 option" where
  "main1 strsignal parent pid es =
     (if pid < 0 then Inl [Sigaction 10, Sigaction 12, Perror ''fork'', Exit 1]
      else Inr (steps1 strsignal parent pid es start1))"

section \<open>How they end\<close>

text \<open>
  Lab 05: a program that starts has a complete schedule, and every complete one has 66 steps and prints the five
  messages, each with its text.
\<close>

theorem main5_ends:
  assumes "0 \<le> pid"
  shows "\<exists>bs. main5 True pid u bs \<noteq> None"
    and "main5 True pid u bs = Some r \<Longrightarrow> length bs = 66
      \<and> (\<exists>pout. r = Inr (pout @ release u, map (\<lambda>j. Print (read_line5 (int j + 1) (text5 j))) [0..<5]))"
proof -
  obtain bs1 s1 where "sched producer5 consumer5 bs1 start5 = Some s1" "stuck producer5 consumer5 s1"
    using sem5.runs_to_stuck [OF inv5_start] by blast
  then have "complete producer5 consumer5 bs1 start5 = Some s1" by (simp add: complete_eq_Some)
  with assms show "\<exists>bs. main5 True pid u bs \<noteq> None" by (auto simp: main5_def begin5_def)
  assume m: "main5 True pid u bs = Some r"
  with assms obtain s where c: "complete producer5 consumer5 bs start5 = Some s"
    and r: "r = Inr (map Print (parent_out5 s) @ release u, map Print (child_out5 s))"
    by (auto simp: main5_def begin5_def)
  from c have run: "sched producer5 consumer5 bs start5 = Some s" and st: "stuck producer5 consumer5 s"
    by (simp_all add: complete_eq_Some)
  have inv: "inv5 s" using sem5.sched_ok [OF inv5_start run] by simp
  have "left5 s = 0" using no_deadlock5 [OF inv] st by (auto simp: stuck_def step5_simps)
  with sem5.sched_count [OF inv5_start run] inv5_final [OF inv] r
  show "length bs = 66 \<and> (\<exists>pout. r = Inr (pout @ release u, map (\<lambda>j. Print (read_line5 (int j + 1) (text5 j))) [0..<5]))"
    by (auto simp: left5_start comp_def)
qed

text \<open>Lab 03, in a pipe that holds at least 512 bytes: 30 steps, and both sides report five messages.\<close>

theorem main3_ends:
  assumes "pipe_ret \<noteq> -1" and "0 \<le> pid" and "512 \<le> cap" and mem: "mem_ok3 mem" and m: "length m = sizeof_msg3"
  shows "\<exists>bs. main3 pipe_ret pid cap mem m bs \<noteq> None"
    and "main3 pipe_ret pid cap mem m bs = Some r \<Longrightarrow> length bs = 30
      \<and> r = Inr (map (\<lambda>j. Print (sent3 j)) [0..<5], map (\<lambda>j. Print (line3 j)) [0..<5])"
proof -
  have ok: "mem_ok3 mem \<and> inv3 mem (start3 mem m)" using mem inv3_start [OF mem m] by simp
  have cap: "sizeof_msg3 \<le> cap" using assms(3) by (simp add: sizeof_msg3_def MSG_SIZE3_def)
  obtain bs1 s1 where "sched (producer3 cap) consumer3 bs1 (start3 mem m) = Some s1" "stuck (producer3 cap) consumer3 s1"
    using mq3.runs_to_stuck [OF ok, of cap] by blast
  then have "complete (producer3 cap) consumer3 bs1 (start3 mem m) = Some s1" by (simp add: complete_eq_Some)
  with assms show "\<exists>bs. main3 pipe_ret pid cap mem m bs \<noteq> None" by (auto simp: main3_def begin3_def)
  assume r: "main3 pipe_ret pid cap mem m bs = Some r"
  with assms obtain s where run: "sched (producer3 cap) consumer3 bs (start3 mem m) = Some s"
    and st: "stuck (producer3 cap) consumer3 s" and r: "r = Inr (map Print (parent_out3 s), map Print (child_out3 s))"
    by (auto simp: main3_def begin3_def complete_eq_Some)
  have inv: "inv3 mem s" using mq3.sched_ok [OF ok run] by simp
  have z: "left3 s = 0" using no_deadlock3 [OF mem inv cap] st by blast
  have "30 = length bs + left3 s" using mq3.sched_count [OF ok run] by (simp add: left3_def start3_def)
  moreover have "child_out3 s = map line3 [0..<5]" "parent_out3 s = map sent3 [0..<5]"
    using inv inv3_final [OF inv z] by (simp_all add: inv3_def del: upt_Suc upt_rec_numeral)
  ultimately show "length bs = 30 \<and> r = Inr (map (\<lambda>j. Print (sent3 j)) [0..<5], map (\<lambda>j. Print (line3 j)) [0..<5])"
    using z r by (simp add: comp_def del: upt_Suc upt_rec_numeral)
qed

text \<open>Lab 04: a complete schedule has printed the five numbers, in order.\<close>

theorem main4_ends:
  assumes "0 \<le> pid" and "main4 True pid u bs = Some r"
  shows "\<exists>pout ts. r = Inr (pout @ release u, map (\<lambda>j. Print (read_line5 (int j + 1) (ts j))) [0..<5])
    \<and> (\<forall>j. ts j \<in> {text4 j, []})"
proof -
  from assms obtain s where run: "sched producer4 consumer4 bs start4 = Some s" and st: "consumer4 s = None"
    and r: "r = Inr (map Print (parent_out4 s) @ release u, map Print (child_out4 s))"
    by (auto simp: main4_def begin4_def complete_eq_Some stuck_def)
  have inv: "inv4 s" by (rule sched4_inv [OF inv4_start run])
  from st have "cpc4 s = D_end" by (auto simp: consumer4_def split: cpc4.splits)
  with inv have len: "length (child_out4 s) = 5"
    and each: "\<forall>j < 5. child_out4 s ! j \<in> {read_line5 (int j + 1) (text4 j), read_line5 (int j + 1) []}"
    by (simp_all add: inv4_def read4_def)
  define ts where "ts = (\<lambda>j. if j < 5 \<and> child_out4 s ! j = read_line5 (int j + 1) (text4 j) then text4 j else [])"
  have "child_out4 s ! j = read_line5 (int j + 1) (ts j)" if "j < 5" for j
  proof (cases "child_out4 s ! j = read_line5 (int j + 1) (text4 j)")
    case True
    with that show ?thesis by (simp only: ts_def simp_thms if_True)
  next
    case False
    with that each have "child_out4 s ! j = read_line5 (int j + 1) []" by blast
    with False show ?thesis by (simp only: ts_def simp_thms if_False)
  qed
  then have "child_out4 s = map (\<lambda>j. read_line5 (int j + 1) (ts j)) [0..<5]"
    using len by (intro nth_equalityI) (simp_all del: upt_Suc upt_rec_numeral)
  moreover have "ts j \<in> {text4 j, []}" for j by (simp only: ts_def) simp
  ultimately show ?thesis
    using r by (intro exI [of _ "map Print (parent_out4 s)"] exI [of _ ts]) (simp add: comp_def del: upt_Suc upt_rec_numeral)
qed

text \<open>Lab 02: with the name there from the start the parent always returns; without it, it may not.\<close>

theorem main2_ends:
  assumes "pipe_ret \<noteq> -1" and "0 \<le> pid" and "length b = BUFFER2" and "main2 pipe_ret pid pre can b bs = Some r"
  shows "\<exists>back pout cout. r = Inr (back, pout, cout) \<and> length bs \<le> 19
    \<and> (pre \<or> \<not> can \<longrightarrow> back) \<and> (\<not> back \<longrightarrow> cout = [first2, Perror ''open fifo'', second2 False])"
proof -
  from assms obtain s where run: "sched (parent2 can) child2 bs (start2 pre b) = Some s"
    and st: "stuck (parent2 can) child2 s" and r: "r = Inr (ppc_2 s = E_end, parent_out2 s, child_out2 s)"
    by (auto simp: main2_def begin2_def complete_eq_Some)
  note ok = ff2.sched_ok [OF inv2_start [OF assms(3)] run]
  from ok have "length bs \<le> 19" by (simp add: left2_def start2_def)
  with r inv2_stuck [OF conjunct1 [OF ok] st] show ?thesis by (auto simp: done2_def)
qed

end
