(* ===== verification/Groups09.thy ===== *)
theory Groups09
  imports Signals
begin

text \<open>
  \<^verbatim>\<open>01_processes/lab09_process_groups\<close>: a parent and two children, of which the first makes a process group of
  its own and the second joins it; the parent signals the group and passes the terminal to it and back.
  The state is the group of each process, the foreground group of the terminal (\<open>None\<close> when the
  standard input is no terminal) and the lines printed. The children get to their \<^verbatim>\<open>pause\<close> while the parent sleeps;
  which of the two is first is a parameter. The process group of the parent is not an orphaned one.
\<close>

section \<open>The model\<close>

record groups9 =
  group9 :: "(int \<times> int) list"       \<comment> \<open>process and group, for every process alive\<close>
  fg9 :: "int option"
  out9 :: "sys list"

definition group_of9 :: "int \<Rightarrow> groups9 \<Rightarrow> int" where
  "group_of9 p s = (case map_of (group9 s) p of Some g \<Rightarrow> g | None \<Rightarrow> -1)"

definition members9 :: "int \<Rightarrow> groups9 \<Rightarrow> int list" where
  "members9 g s = map fst (filter (\<lambda>x. snd x = g) (group9 s))"

text \<open>\<^verbatim>\<open>setpgid(0, g)\<close> called by \<open>p\<close>: fails when there is no such group.\<close>

definition setpgid9 :: "int \<Rightarrow> int \<Rightarrow> groups9 \<Rightarrow> groups9" where
  "setpgid9 p g s =
     (let g1 = (if g = 0 then p else g)
      in if g1 = p \<or> members9 g1 s \<noteq> []
         then s\<lparr>group9 := map (\<lambda>x. if fst x = p then (p, g1) else x) (group9 s), out9 := out9 s @ [Setpgid 0 g]\<rparr>
         else s\<lparr>out9 := out9 s @ [Setpgid 0 g]\<rparr>)"

definition sig_handler9 :: "int \<Rightarrow> int \<Rightarrow> sys list" where
  "sig_handler9 p sg = [Print (''[PID '' @ show_int p @ ''] Caught signal '' @ show_int sg @ nl), Flush]"

text \<open>\<^verbatim>\<open>kill(-g, sg)\<close>: the handler of the program runs in every member, or \<^verbatim>\<open>SIGTERM\<close> ends it.\<close>

definition kill_group9 :: "int \<Rightarrow> int \<Rightarrow> groups9 \<Rightarrow> groups9" where
  "kill_group9 g sg s =
     (if sg = SIGTERM
      then s\<lparr>out9 := out9 s @ [Kill (- g) sg], group9 := filter (\<lambda>x. snd x \<noteq> g) (group9 s)\<rparr>
      else s\<lparr>out9 := out9 s @ [Kill (- g) sg] @ concat (map (\<lambda>p. sig_handler9 p sg) (members9 g s))\<rparr>)"

text \<open>
  \<^verbatim>\<open>tcsetpgrp\<close> called by \<open>p\<close>: \<open>None\<close> when \<open>p\<close> is not in the foreground group, since the kernel then stops its
  group with \<^verbatim>\<open>SIGTTOU\<close>, for which the program has no handler.
\<close>

definition tcsetpgrp9 :: "int \<Rightarrow> int \<Rightarrow> groups9 \<Rightarrow> groups9 option" where
  "tcsetpgrp9 p g s =
     (case fg9 s of
        None \<Rightarrow> Some (s\<lparr>out9 := out9 s @ [Tcsetpgrp g]\<rparr>)
      | Some f \<Rightarrow> if f = group_of9 p s then Some (s\<lparr>fg9 := Some g, out9 := out9 s @ [Tcsetpgrp g]\<rparr>) else None)"

definition say9 :: "string \<Rightarrow> groups9 \<Rightarrow> groups9" where
  "say9 l s = s\<lparr>out9 := out9 s @ [Print l]\<rparr>"

definition child1_9 :: "int \<Rightarrow> groups9 \<Rightarrow> groups9" where
  "child1_9 c1 s =
     (let s1 = setpgid9 c1 0 s
      in say9 (''[CHILD1 '' @ show_int c1 @ ''] PGID: '' @ show_int (group_of9 c1 s1) @ nl) s1)"

definition child2_9 :: "int \<Rightarrow> int \<Rightarrow> groups9 \<Rightarrow> groups9" where
  "child2_9 c1 c2 s =
     (let s1 = setpgid9 c2 c1 s
      in say9 (''[CHILD2 '' @ show_int c2 @ ''] PGID: '' @ show_int (group_of9 c2 s1) @ nl) s1)"

text \<open>How the parent ends: it returns, is stopped, or waits for a child that does not end.\<close>

datatype end9 = Done9 | Stopped9 | Waits9

definition finish9 :: "int \<Rightarrow> int \<Rightarrow> int \<Rightarrow> groups9 \<Rightarrow> end9 \<times> groups9" where
  "finish9 p c1 c2 s =
     (let s1 = kill_group9 (group_of9 c1 s) SIGTERM (say9 (''[PARENT] Cleaning up...'' @ nl) s);
          dead = length (filter (\<lambda>c. map_of (group9 s1) c = None) [c1, c2]);
          s2 = s1\<lparr>out9 := out9 s1 @ replicate (min 2 (Suc dead)) (Wait (-1))\<rparr>
      in if dead = 2 then (Done9, say9 (''[PARENT] Done.'' @ nl) s2) else (Waits9, s2))"

definition parent9 :: "int \<Rightarrow> int \<Rightarrow> int \<Rightarrow> groups9 \<Rightarrow> end9 \<times> groups9" where
  "parent9 p c1 c2 s =
     (let s1 = say9 (nl @ ''[PARENT] child1 PGID='' @ show_int (group_of9 c1 s) @ '', child2 PGID='' @ show_int (group_of9 c2 s) @ nl) s;
          s2 = say9 (''[PARENT] Sending SIGINT to process group '' @ show_int (group_of9 c1 s1) @ ''...'' @ nl) s1;
          s3 = kill_group9 (group_of9 c1 s2) SIGINT s2;
          s4 = say9 (''[PARENT] Bringing group to foreground...'' @ nl) s3
      in case tcsetpgrp9 p (group_of9 c1 s4) s4 of
           None \<Rightarrow> (Stopped9, s4)
         | Some s5 \<Rightarrow>
             (let s6 = say9 (''[PARENT] Restoring terminal control...'' @ nl) s5
              in case tcsetpgrp9 p (group_of9 p s6) s6 of
                   None \<Rightarrow> (Stopped9, s6)
                 | Some s7 \<Rightarrow> finish9 p c1 c2 s7))"

text \<open>The whole program: \<open>first\<close> tells whether the first child calls \<^verbatim>\<open>setpgid\<close> before the second does.\<close>

definition main9 :: "bool \<Rightarrow> int option \<Rightarrow> int \<Rightarrow> int \<Rightarrow> int \<Rightarrow> int \<Rightarrow> end9 \<times> groups9" where
  "main9 first fg g p c1 c2 =
     (let s0 = \<lparr>group9 = [(p, g), (c1, g), (c2, g)], fg9 = fg,
                out9 = [Sigaction 2, Sigaction 20, Sigaction SIGCONT,
                        Print (''[PARENT '' @ show_int p @ ''] Starting demo...'' @ nl), Fork, Fork]\<rparr>;
          s1 = (if first then child2_9 c1 c2 (child1_9 c1 s0) else child1_9 c1 (child2_9 c1 c2 s0))
      in parent9 p c1 c2 s1)"

section \<open>Properties\<close>

lemma say9_simps [simp]:
  "group9 (say9 l s) = group9 s" "fg9 (say9 l s) = fg9 s" "group_of9 q (say9 l s) = group_of9 q s"
  "members9 q (say9 l s) = members9 q s"
  by (simp_all add: say9_def group_of9_def members9_def)

lemma kill_group9_int [simp]:
  "group9 (kill_group9 g SIGINT s) = group9 s" "fg9 (kill_group9 g sg s) = fg9 s" "group_of9 q (kill_group9 g SIGINT s) = group_of9 q s"
  by (simp_all add: kill_group9_def group_of9_def)

lemma finish9_group:
  "group9 (snd (finish9 p c1 c2 s)) = filter (\<lambda>x. snd x \<noteq> group_of9 c1 s) (group9 s)"
  "fst (finish9 p c1 c2 s) = (if \<forall>c \<in> {c1, c2}. map_of (filter (\<lambda>x. snd x \<noteq> group_of9 c1 s) (group9 s)) c = None
     then Done9 else Waits9)"
  by (auto simp: finish9_def kill_group9_def say9_def Let_def group_of9_def)

lemma parent9_no_terminal:
  "fg9 s = None \<Longrightarrow> \<exists>s'. parent9 p c1 c2 s = finish9 p c1 c2 s' \<and> group9 s' = group9 s"
  by (simp add: parent9_def tcsetpgrp9_def Let_def) (intro exI conjI, rule refl, simp)

lemma parent9_terminal:
  assumes "fg9 s = Some f"
  shows "fst (parent9 p c1 c2 s) = (if f \<noteq> group_of9 p s \<or> group_of9 c1 s \<noteq> group_of9 p s then Stopped9
      else fst (parent9 p c1 c2 s))"
    and "f \<noteq> group_of9 p s \<Longrightarrow> fg9 (snd (parent9 p c1 c2 s)) = Some f"
    and "f = group_of9 p s \<Longrightarrow> group_of9 c1 s \<noteq> group_of9 p s \<Longrightarrow> fg9 (snd (parent9 p c1 c2 s)) = Some (group_of9 c1 s)"
  using assms by (auto simp: parent9_def tcsetpgrp9_def Let_def group_of9_def)

text \<open>
  Lab 09. How the program ends depends on the terminal and on the children. On a terminal it is
  stopped: by the second call of \<^verbatim>\<open>tcsetpgrp\<close>, which it makes from the background, when its group was in the foreground
  at the start, and by the first call otherwise. Without a terminal it ends, both children dead, exactly
  when the first child was first; if not, the second child is not in the group, is not signalled and lives on,
  and the parent waits for it for ever.
\<close>

theorem groups9_outcome:
  assumes "distinct [p, c1, c2]" and "0 < p" and "0 < c1" and "0 < c2" and "0 < g" and "g \<notin> {c1, c2}"
  shows "fst (main9 first fg g p c1 c2) =
      (if fg \<noteq> None then Stopped9 else if first then Done9 else Waits9)
    \<and> (fg = None \<longrightarrow> group9 (snd (main9 first fg g p c1 c2)) = (if first then [(p, g)] else [(p, g), (c2, g)]))
    \<and> (fg = Some g \<longrightarrow> fg9 (snd (main9 first fg g p c1 c2)) = Some c1)
    \<and> (fg \<noteq> None \<and> fg \<noteq> Some g \<longrightarrow> fg9 (snd (main9 first fg g p c1 c2)) = fg)"
proof -
  let ?run = "main9 first fg g p c1 c2"
  have ne: "p \<noteq> c1" "p \<noteq> c2" "c1 \<noteq> c2" "g \<noteq> c1" "g \<noteq> c2" "0 < c1" "0 < c2" "c1 \<noteq> 0" "c2 \<noteq> 0"
    using assms by auto
  define s where "s = (if first then child2_9 c1 c2 (child1_9 c1 \<lparr>group9 = [(p, g), (c1, g), (c2, g)], fg9 = fg,
      out9 = [Sigaction 2, Sigaction 20, Sigaction SIGCONT, Print (''[PARENT '' @ show_int p @ ''] Starting demo...'' @ nl), Fork, Fork]\<rparr>)
    else child1_9 c1 (child2_9 c1 c2 \<lparr>group9 = [(p, g), (c1, g), (c2, g)], fg9 = fg,
      out9 = [Sigaction 2, Sigaction 20, Sigaction SIGCONT, Print (''[PARENT '' @ show_int p @ ''] Starting demo...'' @ nl), Fork, Fork]\<rparr>))"
  have g: "group9 s = (if first then [(p, g), (c1, c1), (c2, c1)] else [(p, g), (c1, c1), (c2, g)])" and f: "fg9 s = fg"
    using ne by (auto simp: s_def child1_9_def child2_9_def setpgid9_def members9_def say9_def Let_def)
  have run: "?run = parent9 p c1 c2 s"
    by (simp add: main9_def s_def Let_def)
  have of9: "group_of9 c1 s = c1" "group_of9 p s = g" using g ne by (auto simp: group_of9_def)
  show ?thesis
  proof (cases fg)
    case None
    with f have "fg9 s = None" by simp
    from parent9_no_terminal [OF this, of p c1 c2] obtain s' where r: "?run = finish9 p c1 c2 s'" and g': "group9 s' = group9 s"
      unfolding run by blast
    have c: "group_of9 c1 s' = c1" using of9(1) g' by (simp add: group_of9_def)
    have fl: "filter (\<lambda>x. snd x \<noteq> c1) (group9 s') = (if first then [(p, g)] else [(p, g), (c2, g)])"
      using g ne by (simp add: g')
    show ?thesis unfolding r finish9_group c fl using None ne by auto
  next
    case (Some t)
    with f have "fg9 s = Some t" by simp
    from parent9_terminal [OF this, of p c1 c2] of9 ne Some show ?thesis unfolding run by auto
  qed
qed

theorem groups9_outcome_witness:
  "fst (main9 True None 7 10 11 12) = Done9 \<and> fst (main9 False None 7 10 11 12) = Waits9
    \<and> fst (main9 True (Some 7) 7 10 11 12) = Stopped9"
  using groups9_outcome [of 10 11 12 7 True None] groups9_outcome [of 10 11 12 7 False None]
    groups9_outcome [of 10 11 12 7 True "Some 7"] by simp

end
