(* ===== verification/Chat_Clients.thy ===== *)
theory Chat_Clients
  imports Line_Input
begin

text \<open>
  The clients of the chat servers of labs 14, 15, 17 and 18 under \<^verbatim>\<open>03_networking\<close>. Each has two threads on one
  socket: one prints what arrives, the other sends the lines of the input. A turn of either is an event of the
  client, and the turns of the two come in any order. The contract the four clients have in common is the
  locale \<open>chat_client\<close>, interpreted on the threads of each.
\<close>

section \<open>Two threads on a socket\<close>

text \<open>
  The receiving thread takes what \<^verbatim>\<open>recv\<close> returned and says whether it goes on; the sending thread takes the result
  of \<^verbatim>\<open>send\<close> and a line. \<open>join\<close>: the process waits for the receiving thread at its end.
\<close>

record tclient =
  sock_c :: int
  receiving :: bool
  sending :: bool
  input_c :: "string list"

datatype client_ev = Typed int | Arrived rd

definition client_ended :: "bool \<Rightarrow> tclient \<Rightarrow> bool" where
  "client_ended join s \<longleftrightarrow> \<not> sending s \<and> (join \<longrightarrow> \<not> receiving s)"

definition typed_step ::
  "(int \<Rightarrow> int \<Rightarrow> string \<Rightarrow> bool \<times> sys list) \<Rightarrow> int \<Rightarrow> tclient \<Rightarrow> tclient \<times> sys list" where
  "typed_step snd_turn ret s =
     (if \<not> sending s then (s, [])
      else case input_c s of
             [] \<Rightarrow> (s\<lparr>sending := False\<rparr>, [Close (sock_c s)])
           | l # ls \<Rightarrow>
               (let (goes, out) = snd_turn (sock_c s) ret (cstr l)
                in if goes then (s\<lparr>input_c := ls\<rparr>, out)
                   else (s\<lparr>sending := False, input_c := ls\<rparr>, out @ [Close (sock_c s)])))"

definition client_turn ::
  "(rd \<Rightarrow> (bool \<times> sys list) res) \<Rightarrow> (int \<Rightarrow> int \<Rightarrow> string \<Rightarrow> bool \<times> sys list) \<Rightarrow> bool \<Rightarrow>
   tclient \<Rightarrow> client_ev \<Rightarrow> (tclient \<times> sys list) res" where
  "client_turn rcv_turn snd_turn join s e =
     (if client_ended join s then Inr (s, [])
      else case e of
             Typed ret \<Rightarrow> Inr (typed_step snd_turn ret s)
           | Arrived r \<Rightarrow>
               if receiving s then bindR (rcv_turn r) (\<lambda>(goes, out). Inr (s\<lparr>receiving := goes\<rparr>, out)) else Inr (s, []))"

section \<open>The threads of the labs\<close>

text \<open>Lab 14.\<close>

definition BUFFER_SIZE14c :: nat where "BUFFER_SIZE14c = 1024"

definition receiver_thread14 :: "rd \<Rightarrow> (bool \<times> sys list) res" where
  "receiver_thread14 r =
     (if 0 < rd_len r
      then bindR (terminate BUFFER_SIZE14c (rd_data r)) (\<lambda>buf. Inr (True, [Print buf, Flush]))
      else Inr (False, []))"

definition send_turn14 :: "int \<Rightarrow> int \<Rightarrow> string \<Rightarrow> bool \<times> sys list" where
  "send_turn14 sock ret msg = (True, [Send sock msg])"

definition main14c :: "int \<Rightarrow> int \<Rightarrow> string \<Rightarrow> tclient option \<times> sys list" where
  "main14c sock conn inp =
     (if conn < 0 then (None, [Socket_stream, Connect sock 9090, Perror ''connect'', Exit 1])
      else (Some \<lparr>sock_c = sock, receiving = True, sending = True, input_c = lines_of (BUFFER_SIZE14c - 2) inp\<rparr>,
            [Socket_stream, Connect sock 9090]))"

text \<open>Lab 15: a failed \<^verbatim>\<open>send\<close> ends the sending, and the process waits for the other thread.\<close>

definition BUF_SIZE15c :: nat where "BUF_SIZE15c = 1024"

definition recv_thread15 :: "rd \<Rightarrow> (bool \<times> sys list) res" where
  "recv_thread15 r =
     (if rd_len r \<le> 0 then Inr (False, [])
      else bindR (terminate BUF_SIZE15c (rd_data r)) (\<lambda>buf. Inr (True, [Print buf])))"

definition send_turn15 :: "int \<Rightarrow> int \<Rightarrow> string \<Rightarrow> bool \<times> sys list" where
  "send_turn15 sock ret msg = (0 \<le> ret, [Send sock msg])"

definition main15c :: "int \<Rightarrow> int \<Rightarrow> string \<Rightarrow> tclient option \<times> sys list" where
  "main15c sock conn inp =
     (if sock < 0 then (None, [Socket_stream, Perror ''socket'', Exit 1])
      else if conn < 0 then (None, [Socket_stream, Connect sock 9091, Perror ''connect'', Close sock, Exit 1])
      else (Some \<lparr>sock_c = sock, receiving = True, sending = True, input_c = lines_of (BUF_SIZE15c - 2) inp\<rparr>,
            [Socket_stream, Connect sock 9091]))"

text \<open>Lab 17.\<close>

definition BUF_SIZE17c :: nat where "BUF_SIZE17c = 1024"

definition receiver17 :: "rd \<Rightarrow> (bool \<times> sys list) res" where
  "receiver17 r =
     (if rd_len r \<le> 0 then Inr (False, [])
      else bindR (terminate BUF_SIZE17c (rd_data r)) (\<lambda>buf. Inr (True, [Print buf, Flush])))"

definition send_turn17 :: "int \<Rightarrow> int \<Rightarrow> string \<Rightarrow> bool \<times> sys list" where
  "send_turn17 sock ret buf = (True, [Send sock buf])"

definition main17c :: "int \<Rightarrow> int \<Rightarrow> string \<Rightarrow> tclient option \<times> sys list" where
  "main17c sock conn inp =
     (if conn < 0 then (None, [Socket_stream, Connect sock 9090, Perror ''connect'', Exit 1])
      else (Some \<lparr>sock_c = sock, receiving = True, sending = True, input_c = lines_of (BUF_SIZE17c - 2) inp\<rparr>,
            [Socket_stream, Connect sock 9090]))"

text \<open>Lab 18, whose client is the text of lab 17.\<close>

definition receiver18 :: "rd \<Rightarrow> (bool \<times> sys list) res" where "receiver18 = receiver17"

definition send_turn18 :: "int \<Rightarrow> int \<Rightarrow> string \<Rightarrow> bool \<times> sys list" where "send_turn18 = send_turn17"

definition main18c :: "int \<Rightarrow> int \<Rightarrow> string \<Rightarrow> tclient option \<times> sys list" where "main18c = main17c"

section \<open>The contract\<close>

fun printed_text :: "sys list \<Rightarrow> string" where
  "printed_text [] = []"
| "printed_text (Print t # cs) = t @ printed_text cs"
| "printed_text (_ # cs) = printed_text cs"

lemma printed_text_append [simp]: "printed_text (as @ bs) = printed_text as @ printed_text bs"
  by (induction as rule: printed_text.induct) auto

text \<open>The answers of \<^verbatim>\<open>recv\<close> in a run, in order, and the part the thread prints.\<close>

fun arrivals :: "client_ev list \<Rightarrow> rd list" where
  "arrivals [] = []"
| "arrivals (Arrived r # es) = r # arrivals es"
| "arrivals (Typed ret # es) = arrivals es"

fun typings :: "client_ev list \<Rightarrow> nat" where
  "typings [] = 0"
| "typings (Arrived r # es) = typings es"
| "typings (Typed ret # es) = Suc (typings es)"

definition shown :: "rd list \<Rightarrow> string" where
  "shown rs = concat (map (\<lambda>r. cstr (rd_data r)) (takeWhile (\<lambda>r. 0 < rd_len r) rs))"

lemma shown_Cons: "shown (r # rs) = (if 0 < rd_len r then cstr (rd_data r) @ shown rs else [])"
  by (simp add: shown_def)

locale chat_client =
  fixes rcv_turn :: "rd \<Rightarrow> (bool \<times> sys list) res"
    and snd_turn :: "int \<Rightarrow> int \<Rightarrow> string \<Rightarrow> bool \<times> sys list"
    and join :: bool
  assumes rcv_got: "0 < rd_len r \<Longrightarrow> rd_ok 1023 r \<Longrightarrow>
      \<exists>out. rcv_turn r = Inr (True, out) \<and> printed_text out = cstr (rd_data r) \<and> sends out = [] \<and> closed out = []"
    and rcv_end: "rd_len r \<le> 0 \<Longrightarrow> rcv_turn r = Inr (False, [])"
    and snd_line: "snd_turn sock ret m = (goes, out) \<Longrightarrow>
      sends out = [(sock, m)] \<and> printed_text out = [] \<and> closed out = [] \<and> (0 \<le> ret \<longrightarrow> goes)"
begin

text \<open>
  However the turns of the two threads are mixed, no turn faults; while the input lasts, every line is
  sent, once and in order; and all that arrives is printed, up to the end of the stream.
\<close>

lemma client_run:
  assumes "\<forall>r \<in> set (arrivals es). rd_ok 1023 r" and "\<forall>ret. Typed ret \<in> set es \<longrightarrow> 0 \<le> ret"
    and "sending s" and "typings es \<le> length (input_c s)"
  shows "\<exists>s' out. run (client_turn rcv_turn snd_turn join) s es = Inr (s', out)
      \<and> sends out = map (\<lambda>l. (sock_c s, cstr l)) (take (typings es) (input_c s)) \<and> closed out = []
      \<and> printed_text out = (if receiving s then shown (arrivals es) else [])
      \<and> sending s' \<and> sock_c s' = sock_c s \<and> input_c s' = drop (typings es) (input_c s)
      \<and> (receiving s' \<longleftrightarrow> receiving s \<and> (\<forall>r \<in> set (arrivals es). 0 < rd_len r))"
  using assms
proof (induction es arbitrary: s)
  case Nil
  then show ?case by (simp add: shown_def)
next
  case (Cons e es)
  have live: "\<not> client_ended join s" using Cons.prems by (simp add: client_ended_def)
  show ?case
  proof (cases e)
    case (Typed ret)
    with Cons.prems obtain l ls where i: "input_c s = l # ls" by (cases "input_c s") auto
    obtain goes out where t: "snd_turn (sock_c s) ret (cstr l) = (goes, out)" by (cases "snd_turn (sock_c s) ret (cstr l)")
    from snd_line [OF t] Cons.prems Typed have o: "sends out = [(sock_c s, cstr l)]" "printed_text out = []" "closed out = []" goes
      by auto
    have st: "client_turn rcv_turn snd_turn join s e = Inr (s\<lparr>input_c := ls\<rparr>, out)"
      using live Typed i t o Cons.prems by (simp add: client_turn_def typed_step_def)
    from Cons.prems Typed i have "typings es \<le> length (input_c (s\<lparr>input_c := ls\<rparr>))" by simp
    with Cons.IH [of "s\<lparr>input_c := ls\<rparr>"] Cons.prems Typed obtain s' out2 where
      "run (client_turn rcv_turn snd_turn join) (s\<lparr>input_c := ls\<rparr>) es = Inr (s', out2)"
      "sends out2 = map (\<lambda>l. (sock_c s, cstr l)) (take (typings es) ls)" "closed out2 = []"
      "printed_text out2 = (if receiving s then shown (arrivals es) else [])"
      "sending s'" "sock_c s' = sock_c s" "input_c s' = drop (typings es) ls"
      "receiving s' \<longleftrightarrow> receiving s \<and> (\<forall>r \<in> set (arrivals es). 0 < rd_len r)" by auto
    with st o i Typed show ?thesis by simp
  next
    case (Arrived r)
    show ?thesis
    proof (cases "receiving s")
      case False
      with live Arrived have "client_turn rcv_turn snd_turn join s e = Inr (s, [])" by (simp add: client_turn_def)
      with Cons.IH [of s] Cons.prems Arrived False show ?thesis by auto
    next
      case True
      show ?thesis
      proof (cases "0 < rd_len r")
        case pos: True
        from Cons.prems Arrived have "rd_ok 1023 r" by simp
        from rcv_got [OF pos this] obtain out where r: "rcv_turn r = Inr (True, out)"
          and o: "printed_text out = cstr (rd_data r)" "sends out = []" "closed out = []" by blast
        have "client_turn rcv_turn snd_turn join s e = Inr (s, out)"
          using live Arrived True r by (simp add: client_turn_def)
        with Cons.IH [of s] Cons.prems Arrived o pos True show ?thesis by (auto simp: shown_Cons)
      next
        case False
        then have "rcv_turn r = Inr (False, [])" by (intro rcv_end) simp
        then have "client_turn rcv_turn snd_turn join s e = Inr (s\<lparr>receiving := False\<rparr>, [])"
          using live Arrived True by (simp add: client_turn_def)
        with Cons.IH [of "s\<lparr>receiving := False\<rparr>"] Cons.prems Arrived False True show ?thesis by (auto simp: shown_Cons)
      qed
    qed
  qed
qed

text \<open>The whole input sent, then its end: what has been sent is the input, and the socket is closed once.\<close>

lemma client_session:
  assumes "\<forall>r \<in> set (arrivals es). rd_ok 1023 r" and "\<forall>ret. Typed ret \<in> set es \<longrightarrow> 0 \<le> ret"
    and "sending s" and "receiving s" and "input_c s = lines_of 1022 inp" and "NUL \<notin> set inp"
    and "typings es = length (lines_of 1022 inp)"
  shows "\<exists>s' out. run (client_turn rcv_turn snd_turn join) s (es @ [Typed ret]) = Inr (s', out)
      \<and> sent_to (sock_c s) out = inp \<and> printed_text out = shown (arrivals es) \<and> closed out = [sock_c s]
      \<and> \<not> sending s' \<and> (receiving s' \<longleftrightarrow> (\<forall>r \<in> set (arrivals es). 0 < rd_len r))"
proof -
  let ?turn = "client_turn rcv_turn snd_turn join"
  from client_run [OF assms(1,2,3)] assms(4,5,7) obtain s1 out where
    run: "run ?turn s es = Inr (s1, out)"
    and o: "sends out = map (\<lambda>l. (sock_c s, cstr l)) (lines_of 1022 inp)" "closed out = []"
      "printed_text out = shown (arrivals es)"
    and s1: "sending s1" "sock_c s1 = sock_c s" "input_c s1 = []"
      "receiving s1 \<longleftrightarrow> (\<forall>r \<in> set (arrivals es). 0 < rd_len r)"
    by auto
  have last: "run ?turn s1 [Typed ret] = Inr (s1\<lparr>sending := False\<rparr>, [Close (sock_c s)])"
    using s1 by (simp add: client_turn_def typed_step_def client_ended_def)
  have "cstr l = l" if "l \<in> set (lines_of 1022 inp)" for l
  proof -
    from that have "set l \<subseteq> set (concat (lines_of 1022 inp))" by auto
    with assms(6) show ?thesis by (intro cstr_id) (auto simp: concat_lines_of)
  qed
  then have "map cstr (lines_of 1022 inp) = lines_of 1022 inp" by (simp add: map_idI)
  then have "sent_to (sock_c s) out = inp"
    by (simp add: sent_to_def o(1) comp_def concat_lines_of filter_map)
  with o run last s1 show ?thesis by (auto simp: run_append_Inr sent_to_def)
qed

end

interpretation c14: chat_client receiver_thread14 send_turn14 False
  by unfold_locales (auto simp: receiver_thread14_def send_turn14_def rd_ok_def terminate_def BUFFER_SIZE14c_def)

interpretation c15: chat_client recv_thread15 send_turn15 True
  by unfold_locales (auto simp: recv_thread15_def send_turn15_def rd_ok_def terminate_def BUF_SIZE15c_def)

interpretation c17: chat_client receiver17 send_turn17 False
  by unfold_locales (auto simp: receiver17_def send_turn17_def rd_ok_def terminate_def BUF_SIZE17c_def)

interpretation c18: chat_client receiver18 send_turn18 False
  unfolding receiver18_def send_turn18_def by (rule c17.chat_client_axioms)

section \<open>Properties\<close>

text \<open>
  What a session of a client does: started on \<open>inp\<close>, with the turns \<open>es\<close> of its threads in which all lines are
  sent, and then the end of the input.
\<close>

definition relays ::
  "(rd \<Rightarrow> (bool \<times> sys list) res) \<Rightarrow> (int \<Rightarrow> int \<Rightarrow> string \<Rightarrow> bool \<times> sys list) \<Rightarrow> bool \<Rightarrow>
   tclient \<Rightarrow> client_ev list \<Rightarrow> string \<Rightarrow> bool" where
  "relays rcv_turn snd_turn join s es inp \<longleftrightarrow>
     (\<forall>ret. \<exists>s' out. run (client_turn rcv_turn snd_turn join) s (es @ [Typed ret]) = Inr (s', out)
       \<and> sent_to (sock_c s) out = inp \<and> printed_text out = shown (arrivals es) \<and> closed out = [sock_c s]
       \<and> (client_ended join s' \<longleftrightarrow> (join \<longrightarrow> (\<exists>r \<in> set (arrivals es). rd_len r \<le> 0))))"

text \<open>
  C38: the clients of labs 14, 15, 17 and 18. However the turns of the two threads are mixed, nothing is
  written out of bounds, what is sent is exactly the input, what arrives is printed up to the end of the stream, and
  the socket is closed once. The process of labs 14, 17 and 18 is then over; that of lab 15 is over only when
  a read has returned without data, and until then no other turn ends it.
\<close>

theorem chat_clients:
  assumes "0 \<le> sock" and "0 \<le> conn" and "NUL \<notin> set inp"
    and "\<forall>r \<in> set (arrivals es). rd_ok 1023 r" and "\<forall>ret. Typed ret \<in> set es \<longrightarrow> 0 \<le> ret"
    and "typings es = length (lines_of 1022 inp)"
  shows "(\<exists>s. fst (main14c sock conn inp) = Some s \<and> sock_c s = sock \<and> relays receiver_thread14 send_turn14 False s es inp)
    \<and> (\<exists>s. fst (main15c sock conn inp) = Some s \<and> sock_c s = sock \<and> relays recv_thread15 send_turn15 True s es inp)
    \<and> (\<exists>s. fst (main17c sock conn inp) = Some s \<and> sock_c s = sock \<and> relays receiver17 send_turn17 False s es inp)
    \<and> (\<forall>s n. \<not> sending s \<and> receiving s \<longrightarrow>
         run (client_turn recv_thread15 send_turn15 True) s (replicate n (Typed 0)) = Inr (s, []) \<and> \<not> client_ended True s)"
proof (intro conjI allI impI)
  let ?s = "\<lparr>sock_c = sock, receiving = True, sending = True, input_c = lines_of 1022 inp\<rparr>"
  note session = assms(4,5) _ _ _ assms(3,6)
  have "relays receiver_thread14 send_turn14 False ?s es inp"
    unfolding relays_def using c14.client_session [OF session, of ?s] by (fastforce simp: client_ended_def)
  then show "\<exists>s. fst (main14c sock conn inp) = Some s \<and> sock_c s = sock \<and> relays receiver_thread14 send_turn14 False s es inp"
    using assms(2) by (simp add: main14c_def BUFFER_SIZE14c_def)
  have "relays recv_thread15 send_turn15 True ?s es inp"
    unfolding relays_def using c15.client_session [OF session, of ?s] by (fastforce simp: client_ended_def not_le)
  then show "\<exists>s. fst (main15c sock conn inp) = Some s \<and> sock_c s = sock \<and> relays recv_thread15 send_turn15 True s es inp"
    using assms(1,2) by (simp add: main15c_def BUF_SIZE15c_def)
  have "relays receiver17 send_turn17 False ?s es inp"
    unfolding relays_def using c17.client_session [OF session, of ?s] by (fastforce simp: client_ended_def)
  then show "\<exists>s. fst (main17c sock conn inp) = Some s \<and> sock_c s = sock \<and> relays receiver17 send_turn17 False s es inp"
    using assms(2) by (simp add: main17c_def BUF_SIZE17c_def)
  fix s :: tclient and n
  assume s: "\<not> sending s \<and> receiving s"
  then show "\<not> client_ended True s" by (simp add: client_ended_def)
  then show "run (client_turn recv_thread15 send_turn15 True) s (replicate n (Typed 0)) = Inr (s, [])"
    using s by (induction n) (simp_all add: client_turn_def typed_step_def)
qed

theorem chat_clients_witness:
  "\<exists>s. fst (main15c 3 0 ''hi'') = Some s \<and> relays recv_thread15 send_turn15 True s [Arrived (Got ''yo''), Typed 2] ''hi''"
proof -
  have l: "lines_of 1022 ''hi'' = [''hi'']"
    by (simp add: lines_of.simps fgets_def strcspn_def nl_def)
  show ?thesis
    using chat_clients [of 3 0 "''hi''" "[Arrived (Got ''yo''), Typed 2]"] by (auto simp: l rd_ok_def)
qed

end
