(* ===== verification/Select_Clients.thy ===== *)
theory Select_Clients
  imports Chat16_Tls Line_Input
begin

text \<open>
  The clients of \<^verbatim>\<open>lab_04_epoll_chat_server\<close> and \<^verbatim>\<open>lab_16_tls_epoll_chat\<close>, which wait for their input and
  their socket with \<^verbatim>\<open>select\<close> and use one buffer for both. An event is a turn of the loop: the result of
  \<^verbatim>\<open>select\<close>, the members of the set it leaves, and what the write and the read return. The state is the
  buffer, with all its bytes, and the input still to be read.
\<close>

section \<open>The model\<close>

record sel_client =
  buffer_s :: string
  input_s :: string

record sel_turn =
  sel_ret :: int
  in_ready :: bool
  sock_ready :: bool
  sel_wr :: int
  sel_rd :: rd

text \<open>A string stored in a buffer, and the string a buffer holds, if it holds any.\<close>

definition put_str :: "string \<Rightarrow> string \<Rightarrow> string" where
  "put_str l b = l @ NUL # drop (Suc (length l)) b"

definition str_of :: "string \<Rightarrow> string res" where
  "str_of b = (if NUL \<in> set b then Inr (cstr b) else Inl Out_of_bounds)"

text \<open>Lab 04: the result of \<^verbatim>\<open>fgets\<close> is not looked at.\<close>

definition BUF_SIZE04c :: nat where "BUF_SIZE04c = 1024"

definition read_line04 :: "sel_client \<Rightarrow> sel_client" where
  "read_line04 s =
     (case fgets BUF_SIZE04c (input_s s) of
        None \<Rightarrow> s
      | Some (l, rest) \<Rightarrow> s\<lparr>buffer_s := put_str l (buffer_s s), input_s := rest\<rparr>)"

definition typed04 :: "int \<Rightarrow> sel_turn \<Rightarrow> sel_client \<Rightarrow> (control \<times> sel_client \<times> sys list) res" where
  "typed04 sockfd e s =
     (if \<not> in_ready e then Inr (Again, s, [])
      else let s1 = read_line04 s
           in if strncmp_eq (cstr (buffer_s s1)) ''exit'' 4 then Inr (Break, s1, [])
              else bindR (str_of (buffer_s s1)) (\<lambda>m. Inr (Again, s1, [Send sockfd m])))"

definition heard04 :: "sel_turn \<Rightarrow> sel_client \<Rightarrow> (control \<times> sel_client \<times> sys list) res" where
  "heard04 e s =
     (if \<not> sock_ready e then Inr (Again, s, [])
      else if rd_len (sel_rd e) \<le> 0 then Inr (Break, s, [])
      else bindR (terminate BUF_SIZE04c (rd_data (sel_rd e))) (\<lambda>m.
             Inr (Again, s\<lparr>buffer_s := put_str (rd_data (sel_rd e)) (buffer_s s)\<rparr>, [Print (''[CHAT] '' @ m)])))"

definition turn04c :: "int \<Rightarrow> sel_client \<Rightarrow> sel_turn \<Rightarrow> (control \<times> sel_client \<times> sys list) res" where
  "turn04c sockfd s e =
     (if sel_ret e = -1 then Inr (Break, s, [Perror ''select''])
      else bindR (typed04 sockfd e s) (\<lambda>(c1, s1, o1).
        if c1 \<noteq> Again then Inr (c1, s1, o1)
        else bindR (heard04 e s1) (\<lambda>(c2, s2, o2). Inr (c2, s2, o1 @ o2))))"

fun sel_loop :: "('s \<Rightarrow> 'e \<Rightarrow> (control \<times> 's \<times> 'o list) res) \<Rightarrow> 's \<Rightarrow> 'e list \<Rightarrow> (control \<times> 's \<times> 'o list) res" where
  "sel_loop turn s [] = Inr (Again, s, [])"
| "sel_loop turn s (e # es) =
     bindR (turn s e) (\<lambda>(c, s1, o1).
       if c \<noteq> Again then Inr (c, s1, o1)
       else bindR (sel_loop turn s1 es) (\<lambda>(c2, s2, o2). Inr (c2, s2, o1 @ o2)))"

definition main04c :: "int \<Rightarrow> int \<Rightarrow> string \<Rightarrow> string \<Rightarrow> sel_turn list \<Rightarrow> (control \<times> sel_client \<times> sys list) res" where
  "main04c sockfd conn b inp es =
     (let s = \<lparr>buffer_s = b, input_s = inp\<rparr>
      in if sockfd = -1 then Inr (Gone, s, [Socket_stream, Perror ''socket'', Exit 1])
         else if conn = -1 then Inr (Gone, s, [Socket_stream, Connect sockfd 9090, Perror ''connect'', Close sockfd, Exit 1])
         else bindR (sel_loop (turn04c sockfd) s es) (\<lambda>(c, s1, out).
           Inr (c, s1, [Socket_stream, Connect sockfd 9090,
             Print (''[CLIENT] Connected to chat server at 127.0.0.1:'' @ show_int 9090 @ nl),
             Print (''Type messages (type '' @ [CHR 0x27] @ ''exit'' @ [CHR 0x27] @ '' to quit):'' @ nl)] @ out
             @ (if c = Break then [Print (''[CLIENT] Disconnected.'' @ nl), Close sockfd] else []))))"

text \<open>Lab 16.\<close>

definition BUF_SIZE16c :: nat where "BUF_SIZE16c = 4096"

text \<open>\<^verbatim>\<open>create_socket\<close>: the result of \<^verbatim>\<open>connect\<close> decides.\<close>

definition create_socket16 :: "int \<Rightarrow> int \<Rightarrow> int \<Rightarrow> int \<times> sys list" where
  "create_socket16 s port conn =
     (if conn < 0 then (-1, [Socket_stream, Connect s port, Perror ''connect'', Close s])
      else (s, [Socket_stream, Connect s port]))"

definition typed16c :: "int \<Rightarrow> sel_turn \<Rightarrow> sel_client \<Rightarrow> (control \<times> sel_client \<times> out16 list) res" where
  "typed16c sock e s =
     (if \<not> in_ready e then Inr (Again, s, [])
      else case fgets BUF_SIZE16c (input_s s) of
             None \<Rightarrow> Inr (Break, s, [])
           | Some (l, rest) \<Rightarrow>
               (let s1 = s\<lparr>buffer_s := put_str l (buffer_s s), input_s := rest\<rparr>
                in bindR (str_of (buffer_s s1)) (\<lambda>m.
                  if sel_wr e \<le> 0 then Inr (Break, s1, [Ssl_write sock m, Call16 (Eprint (''SSL_write failed'' @ nl))])
                  else Inr (Again, s1, [Ssl_write sock m]))))"

definition heard16c :: "sel_turn \<Rightarrow> sel_client \<Rightarrow> (control \<times> sel_client \<times> out16 list) res" where
  "heard16c e s =
     (if \<not> sock_ready e then Inr (Again, s, [])
      else if rd_len (sel_rd e) \<le> 0 then Inr (Break, s, [])
      else bindR (terminate BUF_SIZE16c (rd_data (sel_rd e))) (\<lambda>m.
             Inr (Again, s\<lparr>buffer_s := put_str (rd_data (sel_rd e)) (buffer_s s)\<rparr>, [Call16 (Print m)])))"

definition turn16c :: "int \<Rightarrow> sel_client \<Rightarrow> sel_turn \<Rightarrow> (control \<times> sel_client \<times> out16 list) res" where
  "turn16c sock s e =
     (if sel_ret e < 0 then Inr (Break, s, [])
      else bindR (typed16c sock e s) (\<lambda>(c1, s1, o1).
        if c1 \<noteq> Again then Inr (c1, s1, o1)
        else bindR (heard16c e s1) (\<lambda>(c2, s2, o2). Inr (c2, s2, o1 @ o2))))"

text \<open>
  \<^verbatim>\<open>main\<close>: the arguments of the command line, whether there is a context, the results of \<^verbatim>\<open>socket\<close>, \<^verbatim>\<open>connect\<close> and
  \<^verbatim>\<open>SSL_connect\<close>, and what \<^verbatim>\<open>ERR_print_errors_fp\<close> prints. The number is the exit status.
\<close>

definition main16c ::
  "string list \<Rightarrow> bool \<Rightarrow> int \<Rightarrow> int \<Rightarrow> int \<Rightarrow> string \<Rightarrow> string \<Rightarrow> string \<Rightarrow> sel_turn list
     \<Rightarrow> (int option \<times> out16 list) res" where
  "main16c argv ctx s conn tls err b inp es =
     (if length argv < 3 then Inr (Some 1, [Call16 (Eprint (''usage: '' @ argv ! 0 @ '' <host> <port>'' @ nl))])
      else bindR (atoi (argv ! 2)) (\<lambda>port.
        if \<not> ctx then Inr (Some 1, [Call16 (Eprint err)])
        else let (sock, o1) = create_socket16 s port conn
             in if sock < 0 then Inr (Some 1, map Call16 o1)
                else if tls \<le> 0 then Inr (Some 1, map Call16 o1 @ [Call16 (Eprint err), Ssl_end sock, Call16 (Close sock)])
                else bindR (sel_loop (turn16c sock) \<lparr>buffer_s = b, input_s = inp\<rparr> es) (\<lambda>(c, s1, out).
                  Inr (if c = Break then Some 0 else None,
                       map Call16 o1 @ [Call16 (Print (''[TLS CLIENT] Connected: '' @ argv ! 1 @ '':'' @ show_int port @ nl))] @ out
                       @ (if c = Break then [Ssl_end sock, Call16 (Close sock)] else [])))))"

section \<open>One turn\<close>

lemma cstr_put_str: "NUL \<notin> set l \<Longrightarrow> cstr (put_str l b) = l"
  by (simp add: put_str_def cstr_terminated)

lemma NUL_put_str [simp]: "NUL \<in> set (put_str l b)"
  by (simp add: put_str_def)

lemma length_put_str [simp]: "length l < length b \<Longrightarrow> length (put_str l b) = length b"
  by (simp add: put_str_def)

text \<open>A turn in which only the input is ready.\<close>

definition typing :: "sel_turn \<Rightarrow> bool" where
  "typing e \<longleftrightarrow> 0 \<le> sel_ret e \<and> in_ready e \<and> \<not> sock_ready e \<and> 0 < sel_wr e"

lemma turn04c_line:
  assumes "typing e" and "fgets 1024 (input_s s) = Some (l, rest)" and "NUL \<notin> set l" and "\<not> strncmp_eq l ''exit'' 4"
  shows "turn04c sockfd s e = Inr (Again, \<lparr>buffer_s = put_str l (buffer_s s), input_s = rest\<rparr>, [Send sockfd l])"
  using assms by (simp add: turn04c_def typed04_def heard04_def typing_def read_line04_def BUF_SIZE04c_def cstr_put_str str_of_def)

lemma turn04c_eof:
  assumes "typing e" and "input_s s = []" and "NUL \<in> set (buffer_s s)" and "\<not> strncmp_eq (cstr (buffer_s s)) ''exit'' 4"
  shows "turn04c sockfd s e = Inr (Again, s, [Send sockfd (cstr (buffer_s s))])"
  using assms by (simp add: turn04c_def typed04_def heard04_def typing_def read_line04_def fgets_def str_of_def)

lemma sel_loop_lines04:
  assumes "\<forall>e \<in> set es. typing e" and "length es = length (lines_of 1022 (input_s s))" and "NUL \<notin> set (input_s s)"
    and "\<forall>l \<in> set (lines_of 1022 (input_s s)). \<not> strncmp_eq l ''exit'' 4"
  shows "\<exists>s'. sel_loop (turn04c sockfd) s es = Inr (Again, s', map (Send sockfd) (lines_of 1022 (input_s s)))
      \<and> input_s s' = [] \<and> (input_s s \<noteq> [] \<longrightarrow> NUL \<in> set (buffer_s s') \<and> cstr (buffer_s s') = last (lines_of 1022 (input_s s)))"
  using assms
proof (induction es arbitrary: s)
  case Nil
  then have "lines_of 1022 (input_s s) = []" by simp
  then have "input_s s = []" by (metis concat.simps(1) concat_lines_of)
  with Nil show ?case by simp
next
  case (Cons e es)
  then have "lines_of 1022 (input_s s) \<noteq> []" by auto
  then obtain l rest where f: "fgets 1024 (input_s s) = Some (l, rest)"
    by (subst (asm) lines_of.simps) (auto split: option.splits)
  then have li: "lines_of 1022 (input_s s) = l # lines_of 1022 rest" by (subst lines_of.simps) simp
  from Cons.prems(3) have nul: "NUL \<notin> set l" "NUL \<notin> set rest"
    unfolding fgets_split [OF f, symmetric] by auto
  let ?s = "\<lparr>buffer_s = put_str l (buffer_s s), input_s = rest\<rparr>"
  have t: "turn04c sockfd s e = Inr (Again, ?s, [Send sockfd l])"
    using Cons.prems li nul by (intro turn04c_line f) auto
  have "\<forall>e \<in> set es. typing e" "length es = length (lines_of 1022 (input_s ?s))" "NUL \<notin> set (input_s ?s)"
    "\<forall>l \<in> set (lines_of 1022 (input_s ?s)). \<not> strncmp_eq l ''exit'' 4"
    using Cons.prems li nul by auto
  from Cons.IH [OF this] obtain s' where
    r: "sel_loop (turn04c sockfd) ?s es = Inr (Again, s', map (Send sockfd) (lines_of 1022 rest))"
    and s': "input_s s' = []" "rest \<noteq> [] \<longrightarrow> NUL \<in> set (buffer_s s') \<and> cstr (buffer_s s') = last (lines_of 1022 rest)" by auto
  have "NUL \<in> set (buffer_s s') \<and> cstr (buffer_s s') = last (l # lines_of 1022 rest)"
  proof (cases "rest = []")
    case True
    then have "lines_of 1022 rest = []" by (simp add: lines_of.simps fgets_def)
    with r Cons.prems li have "s' = ?s" by (cases es) auto
    with True nul \<open>lines_of 1022 rest = []\<close> show ?thesis by (simp add: cstr_put_str)
  next
    case False
    then have "lines_of 1022 rest \<noteq> []" by (metis concat.simps(1) concat_lines_of)
    with s' False show ?thesis by simp
  qed
  with t r s' show ?case by (simp add: li)
qed

lemma sel_loop_eof04:
  assumes "input_s s = []" and "NUL \<in> set (buffer_s s)" and "\<not> strncmp_eq (cstr (buffer_s s)) ''exit'' 4"
    and "\<forall>e \<in> set es. typing e"
  shows "sel_loop (turn04c sockfd) s es = Inr (Again, s, replicate (length es) (Send sockfd (cstr (buffer_s s))))"
  using assms(4) by (induction es) (simp_all add: turn04c_eof [OF _ assms(1,2,3)])

lemma sel_loop_append:
  "sel_loop turn s es = Inr (Again, s1, o1) \<Longrightarrow>
     sel_loop turn s (es @ fs) = bindR (sel_loop turn s1 fs) (\<lambda>(c, s2, o2). Inr (c, s2, o1 @ o2))"
proof (induction es arbitrary: s o1)
  case Nil
  then show ?case by (cases "sel_loop turn s1 fs") auto
next
  case (Cons e es)
  then obtain s2 oa ob where t: "turn s e = Inr (Again, s2, oa)" and r: "sel_loop turn s2 es = Inr (Again, s1, ob)"
    and o: "o1 = oa @ ob"
    by (auto simp: bindR_eq_Inr split: if_splits)
  with Cons.IH [OF r] show ?case by (cases "sel_loop turn s1 fs") auto
qed

text \<open>The TLS client, with the same input.\<close>

lemma turn16c_line:
  assumes "typing e" and "fgets 4096 (input_s s) = Some (l, rest)" and "NUL \<notin> set l"
  shows "turn16c sock s e = Inr (Again, \<lparr>buffer_s = put_str l (buffer_s s), input_s = rest\<rparr>, [Ssl_write sock l])"
  using assms by (simp add: turn16c_def typed16c_def heard16c_def typing_def BUF_SIZE16c_def cstr_put_str str_of_def)

lemma sel_loop_lines16:
  assumes "\<forall>e \<in> set es. typing e" and "length es = length (lines_of 4094 (input_s s))" and "NUL \<notin> set (input_s s)"
  shows "\<exists>s'. sel_loop (turn16c sock) s es = Inr (Again, s', map (Ssl_write sock) (lines_of 4094 (input_s s)))
      \<and> input_s s' = []"
  using assms
proof (induction es arbitrary: s)
  case Nil
  then have "lines_of 4094 (input_s s) = []" by simp
  then have "input_s s = []" by (metis concat.simps(1) concat_lines_of)
  with Nil show ?case by simp
next
  case (Cons e es)
  then have "lines_of 4094 (input_s s) \<noteq> []" by auto
  then obtain l rest where f: "fgets 4096 (input_s s) = Some (l, rest)"
    by (subst (asm) lines_of.simps) (auto split: option.splits)
  then have li: "lines_of 4094 (input_s s) = l # lines_of 4094 rest" by (subst lines_of.simps) simp
  from Cons.prems(3) have nul: "NUL \<notin> set l" "NUL \<notin> set rest"
    unfolding fgets_split [OF f, symmetric] by auto
  let ?s = "\<lparr>buffer_s = put_str l (buffer_s s), input_s = rest\<rparr>"
  have t: "turn16c sock s e = Inr (Again, ?s, [Ssl_write sock l])"
    using Cons.prems nul by (intro turn16c_line f) auto
  have "\<forall>e \<in> set es. typing e" "length es = length (lines_of 4094 (input_s ?s))" "NUL \<notin> set (input_s ?s)"
    using Cons.prems li nul by auto
  from Cons.IH [OF this] t show ?case by (auto simp: li)
qed

text \<open>No turn of either client faults once the buffer holds a string, and it then goes on holding one.\<close>

definition turn_ok :: "nat \<Rightarrow> sel_turn \<Rightarrow> bool" where
  "turn_ok lim e \<longleftrightarrow> rd_ok lim (sel_rd e)"

lemma turn04c_safe:
  assumes "NUL \<in> set (buffer_s s)" and "turn_ok 1023 e"
  shows "\<exists>c s' out. turn04c sockfd s e = Inr (c, s', out) \<and> NUL \<in> set (buffer_s s')"
  using assms by (auto simp: turn04c_def typed04_def heard04_def read_line04_def BUF_SIZE04c_def turn_ok_def rd_ok_def terminate_def
      str_of_def Let_def split: option.splits)

lemma turn16c_safe:
  assumes "turn_ok 4095 e"
  shows "\<exists>r. turn16c sock s e = Inr r"
  using assms by (auto simp: turn16c_def typed16c_def heard16c_def BUF_SIZE16c_def turn_ok_def rd_ok_def terminate_def
      str_of_def Let_def split: option.splits)

lemma sel_loop_safe04:
  "NUL \<in> set (buffer_s s) \<Longrightarrow> \<forall>e \<in> set es. turn_ok 1023 e \<Longrightarrow> \<exists>r. sel_loop (turn04c sockfd) s es = Inr r"
proof (induction es arbitrary: s)
  case Nil
  then show ?case by simp
next
  case (Cons e es)
  then have "turn_ok 1023 e" by simp
  from turn04c_safe [OF Cons.prems(1) this] obtain c s1 o1 where
    t: "turn04c sockfd s e = Inr (c, s1, o1)" and n: "NUL \<in> set (buffer_s s1)" by blast
  from Cons.IH [OF n] Cons.prems obtain r where "sel_loop (turn04c sockfd) s1 es = Inr r" by auto
  with t show ?case by (cases r) auto
qed

section \<open>Properties\<close>


definition typing_demo :: sel_turn where
  "typing_demo = \<lparr>sel_ret = 1, in_ready = True, sock_ready = False, sel_wr = 1, sel_rd = Fail\<rparr>"


end
