(* ===== verification/Echo_Labs.thy ===== *)
theory Echo_Labs
  imports Line_Input Interfaces
begin

text \<open>
  The first networking labs: \<^verbatim>\<open>lab_01_tcp_echo_server\<close> and \<^verbatim>\<open>lab_02_udp_multicast\<close>. All six programs read into a
  buffer of 1024 bytes with the whole size as the limit and then store a NUL behind what they read. The clients
  loop over their input without a test for its end; a turn of a client is split at the point where it waits
  for the network. The server and the client of lab 01 are also put together.
\<close>

definition BUFFER_SIZE_E :: nat where "BUFFER_SIZE_E = 1024"

text \<open>\<^verbatim>\<open>buffer[n] = '\0'\<close> with the result of a read, unchecked, and the string the buffer then holds.\<close>

definition read_str :: "rd \<Rightarrow> string res" where
  "read_str r = (if rd_len r < 0 then Inl Out_of_bounds else terminate BUFFER_SIZE_E (rd_data r))"

lemma read_str_eq: "read_str r = (if r \<noteq> Fail \<and> length (rd_data r) < 1024 then Inr (cstr (rd_data r)) else Inl Out_of_bounds)"
  by (cases r) (simp_all add: read_str_def terminate_def BUFFER_SIZE_E_def)

section \<open>Lab 01: the TCP echo server\<close>

definition setup01 :: "int \<Rightarrow> int \<Rightarrow> int \<Rightarrow> bool \<times> sys list" where
  "setup01 server_fd bind_ret listen_ret =
     (if server_fd = 0 then (False, [Socket_stream, Perror ''socket failed'', Exit 1])
      else if bind_ret < 0 then (False, [Socket_stream, Bind server_fd 8080, Perror ''bind failed'', Exit 1])
      else if listen_ret < 0
      then (False, [Socket_stream, Bind server_fd 8080, Listen server_fd 3, Perror ''listen'', Exit 1])
      else (True, [Socket_stream, Bind server_fd 8080, Listen server_fd 3,
              Print (''[SERVER] Listening on port '' @ show_int 8080 @ ''...'' @ nl)]))"

text \<open>The state is the socket of the client that is served; an event is the result of the next call.\<close>

datatype ev01 = Accept01 int | Read01 rd

definition echo_back01 :: "int \<Rightarrow> rd \<Rightarrow> (int option \<times> sys list) res" where
  "echo_back01 new_socket r =
     (if 0 < rd_len r
      then bindR (read_str r) (\<lambda>buffer.
        Inr (Some new_socket, [Print (''[SERVER] Received: '' @ buffer @ nl), Send new_socket (rd_data r)]))
      else Inr (None, [Print (''[SERVER] Client disconnected.'' @ nl), Close new_socket]))"

definition step01 :: "int option \<Rightarrow> ev01 \<Rightarrow> (int option \<times> sys list) res" where
  "step01 s e =
     (case (s, e) of
        (None, Accept01 fd) \<Rightarrow>
          Inr (if fd < 0 then (None, [Perror ''accept'']) else (Some fd, [Print (''[SERVER] Client connected.'' @ nl)]))
      | (Some fd, Read01 r) \<Rightarrow> echo_back01 fd r
      | _ \<Rightarrow> Inr (s, []))"

section \<open>Lab 01: the client\<close>

record echo_client =
  buffer_e :: string
  input_e :: string

text \<open>
  The first half of a turn: a line into the buffer, if there is one; the string in the buffer cut at its newline; the
  message sent.
\<close>

definition fgets_into :: "echo_client \<Rightarrow> echo_client" where
  "fgets_into s =
     (case fgets BUFFER_SIZE_E (input_e s) of
        None \<Rightarrow> s
      | Some (l, rest) \<Rightarrow> \<lparr>buffer_e = l @ NUL # drop (Suc (length l)) (buffer_e s), input_e = rest\<rparr>)"

definition cut_line :: "echo_client \<Rightarrow> (string \<times> echo_client) res" where
  "cut_line s =
     (if NUL \<notin> set (buffer_e s) then Inl Out_of_bounds
      else let m = cstr (buffer_e s)
           in Inr (chop nl m, s\<lparr>buffer_e := (buffer_e s)[strcspn m nl := NUL]\<rparr>))"

definition ask01 :: "echo_client \<Rightarrow> (string \<times> echo_client) res" where
  "ask01 s = cut_line (fgets_into s)"

text \<open>The second half: the answer into the buffer.\<close>

definition answer01 :: "rd \<Rightarrow> echo_client \<Rightarrow> (echo_client \<times> sys list) res" where
  "answer01 r s =
     bindR (read_str r) (\<lambda>m. Inr (s\<lparr>buffer_e := rd_data r @ NUL # drop (Suc (length (rd_data r))) (buffer_e s)\<rparr>,
       [Print (''[CLIENT] Echo: '' @ m @ nl)]))"

definition turn01 :: "int \<Rightarrow> echo_client \<Rightarrow> rd \<Rightarrow> (echo_client \<times> sys list) res" where
  "turn01 sock s r =
     bindR (ask01 s) (\<lambda>(m, s1). bindR (answer01 r s1) (\<lambda>(s2, out). Inr (s2, Send sock m # out)))"

definition start01 :: "int \<Rightarrow> int \<Rightarrow> int \<Rightarrow> bool \<times> sys list" where
  "start01 sock pton conn =
     (if sock < 0 then (False, [Socket_stream, Perror ''Socket creation error'', Exit 1])
      else if pton \<le> 0 then (False, [Socket_stream, Perror ''Invalid address/ Address not supported'', Exit 1])
      else if conn < 0 then (False, [Socket_stream, Connect sock 8080, Perror ''Connection Failed'', Exit 1])
      else (True, [Socket_stream, Connect sock 8080, Print (''[CLIENT] Connected to server. Type messages:'' @ nl)]))"

section \<open>Lab 02: UDP and multicast\<close>

definition setup_udp02 :: "int \<Rightarrow> int \<Rightarrow> bool \<times> sys list" where
  "setup_udp02 sockfd bind_ret =
     (if sockfd < 0 then (False, [Socket_dgram, Perror ''socket failed'', Exit 1])
      else if bind_ret < 0 then (False, [Socket_dgram, Bind_dgram sockfd 9090, Perror ''bind failed'', Exit 1])
      else (True, [Socket_dgram, Bind_dgram sockfd 9090, Print (''[SERVER] Listening on UDP port '' @ show_int 9090 @ ''...'' @ nl)]))"

definition udp_server02 :: "int \<Rightarrow> unit \<Rightarrow> rd \<times> addr \<Rightarrow> (unit \<times> sys list) res" where
  "udp_server02 sockfd s e =
     (case e of (r, client_addr) \<Rightarrow>
        bindR (read_str r) (\<lambda>buffer.
          Inr (s, [Print (''[SERVER] Received: '' @ buffer @ nl), Sendto sockfd client_addr (rd_data r)])))"

definition udp_client02 :: "int \<Rightarrow> echo_client \<Rightarrow> rd \<Rightarrow> (echo_client \<times> sys list) res" where
  "udp_client02 sockfd s r =
     bindR (cut_line (fgets_into s)) (\<lambda>(m, s1).
       bindR (read_str r) (\<lambda>t. Inr (s1\<lparr>buffer_e := rd_data r @ NUL # drop (Suc (length (rd_data r))) (buffer_e s1)\<rparr>,
         [Print ''Enter message: '', Sendto sockfd (''127.0.0.1'', 9090) m, Print (''[CLIENT] Echo: '' @ t @ nl)])))"

definition start_udp02 :: "int \<Rightarrow> bool \<times> sys list" where
  "start_udp02 sockfd =
     (if sockfd < 0 then (False, [Socket_dgram, Perror ''socket creation failed'', Exit 1])
      else (True, [Socket_dgram, Print (''[CLIENT] Connected to UDP server on port '' @ show_int 9090 @ nl)]))"

definition mcast_sender02 :: "int \<Rightarrow> echo_client \<Rightarrow> (echo_client \<times> sys list) res" where
  "mcast_sender02 sockfd s =
     bindR (cut_line (fgets_into s)) (\<lambda>(m, s1).
       Inr (s1, [Print ''Enter message to multicast: '', Sendto sockfd (''239.0.0.1'', 12345) m]))"

definition start_sender02 :: "int \<Rightarrow> bool \<times> sys list" where
  "start_sender02 sockfd =
     (if sockfd < 0 then (False, [Socket_dgram, Perror ''socket'', Exit 1])
      else (True, [Socket_dgram, Print (''[SENDER] Multicasting to '' @ ''239.0.0.1'' @ '':'' @ show_int 12345 @ nl)]))"

definition mcast_receiver02 :: "unit \<Rightarrow> rd \<Rightarrow> (unit \<times> sys list) res" where
  "mcast_receiver02 s r = bindR (read_str r) (\<lambda>buffer. Inr (s, [Print (''[RECEIVER] Received: '' @ buffer @ nl)]))"

definition setup_receiver02 :: "int \<Rightarrow> int \<Rightarrow> int \<Rightarrow> int \<Rightarrow> bool \<times> sys list" where
  "setup_receiver02 sockfd reuse_ret bind_ret join_ret =
     (if sockfd < 0 then (False, [Socket_dgram, Perror ''socket'', Exit 1])
      else if reuse_ret < 0 then (False, [Socket_dgram, Reuseaddr sockfd, Perror ''setsockopt'', Exit 1])
      else if bind_ret < 0 then (False, [Socket_dgram, Reuseaddr sockfd, Bind_dgram sockfd 12345, Perror ''bind'', Exit 1])
      else if join_ret < 0
      then (False, [Socket_dgram, Reuseaddr sockfd, Bind_dgram sockfd 12345, Join_group sockfd ''239.0.0.1'',
                    Perror ''setsockopt (IP_ADD_MEMBERSHIP)'', Exit 1])
      else (True, [Socket_dgram, Reuseaddr sockfd, Bind_dgram sockfd 12345, Join_group sockfd ''239.0.0.1'',
                   Print (''[RECEIVER] Listening to multicast group '' @ ''239.0.0.1'' @ '':'' @ show_int 12345 @ nl)]))"

section \<open>Client and server of lab 01 together\<close>

text \<open>
  One turn of the client against a server that serves it on its socket \<open>fd\<close>. A message without bytes never reaches
  the server, and both wait for ever: \<open>None\<close>. The answer arrives in one piece.
\<close>

definition exchange01 :: "int \<Rightarrow> int \<Rightarrow> echo_client \<Rightarrow> (echo_client \<times> sys list) res option" where
  "exchange01 sock fd s =
     (case ask01 s of
        Inl e \<Rightarrow> Some (Inl e)
      | Inr (m, s1) \<Rightarrow>
          if m = [] then None
          else Some (bindR (step01 (Some fd) (Read01 (Got m))) (\<lambda>(c, out). turn01 sock s (Got (sent_to fd out)))))"

fun exchanges01 :: "int \<Rightarrow> int \<Rightarrow> nat \<Rightarrow> echo_client \<Rightarrow> (echo_client \<times> sys list) res option" where
  "exchanges01 sock fd 0 s = Some (Inr (s, []))"
| "exchanges01 sock fd (Suc n) s =
     (case exchange01 sock fd s of
        None \<Rightarrow> None
      | Some (Inl e) \<Rightarrow> Some (Inl e)
      | Some (Inr (s1, o1)) \<Rightarrow>
          (case exchanges01 sock fd n s1 of
             None \<Rightarrow> None
           | Some (Inl e) \<Rightarrow> Some (Inl e)
           | Some (Inr (s2, o2)) \<Rightarrow> Some (Inr (s2, o1 @ o2))))"

section \<open>Turns\<close>

definition echo_line :: "string \<Rightarrow> bool" where
  "echo_line l \<longleftrightarrow> NUL \<notin> set l \<and> NL \<notin> set l \<and> length l \<le> 1022"

definition echoed :: "int \<Rightarrow> string \<Rightarrow> sys list" where
  "echoed sock m = [Send sock m, Print (''[CLIENT] Echo: '' @ m @ nl)]"

lemma chop_clean:
  assumes "NL \<notin> set m"
  shows "chop nl m = m" and "strcspn m nl = length m"
proof -
  have t: "takeWhile (\<lambda>c. c \<notin> set nl) m = m" using assms by (auto simp: takeWhile_eq_all_conv nl_def)
  show "chop nl m = m" unfolding chop_takeWhile by (fact t)
  show "strcspn m nl = length m" unfolding strcspn_def t by (rule refl)
qed

text \<open>A line of the input becomes the message, and stays in the buffer as a string.\<close>

lemma ask01_line:
  assumes "echo_line l" and "input_e s = l @ NL # rest"
  shows "\<exists>b. ask01 s = Inr (l, \<lparr>buffer_e = b, input_e = rest\<rparr>)"
proof -
  have f: "fgets BUFFER_SIZE_E (input_e s) = Some (l @ nl, rest)"
    using fgets_line [of l 1022 rest] assms by (simp add: echo_line_def BUFFER_SIZE_E_def)
  have c: "cstr ((l @ nl) @ NUL # drop (Suc (length (l @ nl))) (buffer_e s)) = l @ nl"
    using assms(1) by (intro cstr_terminated) (auto simp: echo_line_def nl_def)
  have "chop nl (l @ nl) = l" using assms(1) chop_line [of l] by (simp add: echo_line_def nl_def)
  with c show ?thesis by (simp add: ask01_def fgets_into_def f cut_line_def)
qed

lemma ask01_again:
  assumes "input_e s = []" and "buffer_e s = m @ NUL # r" and "NUL \<notin> set m" and "NL \<notin> set m"
  shows "ask01 s = Inr (m, s)"
proof -
  have "cstr (buffer_e s) = m" using assms by (simp add: cstr_terminated)
  moreover have "(buffer_e s)[length m := NUL] = buffer_e s" using assms(2) by simp
  ultimately show ?thesis using assms by (simp add: ask01_def fgets_into_def fgets_def cut_line_def chop_clean)
qed

lemma exchange01_message:
  assumes "ask01 s = Inr (m, s1)" and "m \<noteq> []" and "length m < 1024" and "NUL \<notin> set m"
  shows "exchange01 sock fd s = Some (Inr (s1\<lparr>buffer_e := m @ NUL # drop (Suc (length m)) (buffer_e s1)\<rparr>, echoed sock m))"
proof -
  have "step01 (Some fd) (Read01 (Got m)) = Inr (Some fd, [Print (''[SERVER] Received: '' @ m @ nl), Send fd m])"
    using assms by (simp add: step01_def echo_back01_def read_str_eq)
  moreover have "sent_to fd [Print (''[SERVER] Received: '' @ m @ nl), Send fd m] = m" by (simp add: sent_to_def)
  ultimately show ?thesis
    using assms by (simp add: exchange01_def turn01_def answer01_def read_str_eq echoed_def)
qed

lemma exchange01_empty: "ask01 s = Inr ([], s1) \<Longrightarrow> exchange01 sock fd s = None"
  by (simp add: exchange01_def)

lemma exchanges01_add:
  "exchanges01 sock fd n s = Some (Inr (s1, o1)) \<Longrightarrow>
     exchanges01 sock fd (n + k) s =
       (case exchanges01 sock fd k s1 of None \<Rightarrow> None | Some (Inl e) \<Rightarrow> Some (Inl e)
        | Some (Inr (s2, o2)) \<Rightarrow> Some (Inr (s2, o1 @ o2)))"
proof (induction n arbitrary: s o1)
  case 0
  then show ?case by (auto split: option.splits sum.splits)
next
  case (Suc n)
  then obtain s2 oa ob where "exchange01 sock fd s = Some (Inr (s2, oa))" and r: "exchanges01 sock fd n s2 = Some (Inr (s1, ob))"
    and "o1 = oa @ ob"
    by (auto split: option.splits sum.splits)
  with Suc.IH [OF r] show ?case by (auto split: option.splits sum.splits)
qed

lemma exchanges01_lines:
  assumes "\<forall>l \<in> set ls. echo_line l \<and> l \<noteq> []" and "input_e s = concat (map (\<lambda>l. l @ nl) ls) @ rest"
  shows "\<exists>s'. exchanges01 sock fd (length ls) s = Some (Inr (s', concat (map (echoed sock) ls))) \<and> input_e s' = rest
      \<and> (ls \<noteq> [] \<longrightarrow> (\<exists>r. buffer_e s' = last ls @ NUL # r))"
  using assms
proof (induction ls arbitrary: s)
  case Nil
  then show ?case by simp
next
  case (Cons l ls)
  then have l: "echo_line l" "l \<noteq> []" and i: "input_e s = l @ NL # concat (map (\<lambda>l. l @ nl) ls) @ rest"
    by (auto simp: nl_def)
  from ask01_line [OF l(1) i] obtain b where a: "ask01 s = Inr (l, \<lparr>buffer_e = b, input_e = concat (map (\<lambda>l. l @ nl) ls) @ rest\<rparr>)"
    by blast
  let ?s = "\<lparr>buffer_e = l @ NUL # drop (Suc (length l)) b, input_e = concat (map (\<lambda>l. l @ nl) ls) @ rest\<rparr>"
  have e: "exchange01 sock fd s = Some (Inr (?s, echoed sock l))"
    using exchange01_message [OF a l(2), of sock fd] l(1) by (simp add: echo_line_def)
  from Cons.IH [of ?s] Cons.prems obtain s' where
    r: "exchanges01 sock fd (length ls) ?s = Some (Inr (s', concat (map (echoed sock) ls)))" and i': "input_e s' = rest"
    and b': "ls \<noteq> [] \<longrightarrow> (\<exists>r. buffer_e s' = last ls @ NUL # r)" by auto
  have "\<exists>r. buffer_e s' = last (l # ls) @ NUL # r" using r b' by (cases ls) auto
  with e r i' show ?case by simp
qed

lemma exchanges01_again:
  assumes "input_e s = []" and "buffer_e s = m @ NUL # r" and "echo_line m" and "m \<noteq> []"
  shows "exchanges01 sock fd k s = Some (Inr (s, concat (replicate k (echoed sock m))))"
proof (induction k)
  case 0
  then show ?case by simp
next
  case (Suc k)
  have a: "ask01 s = Inr (m, s)" using assms by (intro ask01_again) (auto simp: echo_line_def)
  have "s\<lparr>buffer_e := m @ NUL # drop (Suc (length m)) (buffer_e s)\<rparr> = s" using assms(2) by simp
  with exchange01_message [OF a assms(4), of sock fd] assms(3)
  have "exchange01 sock fd s = Some (Inr (s, echoed sock m))" by (simp add: echo_line_def)
  with Suc show ?case by simp
qed

lemma step01_data:
  "d \<noteq> [] \<Longrightarrow> length d < 1024 \<Longrightarrow>
     step01 (Some fd) (Read01 (Got d)) = Inr (Some fd, [Print (''[SERVER] Received: '' @ cstr d @ nl), Send fd d])"
  by (simp add: step01_def echo_back01_def read_str_eq)

lemma serve01:
  "\<forall>d \<in> set ds. d \<noteq> [] \<and> length d < 1024 \<Longrightarrow>
     \<exists>out. run step01 (Some fd) (map (\<lambda>d. Read01 (Got d)) ds) = Inr (Some fd, out) \<and> sent_to fd out = concat ds \<and> closed out = []"
proof (induction ds)
  case Nil
  then show ?case by simp
next
  case (Cons d ds)
  then obtain out where "run step01 (Some fd) (map (\<lambda>d. Read01 (Got d)) ds) = Inr (Some fd, out)" "sent_to fd out = concat ds"
    "closed out = []" by auto
  with Cons.prems step01_data [of d fd] show ?case by (simp add: sent_to_def)
qed

section \<open>Properties\<close>

text \<open>
  C40: lab 01, server and client together. The server sends back to a client exactly the bytes it reads and
  closes its socket at the end, and writes past its buffer exactly when a read fills it. A client whose
  input consists of lines that are not empty gets each of them back and prints it; at the end of its input it goes on to send
  the last line, for ever; and at the first empty line both wait for each other for ever.
\<close>

theorem echo01:
  "(\<forall>ds fd. (\<forall>d \<in> set ds. d \<noteq> [] \<and> length d < 1024) \<longrightarrow>
      (\<exists>out. run step01 (Some fd) (map (\<lambda>d. Read01 (Got d)) ds @ [Read01 Eof]) = Inr (None, out)
        \<and> sent_to fd out = concat ds \<and> closed out = [fd]))
   \<and> (\<forall>d fd. is_fault (step01 (Some fd) (Read01 (Got d))) \<longleftrightarrow> 1024 \<le> length d)
   \<and> (\<forall>ls k b sock fd. ls \<noteq> [] \<and> (\<forall>l \<in> set ls. echo_line l \<and> l \<noteq> []) \<longrightarrow>
      (\<exists>s. exchanges01 sock fd (length ls + k) \<lparr>buffer_e = b, input_e = concat (map (\<lambda>l. l @ nl) ls)\<rparr> =
        Some (Inr (s, concat (map (echoed sock) (ls @ replicate k (last ls)))))))
   \<and> (\<forall>ls k b rest sock fd. (\<forall>l \<in> set ls. echo_line l \<and> l \<noteq> []) \<longrightarrow>
      exchanges01 sock fd (length ls + Suc k) \<lparr>buffer_e = b, input_e = concat (map (\<lambda>l. l @ nl) ls) @ nl @ rest\<rparr> = None)"
proof (intro conjI allI impI)
  fix ds :: "string list" and fd
  assume ds: "\<forall>d \<in> set ds. d \<noteq> [] \<and> length d < 1024"
  from serve01 [OF ds, of fd] obtain out where "run step01 (Some fd) (map (\<lambda>d. Read01 (Got d)) ds) = Inr (Some fd, out)"
    "sent_to fd out = concat ds" "closed out = []" by blast
  moreover have "run step01 (Some fd) [Read01 Eof] = Inr (None, [Print (''[SERVER] Client disconnected.'' @ nl), Close fd])"
    by (simp add: step01_def echo_back01_def)
  ultimately show "\<exists>out. run step01 (Some fd) (map (\<lambda>d. Read01 (Got d)) ds @ [Read01 Eof]) = Inr (None, out)
        \<and> sent_to fd out = concat ds \<and> closed out = [fd]"
    by (auto simp: run_append_Inr sent_to_def)
next
  fix d fd
  show "is_fault (step01 (Some fd) (Read01 (Got d))) \<longleftrightarrow> 1024 \<le> length d"
    by (cases d) (auto simp: step01_def echo_back01_def read_str_eq)
next
  fix ls k b sock fd
  assume ls: "ls \<noteq> [] \<and> (\<forall>l \<in> set ls. echo_line l \<and> l \<noteq> [])"
  let ?s = "\<lparr>buffer_e = b, input_e = concat (map (\<lambda>l. l @ nl) ls)\<rparr>"
  from exchanges01_lines [of ls ?s "[]" sock fd] ls obtain s r where
    x: "exchanges01 sock fd (length ls) ?s = Some (Inr (s, concat (map (echoed sock) ls)))"
    and "input_e s = []" "buffer_e s = last ls @ NUL # r" by auto
  with ls have "exchanges01 sock fd k s = Some (Inr (s, concat (replicate k (echoed sock (last ls)))))"
    by (intro exchanges01_again) auto
  with exchanges01_add [OF x, of k]
  show "\<exists>s. exchanges01 sock fd (length ls + k) ?s = Some (Inr (s, concat (map (echoed sock) (ls @ replicate k (last ls)))))"
    by simp
next
  fix ls k b rest sock fd
  assume ls: "\<forall>l \<in> set ls. echo_line l \<and> l \<noteq> []"
  let ?s = "\<lparr>buffer_e = b, input_e = concat (map (\<lambda>l. l @ nl) ls) @ nl @ rest\<rparr>"
  from exchanges01_lines [of ls ?s "nl @ rest" sock fd] ls obtain s where
    x: "exchanges01 sock fd (length ls) ?s = Some (Inr (s, concat (map (echoed sock) ls)))" and i: "input_e s = nl @ rest" by auto
  from i have "input_e s = [] @ NL # rest" by (simp add: nl_def)
  from ask01_line [OF _ this] obtain c where "ask01 s = Inr ([], \<lparr>buffer_e = c, input_e = rest\<rparr>)" by (auto simp: echo_line_def)
  then have "exchanges01 sock fd (Suc k) s = None" by (simp add: exchange01_empty)
  with exchanges01_add [OF x, of "Suc k"] show "exchanges01 sock fd (length ls + Suc k) ?s = None" by simp
qed

theorem echo01_witness:
  "\<exists>s. exchanges01 3 4 3 \<lparr>buffer_e = [], input_e = ''hi'' @ nl\<rparr> =
     Some (Inr (s, echoed 3 ''hi'' @ echoed 3 ''hi'' @ echoed 3 ''hi''))"
  using conjunct1 [OF conjunct2 [OF conjunct2 [OF echo01]], rule_format, of "[''hi'']" 3 4 2 "[]"]
  by (simp add: echo_line_def numeral_2_eq_2 eval_nat_numeral del: exchanges01.simps)

text \<open>
  Lab 02: the UDP server answers every datagram to its sender with the same bytes, the empty one too, and
  faults exactly when \<^verbatim>\<open>recvfrom\<close> fails or fills the buffer; so do the receiver of the multicast group and the client.
\<close>

theorem udp02:
  "(rd_ok 1023 r \<and> r \<noteq> Fail \<longrightarrow> (\<exists>out. udp_server02 sockfd () (r, a) = Inr ((), out) \<and> sendtos out = [(a, rd_data r)]))
   \<and> (is_fault (udp_server02 sockfd () (r, a)) \<longleftrightarrow> r = Fail \<or> \<not> rd_ok 1023 r)
   \<and> (is_fault (mcast_receiver02 () r) \<longleftrightarrow> r = Fail \<or> \<not> rd_ok 1023 r)
   \<and> (echo_line l \<and> input_e s = l @ NL # rest \<and> rd_ok 1023 r \<and> r \<noteq> Fail \<longrightarrow>
        (\<exists>s' out. udp_client02 sockfd s r = Inr (s', out) \<and> sendtos out = [((''127.0.0.1'', 9090), l)] \<and> input_e s' = rest)
        \<and> (\<exists>s' out. mcast_sender02 sockfd s = Inr (s', out) \<and> sendtos out = [((''239.0.0.1'', 12345), l)] \<and> input_e s' = rest))"
proof -
  have "\<exists>b. cut_line (fgets_into s) = Inr (l, \<lparr>buffer_e = b, input_e = rest\<rparr>)"
    if "echo_line l" "input_e s = l @ NL # rest"
    using ask01_line [OF that] by (simp add: ask01_def)
  then show ?thesis
    by (auto simp: udp_server02_def mcast_receiver02_def read_str_eq rd_ok_def udp_client02_def mcast_sender02_def is_fault_def
        split: if_splits)
qed

end
