(* ===== verification/Exec_Labs.thy ===== *)
theory Exec_Labs
  imports Line_Input Wait_Status
begin

text \<open>
  The first process labs: \<^verbatim>\<open>lab01_fork_basics\<close>, \<^verbatim>\<open>lab02_exec_basics\<close> and \<^verbatim>\<open>lab03_exec_env\<close> under
  \<^verbatim>\<open>01_processes\<close>. A program yields the calls of the parent and those of the child, each on its own copy of
  the memory; which process prints first is not determined. What the kernel answers is a parameter: the result
  of \<^verbatim>\<open>fork\<close>, whether the program to execute is found, and how the child ended.
\<close>

section \<open>Lab 01: fork\<close>

definition child_f1 :: "int \<Rightarrow> int \<Rightarrow> int \<Rightarrow> int \<times> sys list" where
  "child_f1 pid ppid v =
     (let v1 = v + 10
      in (v1, [Print (''[CHILD] PID = '' @ show_int pid @ '', PPID = '' @ show_int ppid @ '', value = '' @ show_int v @ nl),
               Print (''[CHILD] Modified value = '' @ show_int v1 @ nl), Print (''[CHILD] Exiting...'' @ nl)]))"

definition parent_f1 :: "int \<Rightarrow> int \<Rightarrow> int \<Rightarrow> int \<times> sys list" where
  "parent_f1 me pid v =
     (let v1 = v + 100
      in (v1, [Print (''[PARENT] PID = '' @ show_int me @ '', child PID = '' @ show_int pid @ '', value = '' @ show_int v @ nl),
               Print (''[PARENT] Modified value = '' @ show_int v1 @ nl), Sleep 1, Print (''[PARENT] Exiting...'' @ nl)]))"

text \<open>The parent \<open>me\<close>, its own parent, the child: the calls of the parent, and value and calls of the child.\<close>

definition main_f1 :: "int \<Rightarrow> int \<Rightarrow> int \<Rightarrow> (int \<times> sys list) \<times> (int \<times> sys list) option" where
  "main_f1 me ppid pid =
     (let v = 42; o1 = [Print (''[PID '' @ show_int me @ ''] Starting process. PPID = '' @ show_int ppid @ nl), Fork]
      in if pid < 0 then ((v, o1 @ [Perror ''fork failed'', Exit 1]), None)
         else (case parent_f1 me pid v of (vp, op) \<Rightarrow> ((vp, o1 @ op), Some (child_f1 pid me v))))"

section \<open>Lab 02: exec\<close>

definition child_exec :: "int \<Rightarrow> int \<Rightarrow> string list \<Rightarrow> sys list" where
  "child_exec pid ppid argv =
     [Print (''[EXECED PROGRAM] PID = '' @ show_int pid @ '', PPID = '' @ show_int ppid @ nl),
      Print (''[EXECED PROGRAM] Arguments received:'' @ show_int (int (length argv)) @ nl)]
     @ map (\<lambda>i. Print (''  argv['' @ show_int (int i) @ ''] = '' @ argv ! i @ nl)) [0..<length argv]
     @ [Print (''[EXECED PROGRAM] Replaced the old process successfully!'' @ nl)]"

definition args_x2 :: "string list" where
  "args_x2 = [''./child_exec'', ''Hello'', ''from'', ''exec!'']"

text \<open>The child, with the exit status it gives itself.\<close>

definition child_x2 :: "bool \<Rightarrow> int \<Rightarrow> int \<Rightarrow> nat \<times> sys list" where
  "child_x2 found pid ppid =
     (let o1 = [Print (''[CHILD] Before exec, PID = '' @ show_int pid @ nl), Exec args_x2]
      in if found then (0, o1 @ child_exec pid ppid args_x2) else (1, o1 @ [Perror ''execvp failed'', Exit 1]))"

definition show_status :: "status \<Rightarrow> string" where
  "show_status st = show_int (uint (WEXITSTATUS st))"

definition main_x2 :: "int \<Rightarrow> int \<Rightarrow> bool \<Rightarrow> (nat \<Rightarrow> child_event) \<Rightarrow> sys list \<times> sys list" where
  "main_x2 me pid found ends =
     (let o1 = [Print (''[PARENT] PID = '' @ show_int me @ nl), Fork]
      in if pid < 0 then (o1 @ [Perror ''fork failed'', Exit 1], [])
         else let (code, oc) = child_x2 found pid me
              in (o1 @ [Wait pid, Print (''[PARENT] Child finished. Exit status = '' @ show_status (encode (ends code)) @ nl)], oc))"

section \<open>Lab 03: an environment for the child\<close>

fun strstr :: "string \<Rightarrow> string \<Rightarrow> bool" where
  "strstr [] t = (t = [])"
| "strstr (c # s) t = (take (length t) (c # s) = t \<or> strstr s t)"

text \<open>\<^verbatim>\<open>getenv\<close>: the value of the first entry with that name, or the null pointer.\<close>

definition getenv :: "string list \<Rightarrow> string \<Rightarrow> string option" where
  "getenv env name =
     (case find (\<lambda>e. take (Suc (length name)) e = name @ ''='') env of
        None \<Rightarrow> None | Some e \<Rightarrow> Some (drop (Suc (length name)) e))"

text \<open>\<^verbatim>\<open>printf("%s", p)\<close> is undefined for the null pointer.\<close>

definition show_ptr :: "string option \<Rightarrow> string res" where
  "show_ptr p = (case p of None \<Rightarrow> Inl Bad_pointer | Some t \<Rightarrow> Inr t)"

definition child_env :: "int \<Rightarrow> int \<Rightarrow> string list \<Rightarrow> string list \<Rightarrow> sys list res" where
  "child_env pid ppid argv environ =
     (let o1 = [Print (''[CHILD_ENV] PID = '' @ show_int pid @ '', PPID = '' @ show_int ppid @ nl),
                Print (''[CHILD_ENV] Arguments: '' @ show_int (int (length argv)) @ nl)]
            @ map (\<lambda>i. Print (''  argv['' @ show_int (int i) @ ''] = '' @ argv ! i @ nl)) [0..<length argv]
            @ [Print (nl @ ''[CHILD_ENV] Environment Variables (filtered):'' @ nl)]
            @ map (\<lambda>e. Print (''  '' @ e @ nl)) (filter (\<lambda>e. strstr e ''CUSTOM_VAR'' \<or> strstr e ''VERSION'') environ)
            @ [Print (nl @ ''Access via getenv():'' @ nl)]
      in bindR (show_ptr (getenv environ ''CUSTOM_VAR'')) (\<lambda>v1.
         bindR (show_ptr (getenv environ ''VERSION'')) (\<lambda>v2.
           Inr (o1 @ [Print (''  CUSTOM_VAR = '' @ v1 @ nl), Print (''  VERSION    = '' @ v2 @ nl),
                      Print (nl @ ''[CHILD_ENV] Environment successfully passed and read!'' @ nl)]))))"

definition custom_env :: "string list" where
  "custom_env = [''CUSTOM_VAR=ChatServerLab'', ''VERSION=3.0'']"

definition child_x3 :: "bool \<Rightarrow> int \<Rightarrow> int \<Rightarrow> (nat \<times> sys list) res" where
  "child_x3 found pid ppid =
     (let o1 = [Print (''[CHILD] Before exec, PID = '' @ show_int pid @ nl), Exec [''child_env'', ''EnvLab'']]
      in if found then bindR (child_env pid ppid [''child_env'', ''EnvLab''] custom_env) (\<lambda>out. Inr (0, o1 @ out))
         else Inr (1, o1 @ [Perror ''execle failed'', Exit 1]))"

definition main_x3 :: "int \<Rightarrow> int \<Rightarrow> bool \<Rightarrow> (nat \<Rightarrow> child_event) \<Rightarrow> (sys list \<times> sys list) res" where
  "main_x3 me pid found ends =
     (let o1 = [Print (''[PARENT] PID = '' @ show_int me @ nl), Fork]
      in if pid < 0 then Inr (o1 @ [Perror ''fork failed'', Exit 1], [])
         else bindR (child_x3 found pid me) (\<lambda>(code, oc).
           Inr (o1 @ [Wait pid, Print (''[PARENT] Child exited with status '' @ show_status (encode (ends code)) @ nl)], oc)))"

section \<open>Properties\<close>

lemma show_status_exited: "c < 256 \<Longrightarrow> show_status (encode (Exited c)) = show_int (int c)"
  by (simp only: show_status_def uint_nat exit_code)

lemma signal_bits:
  assumes "s < 128"
  shows "WEXITSTATUS (encode (Signaled s core)) = 0"
proof -
  have "(word_of_nat s OR (if core then 0x80 else 0) :: status) AND 0xff00 = 0"
  proof (rule bit_eqI)
    fix n
    from assms bit_small [of s 7 n] have "bit (word_of_nat s :: status) n \<Longrightarrow> n < 7" by simp
    moreover have "n = 7" if "bit (0x80 :: status) n"
    proof -
      from that have "bit (push_bit 7 1 :: status) n" unfolding masks(4) .
      then show "n = 7" by (simp only: bit_push_bit_iff bit_1_iff) auto
    qed
    ultimately show "bit ((word_of_nat s OR (if core then 0x80 else 0) :: status) AND 0xff00) n = bit (0 :: status) n"
      unfolding masks(3) by (auto simp: bit_simps)
  qed
  then show ?thesis by (simp add: WEXITSTATUS_def)
qed

lemma show_status_signaled: "s < 128 \<Longrightarrow> show_status (encode (Signaled s core)) = ''0''"
  by (simp only: show_status_def signal_bits) (simp add: show_int_def show_nat.simps digit_numerals)

lemma main_x2_eq:
  "0 < pid \<Longrightarrow> main_x2 me pid found ends =
     ([Print (''[PARENT] PID = '' @ show_int me @ nl), Fork, Wait pid,
       Print (''[PARENT] Child finished. Exit status = '' @ show_status (encode (ends (if found then 0 else 1))) @ nl)],
      snd (child_x2 found pid me))"
  by (simp add: main_x2_def child_x2_def Let_def)

text \<open>
  Labs 01 to 03. Each of the two processes of lab 01 changes its own copy of the variable. The program
  executed in lab 02 prints exactly the four arguments, and the parent prints the exit status of the child, which
  tells whether \<^verbatim>\<open>execvp\<close> found the program; it prints \<open>0\<close> as well for a child ended by a signal, since it does not ask
  how the child ended. The program executed in lab 03 finds both variables in the environment it was given, and would use a
  null pointer exactly when one of them were missing.
\<close>

theorem exec_labs:
  assumes "0 < pid"
  shows "fst (fst (main_f1 me ppid pid)) = 142 \<and> map_option fst (snd (main_f1 me ppid pid)) = Some 52"
    and "child_x2 True pid me = (0, [Print (''[CHILD] Before exec, PID = '' @ show_int pid @ nl), Exec args_x2] @ child_exec pid me args_x2)"
    and "last (fst (main_x2 me pid found Exited)) =
      Print (''[PARENT] Child finished. Exit status = '' @ (if found then ''0'' else ''1'') @ nl)"
    and "0 < sg \<Longrightarrow> sg < 127 \<Longrightarrow> last (fst (main_x2 me pid found (\<lambda>c. Signaled sg core))) =
      Print (''[PARENT] Child finished. Exit status = 0'' @ nl)"
    and "\<exists>op oc. main_x3 me pid True Exited = Inr (op, oc)
      \<and> Print (''  CUSTOM_VAR = ChatServerLab'' @ nl) \<in> set oc \<and> Print (''  VERSION    = 3.0'' @ nl) \<in> set oc"
    and "is_fault (child_env pid me argv env) \<longleftrightarrow> getenv env ''CUSTOM_VAR'' = None \<or> getenv env ''VERSION'' = None"
proof -
  show "fst (fst (main_f1 me ppid pid)) = 142 \<and> map_option fst (snd (main_f1 me ppid pid)) = Some 52"
    using assms by (simp add: main_f1_def parent_f1_def child_f1_def Let_def)
  show "child_x2 True pid me = (0, [Print (''[CHILD] Before exec, PID = '' @ show_int pid @ nl), Exec args_x2] @ child_exec pid me args_x2)"
    by (simp add: child_x2_def Let_def)
  show "last (fst (main_x2 me pid found Exited)) =
      Print (''[PARENT] Child finished. Exit status = '' @ (if found then ''0'' else ''1'') @ nl)"
    using assms by (simp add: main_x2_eq show_status_exited del: encode.simps)
      (simp add: show_int_def show_nat.simps digit_numerals)
  show "last (fst (main_x2 me pid found (\<lambda>c. Signaled sg core))) = Print (''[PARENT] Child finished. Exit status = 0'' @ nl)"
    if "0 < sg" "sg < 127"
    using assms that by (simp add: main_x2_eq show_status_signaled del: encode.simps)
  show "is_fault (child_env pid me argv env) \<longleftrightarrow> getenv env ''CUSTOM_VAR'' = None \<or> getenv env ''VERSION'' = None"
    by (auto simp: child_env_def show_ptr_def Let_def split: option.splits)
  have "getenv custom_env ''CUSTOM_VAR'' = Some ''ChatServerLab''" "getenv custom_env ''VERSION'' = Some ''3.0''"
    by (simp_all add: getenv_def custom_env_def)
  then show "\<exists>op oc. main_x3 me pid True Exited = Inr (op, oc)
      \<and> Print (''  CUSTOM_VAR = ChatServerLab'' @ nl) \<in> set oc \<and> Print (''  VERSION    = 3.0'' @ nl) \<in> set oc"
    using assms by (simp add: main_x3_def child_x3_def child_env_def show_ptr_def Let_def)
qed

end
