(* ===== verification/Loggers.thy ===== *)
theory Loggers
  imports Line_Input Interfaces
begin

text \<open>
  The datagram loggers and their clients: \<^verbatim>\<open>lab_03_unix_domain_logger\<close>, \<^verbatim>\<open>lab_06_udp_logger\<close> and
  \<^verbatim>\<open>lab_07_multicast_logger\<close> under \<^verbatim>\<open>03_networking\<close>. An event of a logger is a turn of its loop: what
  \<^verbatim>\<open>recvfrom\<close> returns, the sender, and the time as \<^verbatim>\<open>strftime\<close> has printed it. The clients send the lines of
  their input one by one.
\<close>

section \<open>The model\<close>

definition BUF_SIZE_LOG :: nat where "BUF_SIZE_LOG = 1024"

record dgram =
  dg_read :: rd
  dg_from :: addr
  dg_time :: string

definition quote_time :: "string \<Rightarrow> string" where
  "quote_time ts = ''['' @ ts @ '']''"

text \<open>Lab 03: the UNIX domain logger.\<close>

definition logger03 :: "unit \<Rightarrow> dgram \<Rightarrow> (unit \<times> sys list) res" where
  "logger03 s e =
     (if 0 < rd_len (dg_read e)
      then bindR (terminate BUF_SIZE_LOG (rd_data (dg_read e))) (\<lambda>buffer.
        Inr (s, [Log (quote_time (dg_time e) @ '' '' @ buffer @ nl), Print (''[SERVER] Logged: '' @ buffer @ nl)]))
      else Inr (s, []))"

definition setup_logger03 :: "int \<Rightarrow> int \<Rightarrow> bool \<Rightarrow> bool \<times> sys list" where
  "setup_logger03 server_fd bind_ret logf =
     (let o1 = [Unlink ''/tmp/unix_logger.sock'', Socket_dgram]
      in if server_fd = -1 then (False, o1 @ [Perror ''socket'', Exit 1])
         else let o2 = o1 @ [Bind_path server_fd ''/tmp/unix_logger.sock'']
              in if bind_ret = -1 then (False, o2 @ [Perror ''bind'', Close server_fd, Exit 1])
                 else if \<not> logf
                 then (False, o2 @ [Perror ''fopen'', Close server_fd, Unlink ''/tmp/unix_logger.sock'', Exit 1])
                 else (True, o2 @ [Print (''[LOGGER SERVER] Listening on /tmp/unix_logger.sock'' @ nl)]))"

text \<open>Lab 06: the UDP logger.\<close>

definition show_addr :: "addr \<Rightarrow> string" where
  "show_addr a = fst a @ '':'' @ show_int (snd a)"

definition logger06 :: "unit \<Rightarrow> dgram \<Rightarrow> (unit \<times> sys list) res" where
  "logger06 s e =
     (if rd_len (dg_read e) < 0 then Inr (s, [Perror ''recvfrom''])
      else bindR (terminate BUF_SIZE_LOG (rd_data (dg_read e))) (\<lambda>buffer.
        Inr (s, [Log (quote_time (dg_time e) @ '' ['' @ show_addr (dg_from e) @ ''] '' @ buffer),
                 Print (''[LOG] '' @ show_addr (dg_from e) @ '' '' @ arrow @ '' '' @ buffer)])))"

definition setup_logger06 :: "bool \<Rightarrow> int \<Rightarrow> int \<Rightarrow> bool \<times> sys list" where
  "setup_logger06 logf sockfd bind_ret =
     (if \<not> logf then (False, [Perror ''fopen'', Exit 1])
      else if sockfd = -1 then (False, [Socket_dgram, Perror ''socket'', Exit 1])
      else if bind_ret = -1
      then (False, [Socket_dgram, Bind_dgram sockfd 7070, Perror ''bind'', Close sockfd, Exit 1])
      else (True, [Socket_dgram, Bind_dgram sockfd 7070,
                   Print (''[UDP SERVER] Listening on port '' @ show_int 7070 @ ''...'' @ nl)]))"

text \<open>Lab 07: the multicast subscriber, which only prints.\<close>

definition subscriber07 :: "unit \<Rightarrow> dgram \<Rightarrow> (unit \<times> sys list) res" where
  "subscriber07 s e =
     (if rd_len (dg_read e) < 0 then Inr (s, [Perror ''recv''])
      else bindR (terminate BUF_SIZE_LOG (rd_data (dg_read e))) (\<lambda>buffer.
        Inr (s, [Print (''[LOG RECEIVED] '' @ buffer)])))"

definition setup_subscriber07 :: "int \<Rightarrow> int \<Rightarrow> int \<Rightarrow> int \<Rightarrow> bool \<times> sys list" where
  "setup_subscriber07 sockfd reuse_ret bind_ret join_ret =
     (if sockfd < 0 then (False, [Socket_dgram, Perror ''socket'', Exit 1])
      else if reuse_ret < 0
      then (False, [Socket_dgram, Reuseaddr sockfd, Perror ''setsockopt(SO_REUSEADDR)'', Close sockfd, Exit 1])
      else if bind_ret < 0
      then (False, [Socket_dgram, Reuseaddr sockfd, Bind_dgram sockfd 8080, Perror ''bind'', Close sockfd, Exit 1])
      else if join_ret < 0
      then (False, [Socket_dgram, Reuseaddr sockfd, Bind_dgram sockfd 8080, Join_group sockfd ''239.0.0.1'',
             Perror ''setsockopt(IP_ADD_MEMBERSHIP)'', Close sockfd, Exit 1])
      else (True, [Socket_dgram, Reuseaddr sockfd, Bind_dgram sockfd 8080, Join_group sockfd ''239.0.0.1'',
             Print (''[MULTICAST SUBSCRIBER] Listening on 239.0.0.1:'' @ show_int 8080 @ nl)]))"

text \<open>
  The clients: the turn of their common loop, for the calls \<open>snd_calls\<close> that send a line and that may
  depend on what the kernel answers, and the four programs.
\<close>

definition sender_turn :: "(int \<Rightarrow> string \<Rightarrow> sys list) \<Rightarrow> int \<Rightarrow> string \<Rightarrow> unit \<Rightarrow> (control \<times> unit \<times> sys list) res" where
  "sender_turn snd_calls ret message u =
     (if strncmp_eq message ''exit'' 4 then Inr (Break, u, []) else Inr (Again, u, snd_calls ret message))"

definition sender_loop :: "(int \<Rightarrow> string \<Rightarrow> sys list) \<Rightarrow> (nat \<Rightarrow> int) \<Rightarrow> string \<Rightarrow> sys list res" where
  "sender_loop snd_calls rets inp =
     bindR (repl [Print ''> '', Flush] (sender_turn snd_calls) rets () (lines_of 1022 inp)) (\<lambda>(c, u, out). Inr out)"

definition exit_hint :: "string \<Rightarrow> sys" where
  "exit_hint what = Print (what @ '' (type '' @ [CHR 0x27] @ ''exit'' @ [CHR 0x27] @ '' to quit):'' @ nl)"

definition client03 :: "int \<Rightarrow> (nat \<Rightarrow> int) \<Rightarrow> string \<Rightarrow> sys list res" where
  "client03 sockfd rets inp =
     (if sockfd = -1 then Inr [Socket_dgram, Perror ''socket'', Exit 1]
      else bindR (sender_loop (\<lambda>ret m. Sendto sockfd (''/tmp/unix_logger.sock'', 0) m
                    # (if ret = -1 then [Perror ''sendto''] else [])) rets inp) (\<lambda>out.
        Inr ([Socket_dgram, Print (''[CLIENT] UNIX Domain Logger'' @ nl), exit_hint ''Type messages'']
             @ out @ [Close sockfd])))"

definition client06 :: "int \<Rightarrow> (nat \<Rightarrow> int) \<Rightarrow> string \<Rightarrow> sys list res" where
  "client06 sockfd rets inp =
     (if sockfd = -1 then Inr [Socket_dgram, Perror ''socket'', Exit 1]
      else bindR (sender_loop (\<lambda>ret m. [Sendto sockfd (''127.0.0.1'', 7070) m]) rets inp) (\<lambda>out.
        Inr ([Socket_dgram, Print (''[UDP CLIENT] Sending logs to 127.0.0.1:'' @ show_int 7070 @ nl), exit_hint ''Type messages'']
             @ out @ [Close sockfd, Print (''[UDP CLIENT] Disconnected.'' @ nl)])))"

definition publisher07 :: "int \<Rightarrow> int \<Rightarrow> (nat \<Rightarrow> int) \<Rightarrow> string \<Rightarrow> sys list res" where
  "publisher07 sockfd ttl_ret rets inp =
     (if sockfd < 0 then Inr [Socket_dgram, Perror ''socket'', Exit 1]
      else if ttl_ret < 0
      then Inr [Socket_dgram, Multicast_ttl sockfd 1, Perror ''setsockopt(IP_MULTICAST_TTL)'', Close sockfd, Exit 1]
      else bindR (sender_loop (\<lambda>ret m. [Sendto sockfd (''239.0.0.1'', 8080) m]) rets inp) (\<lambda>out.
        Inr ([Socket_dgram, Multicast_ttl sockfd 1,
              Print (''[MULTICAST PUBLISHER] Broadcasting to 239.0.0.1:'' @ show_int 8080 @ nl),
              exit_hint ''Type messages to broadcast'']
             @ out @ [Close sockfd, Print (''[MULTICAST PUBLISHER] Exited.'' @ nl)])))"

definition client_log05 :: "int \<Rightarrow> int \<Rightarrow> (nat \<Rightarrow> int) \<Rightarrow> string \<Rightarrow> sys list res" where
  "client_log05 sockfd conn rets inp =
     (if sockfd = -1 then Inr [Socket_stream, Perror ''socket'', Exit 1]
      else if conn = -1 then Inr [Socket_stream, Connect sockfd 6060, Perror ''connect'', Close sockfd, Exit 1]
      else bindR (sender_loop (\<lambda>ret m. [Send sockfd m]) rets inp) (\<lambda>out.
        Inr ([Socket_stream, Connect sockfd 6060,
              Print (''[CLIENT] Connected to TCP logger at 127.0.0.1:'' @ show_int 6060 @ nl), exit_hint ''Type log lines'']
             @ out @ [Close sockfd, Print (''[CLIENT] Disconnected.'' @ nl)])))"

section \<open>Senders and loggers\<close>

text \<open>The lines of a client's input that it sends: those before the first that begins with \<^verbatim>\<open>exit\<close>.\<close>

definition lines_sent :: "string \<Rightarrow> string list" where
  "lines_sent inp = takeWhile (\<lambda>l. \<not> strncmp_eq l ''exit'' 4) (lines_of 1022 inp)"

lemma repl_prefix:
  "\<forall>l \<in> set ls. NUL \<notin> set l \<Longrightarrow> \<exists>c out. repl p (sender_turn f) rets () ls = Inr (c, (), out)
     \<and> out = concat (map (\<lambda>i. p @ f (rets i) (takeWhile (\<lambda>l. \<not> strncmp_eq l ''exit'' 4) ls ! i))
         [0..<length (takeWhile (\<lambda>l. \<not> strncmp_eq l ''exit'' 4) ls)]) @ p"
proof (induction ls arbitrary: rets)
  case Nil
  then show ?case by simp
next
  case (Cons l ls)
  then have l: "cstr l = l" by simp
  show ?case
  proof (cases "strncmp_eq l ''exit'' 4")
    case True
    with l show ?thesis by (simp add: sender_turn_def)
  next
    case False
    have "\<forall>l \<in> set ls. NUL \<notin> set l" using Cons.prems by simp
    from Cons.IH [OF this, of "\<lambda>k. rets (Suc k)"] obtain c out where
      "repl p (sender_turn f) (\<lambda>k. rets (Suc k)) () ls = Inr (c, (), out)"
      "out = concat (map (\<lambda>i. p @ f (rets (Suc i)) (takeWhile (\<lambda>l. \<not> strncmp_eq l ''exit'' 4) ls ! i))
         [0..<length (takeWhile (\<lambda>l. \<not> strncmp_eq l ''exit'' 4) ls)]) @ p" by blast
    moreover have "sender_turn f (rets 0) (cstr l) () = Inr (Again, (), f (rets 0) l)"
      using False l by (simp add: sender_turn_def)
    ultimately show ?thesis using False by (simp add: upt_0_Suc comp_def del: upt_Suc)
  qed
qed

lemma sender_loop_sent:
  assumes "NUL \<notin> set inp"
  shows "\<exists>out. sender_loop f rets inp = Inr out
    \<and> out = concat (map (\<lambda>i. [Print ''> '', Flush] @ f (rets i) (lines_sent inp ! i)) [0..<length (lines_sent inp)])
            @ [Print ''> '', Flush]"
proof -
  have "\<forall>l \<in> set (lines_of 1022 inp). NUL \<notin> set l"
    using assms concat_lines_of [of 1022 inp] by (metis UN_I set_concat)
  from repl_prefix [OF this, of "[Print ''> '', Flush]" f rets] show ?thesis
    by (auto simp: sender_loop_def lines_sent_def)
qed

lemma concat_sendtos:
  "(\<And>i. sendtos (g i) = h i) \<Longrightarrow> sendtos (concat (map g is)) = concat (map h is)"
  by (induction "is") auto

lemma run_map:
  assumes "\<And>e. e \<in> set es \<Longrightarrow> \<exists>out. step () e = Inr ((), out) \<and> obs out = f e"
    and "obs [] = []" and "\<And>as bs. obs (as @ bs) = obs as @ obs bs"
  shows "\<exists>out. run step () es = Inr ((), out) \<and> obs out = concat (map f es)"
  using assms(1)
proof (induction es)
  case Nil
  then show ?case using assms(2) by simp
next
  case (Cons e es)
  then obtain o1 o2 where "step () e = Inr ((), o1)" "obs o1 = f e" "run step () es = Inr ((), o2)"
    "obs o2 = concat (map f es)" by (meson list.set_intros)
  then show ?case using assms(3) by simp
qed

lemma lines_of_facts: "l \<in> set (lines_of m inp) \<Longrightarrow> length l \<le> m + 1 \<and> l \<noteq> []"
proof (induction m inp rule: lines_of.induct)
  case (1 m inp)
  show ?case
  proof (cases "fgets (m + 2) inp")
    case None
    with 1 show ?thesis by (simp add: lines_of.simps [of m inp])
  next
    case (Some p)
    obtain l1 r where p: "p = (l1, r)" by (cases p)
    have "length l1 < m + 2" using fgets_length [of "m + 2" inp l1 r] Some p by simp
    moreover have "l1 \<noteq> []" using fgets_progress [of "m + 2" inp l1 r] fgets_split [of "m + 2" inp l1 r] Some p by auto
    ultimately show ?thesis using 1 Some p by (auto simp: lines_of.simps [of m inp])
  qed
qed

lemma lines_sent_facts:
  assumes "NUL \<notin> set inp" and "l \<in> set (lines_sent inp)"
  shows "NUL \<notin> set l" and "length l \<le> 1023" and "0 < length l"
proof -
  from assms(2) have l: "l \<in> set (lines_of 1022 inp)" unfolding lines_sent_def by (blast dest: set_takeWhileD)
  then show "NUL \<notin> set l" using assms(1) concat_lines_of [of 1022 inp] by (metis UN_I set_concat)
  show "length l \<le> 1023" and "0 < length l" using lines_of_facts [OF l] by auto
qed

definition arrivals :: "string list \<Rightarrow> addr \<Rightarrow> (nat \<Rightarrow> string) \<Rightarrow> dgram list" where
  "arrivals ls a t = map (\<lambda>i. \<lparr>dg_read = Got (ls ! i), dg_from = a, dg_time = t i\<rparr>) [0..<length ls]"

lemma run_arrivals:
  assumes step: "\<And>l ts. l \<in> set ls \<Longrightarrow> \<exists>out. step () \<lparr>dg_read = Got l, dg_from = a, dg_time = ts\<rparr> = Inr ((), out) \<and> logged out = [f ts l]"
  shows "\<exists>out. run step () (arrivals ls a t) = Inr ((), out) \<and> logged out = map (\<lambda>i. f (t i) (ls ! i)) [0..<length ls]"
proof -
  have "\<exists>out. step () e = Inr ((), out) \<and> logged out = [f (dg_time e) (rd_data (dg_read e))]" if "e \<in> set (arrivals ls a t)" for e
  proof -
    from that obtain i where "i < length ls" "e = \<lparr>dg_read = Got (ls ! i), dg_from = a, dg_time = t i\<rparr>"
      by (auto simp: arrivals_def)
    with step [of "ls ! i" "t i"] show ?thesis by simp
  qed
  from run_map [of "arrivals ls a t" step logged, OF this] show ?thesis
    by (simp add: arrivals_def comp_def)
qed

section \<open>Properties\<close>

text \<open>
  C32: the datagram logging systems. A client sends exactly the lines of its input up to the first that begins
  with \<^verbatim>\<open>exit\<close>, each in a datagram of its own; and when those datagrams reach the logger, its log gets exactly
  one entry per line, with the line whole and in order: in lab 06 behind the time and the sender's address, in
  lab 03 behind the time and followed by one more newline, so that a blank line follows every entry.
\<close>

theorem datagram_logging:
  assumes "NUL \<notin> set inp" and "fd \<noteq> -1" and "\<forall>i. rets i \<noteq> -1"
  shows "(\<exists>out. client06 fd rets inp = Inr out \<and> sendtos out = map (\<lambda>l. ((''127.0.0.1'', 7070), l)) (lines_sent inp))
    \<and> (\<exists>out. client03 fd rets inp = Inr out \<and> sendtos out = map (\<lambda>l. ((''/tmp/unix_logger.sock'', 0), l)) (lines_sent inp))
    \<and> (\<exists>out. run logger06 () (arrivals (lines_sent inp) a t) = Inr ((), out)
        \<and> logged out = map (\<lambda>i. ''['' @ t i @ ''] ['' @ fst a @ '':'' @ show_int (snd a) @ ''] '' @ lines_sent inp ! i)
            [0..<length (lines_sent inp)])
    \<and> (\<exists>out. run logger03 () (arrivals (lines_sent inp) a t) = Inr ((), out)
        \<and> logged out = map (\<lambda>i. ''['' @ t i @ ''] '' @ lines_sent inp ! i @ nl) [0..<length (lines_sent inp)])"
proof (intro conjI)
  let ?ls = "lines_sent inp"
  have sends: "sendtos (concat (map (\<lambda>i. [Print ''> '', Flush] @ (Sendto fd d (?ls ! i) # cs i)) [0..<n])) = map (\<lambda>i. (d, ?ls ! i)) [0..<n]"
    if "\<And>i. sendtos (cs i) = []" for d cs n
    using that by (induction n) auto
  have nth: "map (\<lambda>i. (d, ?ls ! i)) [0..<length ?ls] = map (Pair d) ?ls" for d :: addr
    by (rule nth_equalityI) simp_all
  show "\<exists>out. client06 fd rets inp = Inr out \<and> sendtos out = map (\<lambda>l. ((''127.0.0.1'', 7070), l)) ?ls"
    using sender_loop_sent [OF assms(1), of "\<lambda>ret m. [Sendto fd (''127.0.0.1'', 7070) m]" rets] assms(2)
      sends [of "\<lambda>_. []"] nth by (auto simp: client06_def exit_hint_def)
  show "\<exists>out. client03 fd rets inp = Inr out \<and> sendtos out = map (\<lambda>l. ((''/tmp/unix_logger.sock'', 0), l)) ?ls"
    using sender_loop_sent [OF assms(1), of "\<lambda>ret m. Sendto fd (''/tmp/unix_logger.sock'', 0) m
        # (if ret = -1 then [Perror ''sendto''] else [])" rets] assms(2,3)
      sends [of "\<lambda>_. []"] nth by (auto simp: client03_def exit_hint_def)
  have "\<exists>out. logger06 () \<lparr>dg_read = Got l, dg_from = a, dg_time = ts\<rparr> = Inr ((), out)
      \<and> logged out = [''['' @ ts @ ''] ['' @ fst a @ '':'' @ show_int (snd a) @ ''] '' @ l]" if "l \<in> set ?ls" for l ts
    using lines_sent_facts [OF assms(1) that]
    by (simp add: logger06_def terminate_def BUF_SIZE_LOG_def quote_time_def show_addr_def)
  from run_arrivals [of ?ls logger06 a "\<lambda>ts l. ''['' @ ts @ ''] ['' @ fst a @ '':'' @ show_int (snd a) @ ''] '' @ l", OF this]
  show "\<exists>out. run logger06 () (arrivals ?ls a t) = Inr ((), out)
        \<and> logged out = map (\<lambda>i. ''['' @ t i @ ''] ['' @ fst a @ '':'' @ show_int (snd a) @ ''] '' @ ?ls ! i) [0..<length ?ls]"
    by blast
  have "\<exists>out. logger03 () \<lparr>dg_read = Got l, dg_from = a, dg_time = ts\<rparr> = Inr ((), out) \<and> logged out = [''['' @ ts @ ''] '' @ l @ nl]"
    if "l \<in> set ?ls" for l ts
    using lines_sent_facts [OF assms(1) that] by (simp add: logger03_def terminate_def BUF_SIZE_LOG_def quote_time_def)
  from run_arrivals [of ?ls logger03 a "\<lambda>ts l. ''['' @ ts @ ''] '' @ l @ nl", OF this]
  show "\<exists>out. run logger03 () (arrivals ?ls a t) = Inr ((), out)
        \<and> logged out = map (\<lambda>i. ''['' @ t i @ ''] '' @ ?ls ! i @ nl) [0..<length ?ls]"
    by blast
qed

theorem datagram_logging_witness:
  "\<exists>out. run logger03 () (arrivals (lines_sent (''hi'' @ nl @ ''exit'' @ nl)) (''h'', 1) (\<lambda>_. ''noon'')) = Inr ((), out)
     \<and> logged out = [''[noon] hi'' @ nl @ nl]"
proof -
  have n: "NUL \<notin> set (''hi'' @ nl @ ''exit'' @ nl)" by (simp add: nl_def)
  have l: "lines_sent (''hi'' @ nl @ ''exit'' @ nl) = [''hi'' @ nl]" by code_simp
  have "\<forall>i. (\<lambda>_::nat. 0::int) i \<noteq> -1" by simp
  from datagram_logging [OF n _ this, of 5 "(''h'', 1)" "\<lambda>_. ''noon''", unfolded l] show ?thesis
    unfolding l by simp
qed

end
