(* ===== verification/Logger05_Tcp.thy ===== *)
theory Logger05_Tcp
  imports Loggers
begin

text \<open>
  \<^verbatim>\<open>03_networking/lab_05_tcp_logger/server.c\<close>: the stream logger on \<^verbatim>\<open>select\<close>, with thirty slots for clients. A
  turn is one pass through its loop, with the results of \<^verbatim>\<open>select\<close>, \<^verbatim>\<open>accept\<close>, \<^verbatim>\<open>recv\<close> (for each descriptor) and
  \<^verbatim>\<open>strftime\<close>. An \<^verbatim>\<open>fd_set\<close> is a list of descriptors below 1024.
\<close>

section \<open>The model\<close>

definition MAX_CLIENTS05 :: nat where "MAX_CLIENTS05 = 30"
definition BUF_SIZE05 :: nat where "BUF_SIZE05 = 1024"

record logger05 =
  server05 :: int
  slots05 :: "int list"

datatype sel_ans = Ready "int list" | Interrupted | Sel_failed

record turn05 =
  sel05 :: sel_ans
  acc05 :: int
  peer05 :: addr
  recv05 :: "int \<Rightarrow> rd"
  time05 :: "int \<Rightarrow> string"

text \<open>\<^verbatim>\<open>FD_SET\<close> for the listening socket and every client; \<^verbatim>\<open>FD_ISSET\<close>.\<close>

definition fd_set :: "int list \<Rightarrow> int list res" where
  "fd_set fds = (if \<forall>x \<in> set fds. 0 \<le> x \<and> x < 1024 then Inr fds else Inl Out_of_bounds)"

definition fd_isset :: "int \<Rightarrow> int list \<Rightarrow> bool res" where
  "fd_isset x fds = (if 0 \<le> x \<and> x < 1024 then Inr (x \<in> set fds) else Inl Out_of_bounds)"

definition read_set05 :: "logger05 \<Rightarrow> int list res" where
  "read_set05 s = fd_set (server05 s # filter (\<lambda>x. 0 < x) (slots05 s))"

text \<open>What \<^verbatim>\<open>select\<close> leaves in the set: an interrupted call does not change it.\<close>

fun after_select :: "sel_ans \<Rightarrow> int list \<Rightarrow> int list" where
  "after_select (Ready fds) rs = filter (\<lambda>x. x \<in> set fds) rs"
| "after_select Interrupted rs = rs"
| "after_select Sel_failed rs = rs"

definition place05 :: "int \<Rightarrow> int list \<Rightarrow> int list" where
  "place05 client_fd slots =
     (case find_first (\<lambda>x. x = 0) slots MAX_CLIENTS05 of None \<Rightarrow> slots | Some i \<Rightarrow> slots[i := client_fd])"

text \<open>The last loop, over the slots.\<close>

fun serve05 :: "int list \<Rightarrow> turn05 \<Rightarrow> int list \<Rightarrow> (int list \<times> sys list) res" where
  "serve05 ready e [] = Inr ([], [])"
| "serve05 ready e (sd # sds) =
     bindR (fd_isset sd ready) (\<lambda>set.
       bindR (if \<not> set then Inr (sd, [])
              else if rd_len (recv05 e sd) \<le> 0 then Inr (0, [Close sd])
              else bindR (terminate BUF_SIZE05 (rd_data (recv05 e sd))) (\<lambda>buffer.
                Inr (sd, [Log (quote_time (time05 e sd) @ '' '' @ buffer), Print (''[LOG] '' @ buffer)]))) (\<lambda>(sd', o1).
         bindR (serve05 ready e sds) (\<lambda>(sds', o2). Inr (sd' # sds', o1 @ o2))))"

definition step_log05 :: "logger05 \<Rightarrow> turn05 \<Rightarrow> (logger05 \<times> sys list) res" where
  "step_log05 s e =
     bindR (read_set05 s) (\<lambda>rs.
       if sel05 e = Sel_failed then Inr (s, [Perror ''select''])
       else
         let ready = after_select (sel05 e) rs
         in if server05 s \<in> set ready \<and> acc05 e = -1 then Inr (s, [Perror ''accept''])
            else
              let (slots, o1) =
                (if server05 s \<in> set ready
                 then (place05 (acc05 e) (slots05 s), [Print (''[SERVER] Connection from '' @ show_addr (peer05 e) @ nl)])
                 else (slots05 s, []))
              in bindR (serve05 ready e slots) (\<lambda>(slots', o2). Inr (s\<lparr>slots05 := slots'\<rparr>, o1 @ o2)))"

definition setup_log05 :: "bool \<Rightarrow> int \<Rightarrow> int \<Rightarrow> int \<Rightarrow> logger05 option \<times> sys list" where
  "setup_log05 logf server_fd bind_ret listen_ret =
     (if \<not> logf then (None, [Perror ''fopen'', Exit 1])
      else if server_fd = -1 then (None, [Socket_stream, Perror ''socket'', Exit 1])
      else let o1 = [Socket_stream, Reuseaddr server_fd, Bind server_fd 6060]
           in if bind_ret = -1 then (None, o1 @ [Perror ''bind'', Close server_fd, Exit 1])
              else if listen_ret = -1 then (None, o1 @ [Listen server_fd 10, Perror ''listen'', Close server_fd, Exit 1])
              else (Some \<lparr>server05 = server_fd, slots05 = replicate MAX_CLIENTS05 0\<rparr>,
                    o1 @ [Listen server_fd 10, Print (''[SERVER] Listening on port '' @ show_int 6060 @ ''...'' @ nl)]))"

section \<open>The slots\<close>

definition fds05 :: "logger05 \<Rightarrow> int set" where
  "fds05 s = set (slots05 s) - {0}"

definition wf05 :: "logger05 \<Rightarrow> bool" where
  "wf05 s \<longleftrightarrow> length (slots05 s) = 30 \<and> 0 < server05 s \<and> server05 s < 1024
     \<and> (\<forall>x \<in> set (slots05 s). 0 \<le> x \<and> x < 1024 \<and> x \<noteq> server05 s)
     \<and> distinct (filter (\<lambda>x. x \<noteq> 0) (slots05 s))"

definition ok05 :: "logger05 \<Rightarrow> turn05 \<Rightarrow> bool" where
  "ok05 s e \<longleftrightarrow> (acc05 e = -1 \<or> 0 < acc05 e \<and> acc05 e < 1024 \<and> acc05 e \<notin> set (slots05 s) \<and> acc05 e \<noteq> server05 s)
     \<and> (\<forall>x. rd_ok 1023 (recv05 e x))"

text \<open>The clients a turn closes and those it logs.\<close>

definition gone05 :: "int list \<Rightarrow> turn05 \<Rightarrow> int \<Rightarrow> bool" where
  "gone05 ready e x \<longleftrightarrow> x \<in> set ready \<and> rd_len (recv05 e x) \<le> 0"

definition spoke05 :: "int list \<Rightarrow> turn05 \<Rightarrow> int \<Rightarrow> bool" where
  "spoke05 ready e x \<longleftrightarrow> x \<in> set ready \<and> 0 < rd_len (recv05 e x)"

lemma serve05_effect:
  "\<forall>x \<in> set sds. 0 \<le> x \<and> x < 1024 \<Longrightarrow> \<forall>x. rd_ok 1023 (recv05 e x) \<Longrightarrow>
     \<exists>out. serve05 ready e sds = Inr (map (\<lambda>x. if gone05 ready e x then 0 else x) sds, out)
       \<and> closed out = filter (gone05 ready e) sds
       \<and> logged out = map (\<lambda>x. ''['' @ time05 e x @ ''] '' @ cstr (rd_data (recv05 e x))) (filter (spoke05 ready e) sds)"
proof (induction sds)
  case Nil
  then show ?case by simp
next
  case (Cons sd sds)
  then obtain o2 where ih: "serve05 ready e sds = Inr (map (\<lambda>x. if gone05 ready e x then 0 else x) sds, o2)"
    "closed o2 = filter (gone05 ready e) sds"
    "logged o2 = map (\<lambda>x. ''['' @ time05 e x @ ''] '' @ cstr (rd_data (recv05 e x))) (filter (spoke05 ready e) sds)"
    by auto
  have len: "length (rd_data (recv05 e sd)) < 1024" using Cons.prems(2) by (auto simp: rd_ok_def less_Suc_eq_le [symmetric])
  consider (other) "sd \<notin> set ready" | (gone) "gone05 ready e sd" | (spoke) "spoke05 ready e sd"
    unfolding gone05_def spoke05_def by (meson linorder_not_le)
  then show ?case
  proof cases
    case other
    then have "\<not> gone05 ready e sd" "\<not> spoke05 ready e sd" by (simp_all add: gone05_def spoke05_def)
    with other ih Cons.prems(1) show ?thesis by (simp add: fd_isset_def)
  next
    case gone
    then have "sd \<in> set ready" "rd_len (recv05 e sd) \<le> 0" "\<not> spoke05 ready e sd" by (auto simp: gone05_def spoke05_def)
    with gone ih Cons.prems(1) show ?thesis by (simp add: fd_isset_def)
  next
    case spoke
    then have "sd \<in> set ready" "\<not> rd_len (recv05 e sd) \<le> 0" "\<not> gone05 ready e sd" by (auto simp: gone05_def spoke05_def)
    with spoke ih Cons.prems(1) len show ?thesis
      by (simp add: fd_isset_def terminate_def BUF_SIZE05_def quote_time_def)
  qed
qed

lemma place05_free:
  assumes "length slots = 30" and "0 \<in> set slots" and "c \<noteq> 0" and "c \<notin> set slots" and "distinct (filter (\<lambda>x. x \<noteq> 0) slots)"
  shows "\<exists>i < 30. slots ! i = 0 \<and> place05 c slots = slots[i := c]"
    and "set (place05 c slots) - {0} = insert c (set slots - {0})" and "length (place05 c slots) = 30"
    and "distinct (filter (\<lambda>x. x \<noteq> 0) (place05 c slots))"
proof -
  have "find_first (\<lambda>x. x = 0) slots 30 \<noteq> None"
    using assms(1,2) by (auto simp: find_first_None in_set_conv_nth)
  then obtain i where f: "find_first (\<lambda>x. x = 0) slots 30 = Some i" by blast
  from find_first_Some [OF f] have i: "i < 30" "slots ! i = 0" by auto
  from f have p: "place05 c slots = slots[i := c]" by (simp add: place05_def MAX_CLIENTS05_def)
  with i show "\<exists>i < 30. slots ! i = 0 \<and> place05 c slots = slots[i := c]" by blast
  show "length (place05 c slots) = 30" using p assms(1) by simp
  have split: "slots = take i slots @ 0 # drop (Suc i) slots" and upd: "slots[i := c] = take i slots @ c # drop (Suc i) slots"
    using i assms(1) by (metis id_take_nth_drop, simp add: upd_conv_take_nth_drop)
  have "set slots = insert 0 (set (take i slots) \<union> set (drop (Suc i) slots))"
    using arg_cong [OF split, of set] by simp
  then show "set (place05 c slots) - {0} = insert c (set slots - {0})"
    unfolding p upd using assms(3) by auto
  have "filter (\<lambda>x. x \<noteq> 0) slots = filter (\<lambda>x. x \<noteq> 0) (take i slots) @ filter (\<lambda>x. x \<noteq> 0) (drop (Suc i) slots)"
    using arg_cong [OF split, of "filter (\<lambda>x. x \<noteq> 0)"] by simp
  with assms(4,5) show "distinct (filter (\<lambda>x. x \<noteq> 0) (place05 c slots))"
    unfolding p upd using assms(3) by (auto dest: in_set_takeD in_set_dropD)
qed

lemma place05_full: "length slots = 30 \<Longrightarrow> 0 \<notin> set slots \<Longrightarrow> place05 c slots = slots"
  by (auto simp: place05_def MAX_CLIENTS05_def find_first_None in_set_conv_nth dest!: find_first_Some split: option.split)

lemma wf05_serve:
  assumes "wf05 s"
  shows "wf05 (s\<lparr>slots05 := map (\<lambda>x. if P x then 0 else x) (slots05 s)\<rparr>)"
    and "fds05 (s\<lparr>slots05 := map (\<lambda>x. if P x then 0 else x) (slots05 s)\<rparr>) = fds05 s - Collect P"
proof -
  let ?f = "\<lambda>x. if P x then 0 else x"
  have "filter (\<lambda>x. x \<noteq> 0) (map ?f xs) = filter (\<lambda>x. \<not> P x) (filter (\<lambda>x. x \<noteq> 0) xs)" for xs
    by (induction xs) auto
  then have "distinct (filter (\<lambda>x. x \<noteq> 0) (map ?f (slots05 s)))"
    using assms distinct_filter [of "filter (\<lambda>x. x \<noteq> 0) (slots05 s)" "\<lambda>x. \<not> P x"] by (simp add: wf05_def)
  with assms show "wf05 (s\<lparr>slots05 := map ?f (slots05 s)\<rparr>)" by (auto simp: wf05_def)
  show "fds05 (s\<lparr>slots05 := map ?f (slots05 s)\<rparr>) = fds05 s - Collect P" by (auto simp: fds05_def)
qed

text \<open>The ready descriptors of a turn, and whether it accepts a client.\<close>

definition ready05 :: "logger05 \<Rightarrow> turn05 \<Rightarrow> int list" where
  "ready05 s e = after_select (sel05 e) (server05 s # filter (\<lambda>x. 0 < x) (slots05 s))"

lemma ready05_subset: "set (ready05 s e) \<subseteq> insert (server05 s) {x \<in> set (slots05 s). 0 < x}"
  by (cases "sel05 e") (auto simp: ready05_def)

lemma step_log05_eq:
  assumes "wf05 s" and "sel05 e \<noteq> Sel_failed" and "server05 s \<in> set (ready05 s e) \<Longrightarrow> acc05 e \<noteq> -1"
  shows "step_log05 s e =
    bindR (serve05 (ready05 s e) e (if server05 s \<in> set (ready05 s e) then place05 (acc05 e) (slots05 s) else slots05 s))
      (\<lambda>(slots', o2). Inr (s\<lparr>slots05 := slots'\<rparr>,
         (if server05 s \<in> set (ready05 s e) then [Print (''[SERVER] Connection from '' @ show_addr (peer05 e) @ nl)] else []) @ o2))"
proof -
  have "read_set05 s = Inr (server05 s # filter (\<lambda>x. 0 < x) (slots05 s))"
    using assms(1) by (auto simp: read_set05_def fd_set_def wf05_def)
  with assms(2,3) show ?thesis by (auto simp: step_log05_def ready05_def Let_def)
qed

text \<open>The slots after the accept, if there is one.\<close>

definition joined05 :: "logger05 \<Rightarrow> turn05 \<Rightarrow> int list" where
  "joined05 s e = (if server05 s \<in> set (ready05 s e) then place05 (acc05 e) (slots05 s) else slots05 s)"

definition entered05 :: "logger05 \<Rightarrow> turn05 \<Rightarrow> int set" where
  "entered05 s e = (if server05 s \<in> set (ready05 s e) \<and> 0 \<in> set (slots05 s) then {acc05 e} else {})"

text \<open>The new descriptor is one the logger does not hold yet.\<close>

definition new05 :: "logger05 \<Rightarrow> turn05 \<Rightarrow> bool" where
  "new05 s e \<longleftrightarrow> (server05 s \<in> set (ready05 s e) \<longrightarrow>
     0 < acc05 e \<and> acc05 e < 1024 \<and> acc05 e \<notin> set (slots05 s) \<and> acc05 e \<noteq> server05 s)"

lemma joined05_effect:
  assumes wf: "wf05 s" and new: "new05 s e"
  shows "wf05 (s\<lparr>slots05 := joined05 s e\<rparr>)"
    and "fds05 (s\<lparr>slots05 := joined05 s e\<rparr>) = fds05 s \<union> entered05 s e"
    and "\<not> P 0 \<Longrightarrow> (server05 s \<in> set (ready05 s e) \<longrightarrow> \<not> P (acc05 e)) \<Longrightarrow>
      filter P (joined05 s e) = filter P (slots05 s)"
proof -
  let ?join = "server05 s \<in> set (ready05 s e)" and ?slots = "joined05 s e"
  have len: "length (slots05 s) = 30" and dist: "distinct (filter (\<lambda>x. x \<noteq> 0) (slots05 s))" using wf by (simp_all add: wf05_def)
  have "wf05 (s\<lparr>slots05 := ?slots\<rparr>) \<and> fds05 (s\<lparr>slots05 := ?slots\<rparr>) = fds05 s \<union> entered05 s e
      \<and> (\<forall>P. \<not> P 0 \<and> (?join \<longrightarrow> \<not> P (acc05 e)) \<longrightarrow> filter P ?slots = filter P (slots05 s))"
  proof (cases "?join \<and> 0 \<in> set (slots05 s)")
    case False
    then have "?slots = slots05 s" using place05_full [OF len] by (auto simp: joined05_def)
    with False wf show ?thesis by (auto simp: entered05_def)
  next
    case True
    with new have c: "acc05 e \<noteq> 0" "acc05 e \<notin> set (slots05 s)" by (auto simp: new05_def)
    note pl = place05_free [OF len conjunct2 [OF True] c dist]
    have eq: "?slots = place05 (acc05 e) (slots05 s)" using True by (simp add: joined05_def)
    obtain i where i: "i < 30" "slots05 s ! i = 0" "place05 (acc05 e) (slots05 s) = (slots05 s)[i := acc05 e]" using pl(1) by blast
    have sub: "set (place05 (acc05 e) (slots05 s)) \<subseteq> insert 0 (insert (acc05 e) (set (slots05 s)))" using pl(2) by blast
    have "\<forall>x \<in> set (place05 (acc05 e) (slots05 s)). 0 \<le> x \<and> x < 1024 \<and> x \<noteq> server05 s"
      using True new wf sub by (auto simp: wf05_def new05_def)
    with True pl(2,3,4) wf have "wf05 (s\<lparr>slots05 := ?slots\<rparr>)" "fds05 (s\<lparr>slots05 := ?slots\<rparr>) = insert (acc05 e) (fds05 s)"
      unfolding eq by (auto simp: wf05_def fds05_def)
    moreover have "filter P ?slots = filter P (slots05 s)" if "\<not> P 0" "\<not> P (acc05 e)" for P
      using that i True len unfolding eq by (simp add: filter_update_other)
    ultimately show ?thesis using True by (auto simp: entered05_def)
  qed
  then show "wf05 (s\<lparr>slots05 := joined05 s e\<rparr>)"
    and "fds05 (s\<lparr>slots05 := joined05 s e\<rparr>) = fds05 s \<union> entered05 s e"
    and "\<not> P 0 \<Longrightarrow> (?join \<longrightarrow> \<not> P (acc05 e)) \<Longrightarrow> filter P (joined05 s e) = filter P (slots05 s)"
    by blast+
qed

text \<open>A turn without failures, as the service of the slots after the accept.\<close>

lemma turn05_effect:
  assumes wf: "wf05 s" and ok: "ok05 s e" and sel: "sel05 e \<noteq> Sel_failed" and new: "new05 s e"
    and acc: "server05 s \<in> set (ready05 s e) \<Longrightarrow> acc05 e \<noteq> -1"
  shows "\<exists>out. step_log05 s e = Inr (s\<lparr>slots05 := map (\<lambda>x. if gone05 (ready05 s e) e x then 0 else x) (joined05 s e)\<rparr>, out)
    \<and> logged out = map (\<lambda>x. ''['' @ time05 e x @ ''] '' @ cstr (rd_data (recv05 e x))) (filter (spoke05 (ready05 s e) e) (slots05 s))
    \<and> closed out = filter (gone05 (ready05 s e) e) (slots05 s)"
proof -
  let ?r = "ready05 s e" let ?o1 = "if server05 s \<in> set ?r then [Print (''[SERVER] Connection from '' @ show_addr (peer05 e) @ nl)] else []"
  note j = joined05_effect [OF wf new]
  have rs: "0 \<notin> set ?r" "server05 s \<in> set ?r \<Longrightarrow> acc05 e \<notin> set ?r"
    using ready05_subset [of s e] wf new by (auto simp: wf05_def new05_def)
  have b: "\<forall>x \<in> set (joined05 s e). 0 \<le> x \<and> x < 1024" using j(1) by (simp add: wf05_def)
  have rd: "\<forall>x. rd_ok 1023 (recv05 e x)" using ok by (simp add: ok05_def)
  from serve05_effect [OF b rd, of ?r] obtain o2 where sv:
    "serve05 ?r e (joined05 s e) = Inr (map (\<lambda>x. if gone05 ?r e x then 0 else x) (joined05 s e), o2)"
    "closed o2 = filter (gone05 ?r e) (joined05 s e)"
    "logged o2 = map (\<lambda>x. ''['' @ time05 e x @ ''] '' @ cstr (rd_data (recv05 e x))) (filter (spoke05 ?r e) (joined05 s e))" by blast
  have f: "filter (gone05 ?r e) (joined05 s e) = filter (gone05 ?r e) (slots05 s)"
    "filter (spoke05 ?r e) (joined05 s e) = filter (spoke05 ?r e) (slots05 s)"
    using rs by (auto simp: gone05_def spoke05_def intro!: j(3))
  have "step_log05 s e = bindR (serve05 ?r e (joined05 s e)) (\<lambda>(slots', o2). Inr (s\<lparr>slots05 := slots'\<rparr>, ?o1 @ o2))"
    unfolding joined05_def by (rule step_log05_eq [OF wf sel]) (fact acc)
  then have "step_log05 s e = Inr (s\<lparr>slots05 := map (\<lambda>x. if gone05 ?r e x then 0 else x) (joined05 s e)\<rparr>, ?o1 @ o2)"
    by (simp only: sv(1) bindR_Inr prod.case)
  moreover have "closed (?o1 @ o2) = filter (gone05 ?r e) (slots05 s)"
    using sv(2) f(1) by simp
  moreover have "logged (?o1 @ o2) =
      map (\<lambda>x. ''['' @ time05 e x @ ''] '' @ cstr (rd_data (recv05 e x))) (filter (spoke05 ?r e) (slots05 s))"
    using sv(3) f(2) by simp
  ultimately show ?thesis by blast
qed

section \<open>Properties\<close>

text \<open>
  C33: a turn of the stream logger in which neither \<^verbatim>\<open>select\<close> nor \<^verbatim>\<open>accept\<close> fails. It does not fault;
  everything read from the ready clients is logged, once, in the order of the slots, each piece behind its
  time; exactly the ready clients that have gone are closed and leave their slots; and a new client
  gets a slot exactly when one is free: with all thirty taken it is neither recorded nor closed, so
  its descriptor is lost and what it sends is never read.
\<close>

theorem tcp_logger05:
  assumes wf: "wf05 s" and ok: "ok05 s e" and sel: "sel05 e \<noteq> Sel_failed"
    and acc: "server05 s \<in> set (ready05 s e) \<Longrightarrow> acc05 e \<noteq> -1"
  shows "\<exists>s' out. step_log05 s e = Inr (s', out) \<and> wf05 s'
    \<and> logged out = map (\<lambda>x. ''['' @ time05 e x @ ''] '' @ cstr (rd_data (recv05 e x))) (filter (spoke05 (ready05 s e) e) (slots05 s))
    \<and> closed out = filter (gone05 (ready05 s e) e) (slots05 s)
    \<and> fds05 s' = (fds05 s \<union> (if server05 s \<in> set (ready05 s e) \<and> 0 \<in> set (slots05 s) then {acc05 e} else {}))
        - set (closed out)
    \<and> (server05 s \<in> set (ready05 s e) \<and> 0 \<notin> set (slots05 s) \<longrightarrow> acc05 e \<notin> fds05 s' \<union> set (closed out))"
proof -
  let ?r = "ready05 s e" and ?s1 = "s\<lparr>slots05 := joined05 s e\<rparr>"
  let ?s' = "s\<lparr>slots05 := map (\<lambda>x. if gone05 (ready05 s e) e x then 0 else x) (joined05 s e)\<rparr>"
  have new: "new05 s e" using ok acc by (auto simp: ok05_def new05_def)
  note j = joined05_effect [OF wf new]
  from turn05_effect [OF wf ok sel new acc] obtain out where st: "step_log05 s e = Inr (?s', out)"
    and lg: "logged out = map (\<lambda>x. ''['' @ time05 e x @ ''] '' @ cstr (rd_data (recv05 e x))) (filter (spoke05 ?r e) (slots05 s))"
    and cl: "closed out = filter (gone05 ?r e) (slots05 s)" by blast
  have wf': "wf05 ?s'" and fds': "fds05 ?s' = fds05 ?s1 - Collect (gone05 ?r e)"
    using wf05_serve [OF j(1), of "gone05 ?r e"] by simp_all
  have "server05 s \<notin> fds05 ?s1" using j(1) by (auto simp: wf05_def fds05_def)
  moreover have "Collect (gone05 ?r e) \<subseteq> insert (server05 s) (set (slots05 s))"
    using ready05_subset [of s e] by (auto simp: gone05_def)
  ultimately have "fds05 ?s1 - Collect (gone05 ?r e) = fds05 ?s1 - set (filter (gone05 ?r e) (slots05 s))" by auto
  then have fds'': "fds05 ?s' = (fds05 s \<union> entered05 s e) - set (closed out)" unfolding fds' cl j(2) .
  have lost: "acc05 e \<notin> fds05 ?s' \<union> set (closed out)" if "server05 s \<in> set ?r" "0 \<notin> set (slots05 s)"
    using new that unfolding fds'' cl by (auto simp: new05_def fds05_def entered05_def)
  show ?thesis using st wf' lg cl fds'' lost unfolding entered05_def by blast
qed

definition demo05 :: logger05 where
  "demo05 = \<lparr>server05 = 3, slots05 = map (\<lambda>i. 4 + int i) [0..<30]\<rparr>"

theorem tcp_logger05_witness:
  "\<exists>s' out. step_log05 demo05 \<lparr>sel05 = Ready [3, 5], acc05 = 40, peer05 = (''h'', 1), recv05 = (\<lambda>_. Got ''hi''),
       time05 = (\<lambda>_. ''noon'')\<rparr> = Inr (s', out)
     \<and> logged out = [''[noon] hi''] \<and> closed out = [] \<and> 40 \<notin> fds05 s'"
proof -
  let ?e = "\<lparr>sel05 = Ready [3, 5], acc05 = 40, peer05 = (''h'', 1), recv05 = (\<lambda>_. Got ''hi''), time05 = (\<lambda>_. ''noon'')\<rparr>"
  have slots: "slots05 demo05 = [4, 5, 6, 7, 8, 9, 10, 11, 12, 13, 14, 15, 16, 17, 18, 19, 20, 21, 22, 23, 24, 25, 26, 27,
      28, 29, 30, 31, 32, 33]"
    by (simp add: demo05_def upt_rec)
  have wf: "wf05 demo05" by (simp add: wf05_def slots) (simp add: demo05_def)
  have srv: "server05 demo05 = 3" by (simp add: demo05_def)
  have ok: "ok05 demo05 ?e" by (simp add: ok05_def slots srv rd_ok_def)
  have r: "ready05 demo05 ?e = [3, 5]" by (simp add: ready05_def slots srv)
  have f: "filter (spoke05 (ready05 demo05 ?e) ?e) (slots05 demo05) = [5]"
    "filter (gone05 (ready05 demo05 ?e) ?e) (slots05 demo05) = []"
    by (simp_all add: spoke05_def gone05_def r slots)
  have sel: "sel05 ?e \<noteq> Sel_failed" and acc: "server05 demo05 \<in> set (ready05 demo05 ?e) \<Longrightarrow> acc05 ?e \<noteq> -1" by simp_all
  have full: "server05 demo05 \<in> set (ready05 demo05 ?e) \<and> 0 \<notin> set (slots05 demo05)" unfolding r by (simp add: slots srv)
  from tcp_logger05 [OF wf ok sel acc] full f show ?thesis by auto
qed

end
