(* ===== verification/Daemon08.thy ===== *)
theory Daemon08
  imports Loggers Fd_Table
begin

text \<open>
  \<^verbatim>\<open>03_networking/lab_08_daemon_logger/daemon_logger.c\<close>: the logger as a daemon. \<^verbatim>\<open>fork\<close> splits the process in two,
  so the start-up is followed for the process on either side; what the kernel answers is data. The
  descriptor table is that of the shells. \<^verbatim>\<open>signal\<close> restarts an interrupted call, as it does with the C library
  of Linux, so a signal is noticed when the pending \<^verbatim>\<open>recvfrom\<close> returns.
\<close>

section \<open>The model\<close>

text \<open>How a process leaves the start-up: it exits with a status, or goes on with a descriptor table.\<close>

datatype 'a start = Exits int | Goes_on 'a

text \<open>\<^verbatim>\<open>open("/dev/null", ...)\<close>; the result is ignored.\<close>

definition open_null :: "bool \<Rightarrow> omode \<Rightarrow> fdt \<Rightarrow> fdt" where
  "open_null ok m t = (if ok then (case open_file (Path ''/dev/null'' m) t of None \<Rightarrow> t | Some (i, t1) \<Rightarrow> t1) else t)"

definition redirect_stdio :: "bool \<Rightarrow> fdt \<Rightarrow> fdt" where
  "redirect_stdio ok t =
     open_null ok Rdwr (open_null ok Wronly (open_null ok Rdonly (close_fd 2 (close_fd 1 (close_fd 0 t)))))"

definition daemonize :: "int \<Rightarrow> int \<Rightarrow> int \<Rightarrow> bool \<Rightarrow> fdt \<Rightarrow> fdt start \<times> sys list" where
  "daemonize pid1 sid pid2 devnull t =
     (if pid1 < 0 then (Exits 1, [Fork])
      else if pid1 > 0 then (Exits 0, [Fork])
      else if sid < 0 then (Exits 1, [Fork, Setsid])
      else
        let o1 = [Fork, Setsid, Signal 17 1, Signal 1 1, Fork]
        in if pid2 < 0 then (Exits 1, o1)
           else if pid2 > 0 then (Exits 0, o1)
           else (Goes_on (redirect_stdio devnull t),
                 o1 @ [Umask 0, Chdir ''/'', Close 0, Close 1, Close 2,
                       Open ''/dev/null'' 0, Open ''/dev/null'' 1, Open ''/dev/null'' 2]))"

text \<open>After it, \<^verbatim>\<open>main\<close> takes descriptors for its socket and its log file.\<close>

datatype log_state = Logging | Stopping | Stopped

record daemon08 =
  sock08 :: nat
  logf08 :: nat
  table08 :: fdt
  state08 :: log_state

definition setup08 :: "bool \<Rightarrow> int \<Rightarrow> bool \<Rightarrow> fdt \<Rightarrow> daemon08 start" where
  "setup08 sock_ok bind_ret logf_ok t =
     (case open_file (Path ''udp:7070'' Rdwr) t of
        None \<Rightarrow> Exits 1
      | Some (sockfd, t1) \<Rightarrow>
          if \<not> sock_ok then Exits 1
          else if bind_ret < 0 then Exits 1
          else (case open_file (Path ''/tmp/udp_daemon.log'' Wr_create_append) t1 of
                  None \<Rightarrow> Exits 1
                | Some (lfd, t2) \<Rightarrow>
                    if \<not> logf_ok then Exits 1
                    else Goes_on \<lparr>sock08 = sockfd, logf08 = lfd, table08 = t2, state08 = Logging\<rparr>))"

datatype ev08 = Signal08 int | Dgram08 dgram

definition handle_signal08 :: "int \<Rightarrow> daemon08 \<Rightarrow> daemon08" where
  "handle_signal08 sig s = (if sig = 15 \<and> state08 s = Logging then s\<lparr>state08 := Stopping\<rparr> else s)"

definition receive08 :: "dgram \<Rightarrow> daemon08 \<Rightarrow> (daemon08 \<times> sys list) res" where
  "receive08 e s =
     bindR (if 0 < rd_len (dg_read e)
            then bindR (terminate BUF_SIZE_LOG (rd_data (dg_read e))) (\<lambda>buffer.
              Inr [Log (quote_time (dg_time e) @ '' '' @ show_addr (dg_from e) @ '' '' @ arrow @ '' '' @ buffer)])
            else Inr []) (\<lambda>o1.
       if state08 s = Logging then Inr (s, o1)
       else Inr (s\<lparr>state08 := Stopped, table08 := close_fd (sock08 s) (close_fd (logf08 s) (table08 s))\<rparr>,
                 o1 @ [Close (int (logf08 s)), Close (int (sock08 s))]))"

fun step08 :: "daemon08 \<Rightarrow> ev08 \<Rightarrow> (daemon08 \<times> sys list) res" where
  "step08 s (Signal08 sig) = (if state08 s = Stopped then Inr (s, []) else Inr (handle_signal08 sig s, []))"
| "step08 s (Dgram08 e) = (if state08 s = Stopped then Inr (s, []) else receive08 e s)"

section \<open>Start-up\<close>

lemma open_null_lowest:
  "lowest t = Some i \<Longrightarrow> open_null True m t = t(i \<mapsto> Path ''/dev/null'' m)"
  by (simp add: open_null_def open_file_def)

lemma lowest_stdio:
  "lowest (close_fd 2 (close_fd 1 (close_fd 0 t))) = Some 0"
  "lowest ((close_fd 2 (close_fd 1 (close_fd 0 t)))(0 \<mapsto> x)) = Some 1"
  "lowest ((close_fd 2 (close_fd 1 (close_fd 0 t)))(0 \<mapsto> x, 1 \<mapsto> y)) = Some 2"
proof -
  show "lowest (close_fd 2 (close_fd 1 (close_fd 0 t))) = Some 0"
    by (rule lowest_eqI; simp add: close_fd_def OPEN_MAX_def)
  show "lowest ((close_fd 2 (close_fd 1 (close_fd 0 t)))(0 \<mapsto> x)) = Some 1"
    by (rule lowest_eqI; simp add: close_fd_def OPEN_MAX_def)
  show "lowest ((close_fd 2 (close_fd 1 (close_fd 0 t)))(0 \<mapsto> x, 1 \<mapsto> y)) = Some 2"
    by (rule lowest_eqI; auto simp: close_fd_def OPEN_MAX_def less_2_cases_iff)
qed

lemma redirect_stdio_table:
  "redirect_stdio True t = t(0 \<mapsto> Path ''/dev/null'' Rdonly, 1 \<mapsto> Path ''/dev/null'' Wronly, 2 \<mapsto> Path ''/dev/null'' Rdwr)"
  unfolding redirect_stdio_def
    open_null_lowest [OF lowest_stdio(1)] open_null_lowest [OF lowest_stdio(2)] open_null_lowest [OF lowest_stdio(3)]
  by (auto simp: close_fd_def fun_eq_iff)

section \<open>Logging\<close>

text \<open>What goes into the log: the datagrams with data, up to the first that arrives after a \<^verbatim>\<open>SIGTERM\<close>.\<close>

definition entry08 :: "dgram \<Rightarrow> string list" where
  "entry08 e = (if 0 < rd_len (dg_read e)
     then [''['' @ dg_time e @ ''] '' @ show_addr (dg_from e) @ '' '' @ arrow @ '' '' @ cstr (rd_data (dg_read e))] else [])"

fun log08 :: "log_state \<Rightarrow> ev08 list \<Rightarrow> string list" where
  "log08 st [] = []"
| "log08 st (Signal08 sig # es) = log08 (if sig = 15 \<and> st = Logging then Stopping else st) es"
| "log08 st (Dgram08 e # es) =
     (case st of Logging \<Rightarrow> entry08 e @ log08 Logging es | Stopping \<Rightarrow> entry08 e | Stopped \<Rightarrow> [])"

definition ok_ev08 :: "ev08 \<Rightarrow> bool" where
  "ok_ev08 ev = (case ev of Signal08 _ \<Rightarrow> True | Dgram08 e \<Rightarrow> rd_ok 1023 (dg_read e))"

lemma receive08_eq:
  assumes "rd_ok 1023 (dg_read e)"
  shows "\<exists>out. receive08 e s = Inr (if state08 s = Logging then s
      else s\<lparr>state08 := Stopped, table08 := close_fd (sock08 s) (close_fd (logf08 s) (table08 s))\<rparr>, out)
    \<and> logged out = entry08 e"
  using assms
  by (auto simp: receive08_def entry08_def rd_ok_def terminate_def BUF_SIZE_LOG_def quote_time_def)

lemma run_stopped: "state08 s = Stopped \<Longrightarrow> run step08 s es = Inr (s, [])"
proof (induction es)
  case (Cons e es)
  then show ?case by (cases e) auto
qed simp

lemma log08_Stopped [simp]: "log08 Stopped es = []"
  by (induction "Stopped" es rule: log08.induct) auto

lemma run_log08:
  "\<forall>e \<in> set es. ok_ev08 e \<Longrightarrow> \<exists>s' out. run step08 s es = Inr (s', out) \<and> logged out = log08 (state08 s) es"
proof (induction es arbitrary: s)
  case Nil
  then show ?case by simp
next
  case (Cons e es)
  show ?case
  proof (cases "state08 s = Stopped")
    case True
    with run_stopped [OF True, of "e # es"] show ?thesis by simp
  next
    case False
    show ?thesis
    proof (cases e)
      case (Signal08 sig)
      have "\<forall>e \<in> set es. ok_ev08 e" using Cons.prems by simp
      from Cons.IH [OF this, of "handle_signal08 sig s"] obtain s' out where
        "run step08 (handle_signal08 sig s) es = Inr (s', out)" "logged out = log08 (state08 (handle_signal08 sig s)) es" by blast
      with Signal08 False show ?thesis by (simp add: handle_signal08_def)
    next
      case (Dgram08 d)
      with Cons.prems have "rd_ok 1023 (dg_read d)" by (simp add: ok_ev08_def)
      from receive08_eq [OF this, of s] obtain o1 where r: "receive08 d s = Inr (if state08 s = Logging then s
          else s\<lparr>state08 := Stopped, table08 := close_fd (sock08 s) (close_fd (logf08 s) (table08 s))\<rparr>, o1)"
        and l: "logged o1 = entry08 d" by blast
      show ?thesis
      proof (cases "state08 s = Logging")
        case True
        have "\<forall>e \<in> set es. ok_ev08 e" using Cons.prems by simp
        from Cons.IH [OF this, of s] obtain s' o2 where "run step08 s es = Inr (s', o2)" "logged o2 = log08 (state08 s) es" by blast
        with Dgram08 r l True show ?thesis by simp
      next
        case nl: False
        let ?s = "s\<lparr>state08 := Stopped, table08 := close_fd (sock08 s) (close_fd (logf08 s) (table08 s))\<rparr>"
        have "run step08 ?s es = Inr (?s, [])" by (rule run_stopped) simp
        moreover have "state08 s = Stopping" using nl False by (cases "state08 s") auto
        ultimately show ?thesis using Dgram08 r l nl by simp
      qed
    qed
  qed
qed

section \<open>Properties\<close>

text \<open>
  C34: the daemon. Whatever the kernel answers at the start-up, a process either exits (with status 0 exactly when
  it is a parent whose \<^verbatim>\<open>fork\<close> succeeded) or goes on as the grandchild, in a session of its own; then,
  if \<^verbatim>\<open>/dev/null\<close> can be opened, its three standard descriptors are that file, opened for reading, for writing and for
  both, all other descriptors are as before and none of them is the terminal. While it runs it logs every
  datagram with data; after a \<^verbatim>\<open>SIGTERM\<close> it still waits for the next datagram, logs it, and only then
  stops and closes its files.
\<close>

theorem daemon08_correct:
  assumes "\<forall>e \<in> set es. ok_ev08 e" and "\<forall>i. t i = Some Tty \<longrightarrow> i < 3"
  shows "((\<exists>c out. daemonize p1 sid p2 devnull t = (Exits c, out) \<and> (c = 0 \<longleftrightarrow> 0 < p1 \<or> (p1 = 0 \<and> 0 \<le> sid \<and> 0 < p2))
          \<and> \<not> (p1 = 0 \<and> 0 \<le> sid \<and> p2 = 0))
      \<or> (p1 = 0 \<and> 0 \<le> sid \<and> p2 = 0 \<and> (\<exists>t' out. daemonize p1 sid p2 devnull t = (Goes_on t', out) \<and> Setsid \<in> set out
          \<and> (devnull \<longrightarrow> t' 0 = Some (Path ''/dev/null'' Rdonly) \<and> t' 1 = Some (Path ''/dev/null'' Wronly)
              \<and> t' 2 = Some (Path ''/dev/null'' Rdwr) \<and> (\<forall>i \<ge> 3. t' i = t i) \<and> (\<forall>i. t' i \<noteq> Some Tty)))))
    \<and> (\<exists>s' out. run step08 s es = Inr (s', out) \<and> logged out = log08 (state08 s) es)
    \<and> (rd_ok 1023 (dg_read e) \<longrightarrow> state08 s = Logging \<longrightarrow> (\<exists>s' out. run step08 s [Signal08 15, Dgram08 e] = Inr (s', out)
      \<and> state08 s' = Stopped \<and> logged out = entry08 e \<and> closed out = [int (logf08 s), int (sock08 s)]))"
proof (intro conjI impI)
  have "\<forall>i. t' i \<noteq> Some Tty" if "t' = redirect_stdio True t" for t'
    using assms(2) unfolding that redirect_stdio_table by (auto simp: less_Suc_eq numeral_3_eq_3 numeral_2_eq_2)
  then show "(\<exists>c out. daemonize p1 sid p2 devnull t = (Exits c, out) \<and> (c = 0 \<longleftrightarrow> 0 < p1 \<or> (p1 = 0 \<and> 0 \<le> sid \<and> 0 < p2))
          \<and> \<not> (p1 = 0 \<and> 0 \<le> sid \<and> p2 = 0))
      \<or> (p1 = 0 \<and> 0 \<le> sid \<and> p2 = 0 \<and> (\<exists>t' out. daemonize p1 sid p2 devnull t = (Goes_on t', out) \<and> Setsid \<in> set out
          \<and> (devnull \<longrightarrow> t' 0 = Some (Path ''/dev/null'' Rdonly) \<and> t' 1 = Some (Path ''/dev/null'' Wronly)
              \<and> t' 2 = Some (Path ''/dev/null'' Rdwr) \<and> (\<forall>i \<ge> 3. t' i = t i) \<and> (\<forall>i. t' i \<noteq> Some Tty))))"
    by (cases "p1 = 0 \<and> 0 \<le> sid \<and> p2 = 0") (auto simp: daemonize_def Let_def redirect_stdio_table)
  show "\<exists>s' out. run step08 s es = Inr (s', out) \<and> logged out = log08 (state08 s) es"
    by (rule run_log08 [OF assms(1)])
  assume ok: "rd_ok 1023 (dg_read e)" and st: "state08 s = Logging"
  from ok have len: "length (rd_data (dg_read e)) < 1024" by (auto simp: rd_ok_def)
  show "\<exists>s' out. run step08 s [Signal08 15, Dgram08 e] = Inr (s', out)
      \<and> state08 s' = Stopped \<and> logged out = entry08 e \<and> closed out = [int (logf08 s), int (sock08 s)]"
    using st len by (simp add: handle_signal08_def receive08_def entry08_def terminate_def BUF_SIZE_LOG_def quote_time_def)
qed

theorem daemon08_correct_witness:
  "\<exists>s' out. run step08 \<lparr>sock08 = 3, logf08 = 4, table08 = Map.empty, state08 = Logging\<rparr>
       [Signal08 15, Dgram08 \<lparr>dg_read = Got ''bye'', dg_from = (''h'', 1), dg_time = ''noon''\<rparr>] = Inr (s', out)
     \<and> state08 s' = Stopped \<and> closed out = [4, 3]"
proof -
  let ?s = "\<lparr>sock08 = 3, logf08 = 4, table08 = Map.empty, state08 = Logging\<rparr>"
  let ?e = "\<lparr>dg_read = Got ''bye'', dg_from = (''h'', 1), dg_time = ''noon''\<rparr>"
  have 1: "\<forall>e \<in> set []. ok_ev08 e" and 2: "\<forall>i. [0 \<mapsto> Tty] i = Some Tty \<longrightarrow> i < (3::nat)" by auto
  have "rd_ok 1023 (dg_read ?e)" "state08 ?s = Logging" by (simp_all add: rd_ok_def)
  with conjunct2 [OF conjunct2 [OF daemon08_correct [OF 1 2, of 0 0 0 True ?s ?e]]] obtain s' out where
    r: "run step08 ?s [Signal08 15, Dgram08 ?e] = Inr (s', out)" "state08 s' = Stopped"
    and "closed out = [int (logf08 ?s), int (sock08 ?s)]" by blast
  then have "closed out = [4, 3]" by simp
  with r show ?thesis by blast
qed

end
