(* ===== verification/Spec2Isabelle.thy ===== *)
theory Spec2Isabelle
  imports Chat04_Bitmap Chat14_Epoll Chat17_Command Chat18_Room Chat16_Main Chat15_Pool Shell_Pipes Jobs11 Jobs07 Jobs10 Jobs12
    Balance09_Udp Balance10_Epoll Balance11_Kqueue Balance13_Async Backends Ipc_Main Groups09 Chat_Clients Select_Clients Echo_Labs Exec_Labs Loggers Logger05_Tcp Daemon08
begin

text \<open>
  A verification development for the C programs of the repository: process control under
  \<^verbatim>\<open>src/01_processes\<close>, communication between processes under \<^verbatim>\<open>src/02_ipc\<close>, and network servers with their
  clients under \<^verbatim>\<open>src/03_networking\<close>. Each lab is a program, or two or three that talk to each other. The theories follow
  the labs; what several labs share is in the library at the bottom of the import graph.

  \<^bold>\<open>How programs are modelled.\<close> A program is a deterministic function of its state and of what the
  kernel answers. The state is a record with the fields of the source; fixed arrays are lists of the
  array's length, and an access outside of them, through a freed or null pointer, or a sum of \<^verbatim>\<open>int\<close>s that
  overflows, is the fault \<open>Inl e\<close> of \<open>res\<close> (\<open>Prelude_C\<close>), never a default value. The
  system calls a step makes are its output, in order (\<open>sys\<close> of \<open>Syscalls\<close>); the answers of
  the kernel (the descriptor \<^verbatim>\<open>accept\<close> returns, the bytes \<^verbatim>\<open>read\<close> delivers, a short write, a failure) are
  data of the event that drives the step. Where a theorem relies on the kernel, the condition is
  stated for each event in the state in which it arrives (\<open>env_run\<close>, \<open>kernel_ok\<close> of
  \<open>Interfaces\<close>): a new descriptor is not one that is open, a read returns no more than its bound.
  The loop of a server is \<open>run\<close> over the list of its events, so that a theorem about all lists is
  a theorem about the loop for as long as it goes on. After \<^verbatim>\<open>fork\<close> the model follows one process and
  records the child as an output that carries what the child does (\<open>Child\<close> of \<open>Line_Input\<close>), or
  as a second process with its own steps. Strings are lists of characters; \<^verbatim>\<open>strncpy\<close>, \<^verbatim>\<open>strtok\<close>,
  \<^verbatim>\<open>snprintf\<close> and \<^verbatim>\<open>fgets\<close> with their bounds are in \<open>C_Strings\<close>, \<open>Shell_Parse\<close> and \<open>Line_Input\<close>.

  \<^bold>\<open>The library.\<close>
  \<^item> \<open>Prelude_C\<close>: faults, arrays, runs; the simplification collections of the development.
  \<^item> \<open>C_Strings\<close>: \<^verbatim>\<open>atoi\<close>, \<^verbatim>\<open>strncmp\<close>, \<^verbatim>\<open>snprintf\<close>, decimal rendering and their round trips.
  \<^item> \<open>Syscalls\<close>: system calls, read answers, projections of an output (\<open>sends\<close>, \<open>closed\<close>).
  \<^item> \<open>Line_Input\<close>: lines of standard input and the loops they drive.
  \<^item> \<open>Fd_Table\<close>: descriptor tables with \<^verbatim>\<open>open\<close>, \<^verbatim>\<open>pipe\<close>, \<^verbatim>\<open>dup2\<close> and \<^verbatim>\<open>close\<close>.
  \<^item> \<open>Wait_Status\<close>: the status words of \<^verbatim>\<open>waitpid\<close> and the macros that read them, on 32-bit words.
  \<^item> \<open>Counted_Table\<close>: an array with a counter as a finite map; swap-with-last removal.
  \<^item> \<open>Interfaces\<close> and \<open>Interleaving\<close>: the contracts, as locales. \<open>event_server\<close> (every
    descriptor is kept or closed, nothing is sent to others) is interpreted on the chat servers of labs 04, 14,
    17 and 18; \<open>client_table\<close> on their tables; \<open>round_robin\<close> (strict rotation over three
    servers) on the balancers of labs 09, 10, 12 and 13; \<open>fifo\<close> on the job queue of lab 15; \<open>job_shell\<close>
    (the table follows the reports) on the shells of labs 07, 11 and 12; \<open>two_processes\<close> and its extension
    \<open>counted_processes\<close> (each step lowers a number of operations left) on the IPC labs.
    \<open>chat_client\<close>, on the clients of labs 14, 15, 17 and 18, is in \<open>Chat_Clients\<close>.

  \<^bold>\<open>Shells and processes\<close> (\<^verbatim>\<open>src/01_processes\<close>).
  \<^item> \<open>Exec_Labs\<close>: labs 01 to 03 (\<^verbatim>\<open>fork\<close>, \<^verbatim>\<open>exec\<close>, environments), parents and executed programs.
  \<^item> \<open>Shell_Parse\<close>: the tokenizers and pipeline splitters of labs 04 to 07 and 12, each against a
    reference on lists of words, with the exact inputs on which one writes past its array.
  \<^item> \<open>Shell_Pipes\<close>: the shells of labs 04 (commands), 05 (pipelines) and 06 (redirection); the
    descriptor tables of parent and children after the wiring.
  \<^item> \<open>Jobs07\<close>, \<open>Jobs10\<close>, \<open>Jobs11\<close>, \<open>Jobs12\<close>: the shells with background jobs; the
    signal handler runs between two lines, before a job is entered or during a foreground wait. The table is refined
    by a list or map of jobs, and the theorems tell which jobs are never recorded as done.
  \<^item> \<open>Signals\<close>, \<open>Groups09\<close>: labs 08 and 09 and the first IPC lab: delivery of signals, stopped children
    and process groups, and how each program ends.

  \<^bold>\<open>Two processes\<close> (\<^verbatim>\<open>src/02_ipc\<close>). \<open>Ipc_Fifo\<close> (a pipe, then a named pipe), \<open>Ipc_Messages\<close> (structures as
  bytes through a pipe of any capacity), \<open>Ipc_Semaphores\<close> (shared memory with and without semaphores). A
  schedule is a list of booleans that says who takes each step; the theorems quantify over all of
  them. \<open>Ipc_Main\<close> composes the set-up, its failures, the two processes and the end of each
  \<^verbatim>\<open>main\<close>. No fuel is needed: the number of operations left goes down with every step, and the bounds
  stated are exact (66 steps for the semaphores and 30 for the message queue) or upper bounds (19 for the named pipe).

  \<^bold>\<open>Servers, balancers, loggers\<close> (\<^verbatim>\<open>src/03_networking\<close>).
  \<^item> \<open>Echo_Labs\<close>: labs 01 and 02, and the echo client and server composed. The composition
    runs with one unit of fuel for each turn of the client, which is the number of turns stated.
  \<^item> \<open>Chat04_Bitmap\<close>, \<open>Chat14_Epoll\<close>, \<open>Chat17_Command\<close>, \<open>Chat18_Room\<close>: the event-loop
    chat servers. An event is one entry of the array \<^verbatim>\<open>epoll_wait\<close> fills. Labs 17 and 18 refine
    a specification on finite maps from descriptors to clients, one step for one step.
  \<^item> \<open>Chat16_Tls\<close>: the chat server over TLS. OpenSSL is not in the repository: what its
    calls return is data of the events, unconstrained but for the lengths of reads and writes.
    \<open>Chat16_Main\<close> is its start and end.
  \<^item> \<open>Chat15_Queue\<close>, \<open>Chat15_Workers\<close>, \<open>Chat15_Pool\<close>: the server with a pool of threads: the
    linked structures in a heap of cells, sending and broadcasting, and the workers, \<^verbatim>\<open>main\<close> and the signal handler as
    an interleaving step relation. The walks over the lists and \<^verbatim>\<open>send_all\<close> are modelled
    as loops that need not end; that they do is part of the theorems. Stopping takes at most six steps for each
    worker and four for \<^verbatim>\<open>main\<close>.
  \<^item> \<open>Chat_Clients\<close>, \<open>Select_Clients\<close>: the clients of the chat servers.
  \<^item> \<open>Balance09_Udp\<close>, \<open>Balance10_Epoll\<close>, \<open>Balance11_Kqueue\<close>, \<open>Balance12_Fork\<close>, \<open>Balance13_Async\<close>: the
    load balancers with their clients, and the systems of balancer, servers and clients composed; \<open>Backends\<close> holds the
    programs they balance. Lab 11 is proved equivalent to lab 10.
  \<^item> \<open>Loggers\<close>, \<open>Logger05_Tcp\<close>, \<open>Daemon08\<close>: the loggers of labs 03 and 06 to 08, and 05.

  \<^bold>\<open>What the properties show.\<close> Theorems end in a number that is the number of the lab. They come in these
  groups: no descriptor is lost, closed twice or written to after it is closed; the bytes that
  arrive are the bytes sent, to whom they were meant; tables agree with their specification;
  parsers return the words of the line, and round trips; every interleaving ends, or the ones that do not are told apart;
  arrays are left exactly on the inputs stated. A property with a hypothesis is followed by a witness that
  applies it to concrete data.

  \<^bold>\<open>Not modelled.\<close> Failures of \<^verbatim>\<open>fork\<close> in lab 09 of the process labs and of \<^verbatim>\<open>pthread_create\<close> in the chat clients;
  sleeps, other than as an assumption on the order of steps where
  the text says so; the inside of OpenSSL; the bytes of addresses (\<^verbatim>\<open>inet_ntop\<close> is a parameter or is left out). The
  backends and clients of labs 11 and 13 and the client of lab 18 repeat the text of labs 10, 12
  and 17, and are defined by those. \<^verbatim>\<open>00_basics\<close> and the remaining directories hold no C code. Definitions translate what the C
  standard leaves undefined as a fault, and what it leaves to the implementation as on Linux with gcc on 64 bits.

  \<^bold>\<open>Plan.\<close> What is left for later: the failures listed above as further outcomes of the programs
  concerned; lab 15 with its broadcast split into the steps of each \<^verbatim>\<open>send\<close>; the sleeps of the signal labs as
  arbitrary delays.
\<close>

end
